(* ===== verification/Prelude.thy ===== *)
theory Prelude
  imports Main "HOL-Library.Word" "HOL-Library.Monad_Syntax"
begin

text \<open>
  Shared vocabulary of the development: the machine integer types of the Rust sources, byte
  strings, the counting of leading zero bits, and the generic facts on words and lists that the
  component theories rely on. Facts about words read as natural numbers are collected in
  \<open>word_nat\<close>; facts that decide single bits are collected in \<open>word_bits\<close>.
\<close>

unbundle bit_operations_syntax

named_theorems word_nat \<open>words read as natural numbers\<close>
named_theorems word_bits \<open>words read bit by bit\<close>

type_synonym u8 = "8 word"
type_synonym u16 = "16 word"
type_synonym u32 = "32 word"
type_synonym u64 = "64 word"
type_synonym bytes = "u8 list"

definition str_bytes :: "string \<Rightarrow> bytes" where
  "str_bytes s = map (\<lambda>c. of_char c) s"

subsection \<open>Leading zero bits\<close>

fun bit_len :: "nat \<Rightarrow> nat" where
  "bit_len n = (if n = 0 then 0 else Suc (bit_len (n div 2)))"

declare bit_len.simps [simp del]

definition leading_zeros :: "'a::len word \<Rightarrow> nat" where
  "leading_zeros w = LENGTH('a) - bit_len (unat w)"

lemma bit_len_0 [simp]: "bit_len 0 = 0"
  by (simp add: bit_len.simps)

lemma bit_len_bounds: "n < 2 ^ bit_len n \<and> (0 < n \<longrightarrow> 2 ^ (bit_len n - 1) \<le> n)"
proof (induction n rule: bit_len.induct)
  case (1 n)
  show ?case
  proof (cases "n = 0")
    case True
    then show ?thesis by simp
  next
    case False
    note IH = "1.IH" [OF False]
    have bl: "bit_len n = Suc (bit_len (n div 2))"
      using False by (subst bit_len.simps) simp
    have up: "n < 2 ^ bit_len n"
      using IH by (simp add: bl) linarith
    have lo: "2 ^ (bit_len n - 1) \<le> n"
    proof (cases "n div 2 = 0")
      case True
      then show ?thesis using False by (simp add: bl)
    next
      case False
      then have bl2: "bit_len (n div 2) = Suc (bit_len (n div 2) - 1)"
        by (subst (1 2) bit_len.simps) simp
      from False IH have "2 ^ (bit_len (n div 2) - 1) \<le> n div 2" by simp
      then have "2 * 2 ^ (bit_len (n div 2) - 1) \<le> n" by linarith
      moreover have "(2::nat) ^ bit_len (n div 2) = 2 * 2 ^ (bit_len (n div 2) - 1)"
        by (subst bl2) simp
      ultimately show ?thesis by (simp add: bl)
    qed
    show ?thesis using up lo by simp
  qed
qed

lemma bit_len_le: "n < 2 ^ k \<Longrightarrow> bit_len n \<le> k"
proof (rule ccontr)
  assume n: "n < 2 ^ k" and "\<not> bit_len n \<le> k"
  then have k: "k \<le> bit_len n - 1" and "0 < n" by (auto intro: gr0I)
  then have "2 ^ (bit_len n - 1) \<le> n" using bit_len_bounds by blast
  moreover have "(2::nat) ^ k \<le> 2 ^ (bit_len n - 1)" using k by simp
  ultimately show False using n by linarith
qed

lemma bit_len_unat_le: "bit_len (unat (w :: 'a::len word)) \<le> LENGTH('a)"
  by (intro bit_len_le unsigned_less)

lemma bit_len_pos [simp]: "0 < n \<Longrightarrow> 0 < bit_len n"
  by (subst bit_len.simps) simp

subsection \<open>Lists\<close>

lemma sorted_wrt_distinct: "sorted_wrt P xs \<Longrightarrow> (\<And>x. \<not> P x x) \<Longrightarrow> distinct xs"
  by (induction xs) auto

text \<open>The iteration order of a hash set: every element once.\<close>

definition enumerates :: "('a set \<Rightarrow> 'a list) \<Rightarrow> bool" where
  "enumerates order \<longleftrightarrow> (\<forall>s. finite s \<longrightarrow> set (order s) = s \<and> distinct (order s))"

lemma enumerates_sorted: "enumerates sorted_list_of_set"
  by (simp add: enumerates_def)

lemma order_facts:
  assumes "enumerates order"
  shows "set (order s) = (s :: 'a::finite set)" "distinct (order s)" "length (order s) = card s"
  using assms by (auto simp: enumerates_def distinct_card [symmetric])

subsection \<open>Words as numbers\<close>

lemma unat_less_exp: "unat (w :: 'a::len word) < 2 ^ LENGTH('a)"
  by (rule unsigned_less)

lemma unat_u64_less: "unat (w :: u64) < 18446744073709551616"
  using unat_less_exp [of w] by simp

lemma unat_u32_less: "unat (w :: u32) < 4294967296"
  using unat_less_exp [of w] by simp

lemma unat_push_bit [word_nat]:
  "unat (push_bit k (w :: 'a::len word)) = (unat w * 2 ^ k) mod 2 ^ LENGTH('a)"
proof -
  have "unat (push_bit k w) = take_bit LENGTH('a) (push_bit k (unat w))"
    by (rule unsigned_push_bit_eq)
  then show ?thesis by (simp only: take_bit_eq_mod push_bit_eq_mult)
qed

lemma unat_drop_bit [word_nat]: "unat (drop_bit k (w :: 'a::len word)) = unat w div 2 ^ k"
proof -
  have "unat (drop_bit k w) = drop_bit k (unat w)" by (rule unat_drop_bit_eq)
  then show ?thesis by (simp only: drop_bit_eq_div)
qed

lemma unat_ucast_small [word_nat]:
  "unat w < 2 ^ LENGTH('b) \<Longrightarrow> unat (ucast (w :: 'a::len word) :: 'b::len word) = unat w"
  by (simp add: unsigned_ucast_eq take_bit_eq_mod)

lemma unat_of_nat_small [word_nat]: "d < 2 ^ LENGTH('a) \<Longrightarrow> unat (of_nat d :: 'a::len word) = d"
  by (simp add: unsigned_of_nat take_bit_nat_eq_self)

lemma or_eq_add_nat: "(x :: nat) < 2 ^ k \<Longrightarrow> (y * 2 ^ k) OR x = y * 2 ^ k + x"
proof -
  assume x: "x < 2 ^ k"
  have "(y * 2 ^ k) AND x = 0"
  proof (rule bit_eqI)
    fix n
    have "bit x n \<Longrightarrow> n < k"
      using x by (metis bit_take_bit_iff take_bit_nat_eq_self_iff)
    then show "bit ((y * 2 ^ k) AND x) n \<longleftrightarrow> bit (0::nat) n"
      by (auto simp: bit_and_iff bit_push_bit_iff simp flip: push_bit_eq_mult)
  qed
  then show ?thesis by (simp add: disjunctive_add_eq_or)
qed

text \<open>A fact about the words below a bound, checked one by one.\<close>

lemma small_word_cases:
  assumes "list_all (\<lambda>k. P (of_nat k)) [0..<m]" "unat (n :: 'a::len word) < m"
  shows "P n"
proof -
  have "P (of_nat (unat n))" using assms unfolding list_all_iff by force
  then show ?thesis by simp
qed

subsection \<open>Words as bits\<close>

lemma bit_nat_ge: "bit (m :: nat) n \<Longrightarrow> 2 ^ n \<le> m"
  by (metis bit_iff_odd div_less even_zero linorder_not_less)

lemma bit_small: "unat (w :: 'a::len word) < 2 ^ k \<Longrightarrow> bit w n \<Longrightarrow> n < k"
proof -
  assume w: "unat w < 2 ^ k" and "bit w n"
  then have "bit (unat w) n" by (simp add: bit_unsigned_iff)
  then have "2 ^ n \<le> unat w" by (rule bit_nat_ge)
  then have "(2::nat) ^ n < 2 ^ k" using w by linarith
  then show ?thesis by simp
qed

lemma unat_less_if_bits:
  assumes "\<And>n. bit (w :: 'a::len word) n \<Longrightarrow> n < k"
  shows "unat w < 2 ^ k"
proof -
  have "take_bit k (unat w) = unat w"
    using assms by (intro bit_eqI) (auto simp: bit_take_bit_iff bit_unsigned_iff)
  then show ?thesis by (metis take_bit_nat_less_exp)
qed

lemma u8_bit_cases: "bit (w :: u8) n \<Longrightarrow> n \<in> {0, 1, 2, 3, 4, 5, 6, 7}"
  using bit_imp_le_length [of w n] by auto

lemma u8_bit_beyond [simp]: "8 \<le> n \<Longrightarrow> \<not> bit (w :: u8) n"
  using bit_imp_le_length [of w n] by auto

lemma u8_eqI:
  assumes "bit (a :: u8) 0 = bit b 0" "bit a 1 = bit b 1" "bit a 2 = bit b 2" "bit a 3 = bit b 3"
    "bit a 4 = bit b 4" "bit a 5 = bit b 5" "bit a 6 = bit b 6" "bit a 7 = bit b 7"
  shows "a = b"
proof (rule bit_word_eqI)
  fix n assume "n < LENGTH(8)"
  then have "n = 0 \<or> n = 1 \<or> n = 2 \<or> n = 3 \<or> n = 4 \<or> n = 5 \<or> n = 6 \<or> n = 7" by auto
  then show "bit a n = bit b n" by (elim disjE) (simp_all only: assms)
qed

lemma u8_less_32I: "\<not> bit (w :: u8) 5 \<Longrightarrow> \<not> bit w 6 \<Longrightarrow> \<not> bit w 7 \<Longrightarrow> unat w < 32"
proof -
  assume top: "\<not> bit w 5" "\<not> bit w 6" "\<not> bit w 7"
  have "n < 5" if "bit w n" for n
    using u8_bit_cases [OF that] top that by (elim insertE) simp_all
  then have "unat w < 2 ^ 5" by (rule unat_less_if_bits)
  then show ?thesis by simp
qed

text \<open>
  A numeral word is decided bit by bit through the integer numeral
  (\<open>bit_numeral_word_iff\<close>); the masks of the codecs are these.
\<close>

lemma bit_0x7F [word_bits]: "bit (0x7F :: int) n \<longleftrightarrow> n < 7"
proof -
  have "(0x7F :: int) = mask 7" by (simp add: mask_eq_exp_minus_1)
  moreover have "bit (mask 7 :: int) n \<longleftrightarrow> n < 7" by (subst bit_mask_iff) simp
  ultimately show ?thesis by (simp only:)
qed

lemma bit_0x80 [word_bits]: "bit (0x80 :: int) n \<longleftrightarrow> n = 7"
proof -
  have "(0x80 :: int) = 2 ^ 7" by simp
  moreover have "bit (2 ^ 7 :: int) n \<longleftrightarrow> n = 7" by (subst bit_exp_iff) simp
  ultimately show ?thesis by (simp only:)
qed

end
