(* ===== verification/Leb128.thy ===== *)
theory Leb128
  imports Prelude
begin

text \<open>
  Variable-length integers, \<open>crates/utils/src/codec/leb128.rs\<close>. The macro
  \<open>impl_unsigned_leb128\<close> is modelled once for words of any width; its instances are the
  widths and shift lists of the macro's five invocations. The Rust traits \<open>Write\<close> and
  \<open>Iterator\<close> that the codec is generic over are the locales \<open>byte_writer\<close> and
  \<open>byte_iter\<close>: every sink and every source of bytes in the other theories interprets them.
\<close>

subsection \<open>Encoding\<close>

text \<open>The bound \<open>0x80\<close> is compared as a number, so that the definition makes sense at any width.\<close>

function to_leb128_bytes :: "'a::len word \<Rightarrow> bytes" where
  "to_leb128_bytes value =
     (if unat value < 0x80 then [ucast value]
      else ucast ((value AND 0x7f) OR 0x80) # to_leb128_bytes (drop_bit 7 value))"
  by pat_completeness auto
termination
  by (relation "measure unat") (auto simp: word_nat)

declare to_leb128_bytes.simps [simp del]

definition push_leb128 :: "bytes \<Rightarrow> 'a::len word \<Rightarrow> bytes" where
  "push_leb128 buf value = buf @ to_leb128_bytes value"

text \<open>
  The writer version calls \<open>out.write\<close> once per byte and adds up the counts that the calls
  report. \<open>write\<close> is the sink's method: it returns the new sink and the number of bytes taken.
\<close>

function to_leb128_writer ::
  "('w \<Rightarrow> bytes \<Rightarrow> 'w \<times> nat) \<Rightarrow> 'a::len word \<Rightarrow> 'w \<Rightarrow> nat \<Rightarrow> 'w \<times> nat" where
  "to_leb128_writer wr value out bytes_written =
     (if unat value < 0x80
      then (case wr out [ucast value] of (out', n) \<Rightarrow> (out', bytes_written + n))
      else (case wr out [ucast ((value AND 0x7f) OR 0x80)] of
              (out', n) \<Rightarrow> to_leb128_writer wr (drop_bit 7 value) out' (bytes_written + n)))"
  by pat_completeness auto
termination
  by (relation "measure (\<lambda>(_, value, _, _). unat value)") (auto simp: word_nat)

declare to_leb128_writer.simps [simp del]

subsection \<open>Decoding\<close>

text \<open>
  \<open>from_leb128_loop\<close> is the \<open>for\<close> loop over the shifts zipped with the enumerated
  slice; \<open>pos\<close> is the index of the next byte and \<open>result\<close> the accumulator.
\<close>

fun from_leb128_loop ::
  "nat list \<Rightarrow> nat \<Rightarrow> bytes \<Rightarrow> 'a::len word \<Rightarrow> ('a word \<times> nat) option" where
  "from_leb128_loop (shift # shifts) pos (byte # bs) result =
     (if byte AND 0x80 = 0
      then Some (result OR push_bit shift (ucast byte), pos + 1)
      else from_leb128_loop shifts (pos + 1) bs
             (result OR push_bit shift (ucast (byte AND 0x7F))))"
| "from_leb128_loop shifts pos bs result = None"

definition from_leb128_bytes_pos :: "nat list \<Rightarrow> bytes \<Rightarrow> ('a::len word \<times> nat) option" where
  "from_leb128_bytes_pos shifts bs = from_leb128_loop shifts 0 bs 0"

definition from_leb128_bytes :: "nat list \<Rightarrow> bytes \<Rightarrow> 'a::len word option" where
  "from_leb128_bytes shifts bs = map_option fst (from_leb128_loop shifts 0 bs 0)"

text \<open>
  The iterator version. \<open>nxt\<close> returns the item, if any, and the advanced iterator. The
  shifts are the left operand of \<open>zip\<close>, so an exhausted shift list takes no byte.
\<close>

fun from_leb128_it ::
  "('i \<Rightarrow> u8 option \<times> 'i) \<Rightarrow> nat list \<Rightarrow> 'i \<Rightarrow> 'a::len word \<Rightarrow> 'a word option \<times> 'i" where
  "from_leb128_it nxt [] it result = (None, it)"
| "from_leb128_it nxt (shift # shifts) it result =
     (case nxt it of
        (None, it') \<Rightarrow> (None, it')
      | (Some byte, it') \<Rightarrow>
          if byte AND 0x80 = 0
          then (Some (result OR push_bit shift (ucast byte)), it')
          else from_leb128_it nxt shifts it'
                 (result OR push_bit shift (ucast (byte AND 0x7F))))"

fun skip_leb128 :: "nat \<Rightarrow> bytes \<Rightarrow> nat option" where
  "skip_leb128 pos [] = None"
| "skip_leb128 pos (byte # bs) =
     (if byte AND 0x80 = 0 then Some (pos + 1) else skip_leb128 (pos + 1) bs)"

text \<open>The shift lists of the macro's invocations.\<close>

definition shifts_u8 :: "nat list" where "shifts_u8 = [0]"
definition shifts_u16 :: "nat list" where "shifts_u16 = [0, 7, 14]"
definition shifts_u32 :: "nat list" where "shifts_u32 = [0, 7, 14, 21, 28]"
definition shifts_u64 :: "nat list" where "shifts_u64 = [0, 7, 14, 21, 28, 35, 42, 49, 56, 63]"

subsection \<open>Bytes that carry a continuation bit\<close>

definition sevens :: "nat \<Rightarrow> nat \<Rightarrow> nat list" where
  "sevens i k = map (\<lambda>j. 7 * j) [i..<k]"

lemma sevens_Cons: "i < k \<Longrightarrow> sevens i k = (7 * i) # sevens (Suc i) k"
  by (simp add: sevens_def upt_conv_Cons)

lemma shifts_sevens: "shifts_u8 = sevens 0 1" "shifts_u16 = sevens 0 3"
    "shifts_u32 = sevens 0 5" "shifts_u64 = sevens 0 10"
  by (simp_all add: shifts_u8_def shifts_u16_def shifts_u32_def shifts_u64_def sevens_def upt_rec)

lemma last_byte_flag: "unat (w :: 'a::len word) < 0x80 \<Longrightarrow> (ucast w :: u8) AND 0x80 = 0"
  by (rule bit_word_eqI)
    (auto simp: bit_simps word_bits dest: bit_small [where k = 7, simplified])

lemma ucast_last_byte: "unat (w :: 'a::len word) < 0x80 \<Longrightarrow> ucast (ucast w :: u8) = w"
  by (rule bit_word_eqI)
    (auto simp: bit_simps dest: bit_small [where k = 7, simplified] bit_imp_le_length)

lemma more_byte_flag: "(ucast ((w AND 0x7f) OR 0x80 :: 'a::len word) :: u8) AND 0x80 \<noteq> 0"
  if "8 \<le> LENGTH('a)"
proof
  assume "(ucast ((w AND 0x7f) OR 0x80 :: 'a word) :: u8) AND 0x80 = 0"
  then have "\<not> bit ((ucast ((w AND 0x7f) OR 0x80 :: 'a word) :: u8) AND 0x80) 7" by simp
  then show False using that by (simp add: bit_simps word_bits)
qed

lemma ucast_more_byte:
  "ucast ((ucast ((w AND 0x7f) OR 0x80 :: 'a::len word) :: u8) AND 0x7F) = (w AND 0x7f :: 'a word)"
  by (rule bit_word_eqI) (auto simp: bit_simps word_bits)

lemma push_bit_split7:
  "push_bit k (w AND 0x7f) OR push_bit (k + 7) (drop_bit 7 w) = push_bit k (w :: 'a::len word)"
proof (rule bit_word_eqI)
  fix n assume n: "n < LENGTH('a)"
  have "k + 7 \<le> n \<Longrightarrow> 7 + (n - (k + 7)) = n - k" by simp
  with n show "bit (push_bit k (w AND 0x7f) OR push_bit (k + 7) (drop_bit 7 w)) n
      \<longleftrightarrow> bit (push_bit k w) n"
    by (cases "k + 7 \<le> n") (auto simp: bit_simps word_bits)
qed

subsection \<open>Interfaces: sinks and sources of bytes\<close>

text \<open>
  A sink takes all the bytes it is given, in order, and reports how many. A source is a list
  of bytes that \<open>nxt\<close> takes apart from the front.
\<close>

locale byte_writer =
  fixes wr :: "'w \<Rightarrow> bytes \<Rightarrow> 'w \<times> nat"
    and written :: "'w \<Rightarrow> bytes"
    and winv :: "'w \<Rightarrow> bool"
  assumes written_write: "winv w \<Longrightarrow> written (fst (wr w bs)) = written w @ bs"
    and count_write: "winv w \<Longrightarrow> snd (wr w bs) = length bs"
    and winv_write: "winv w \<Longrightarrow> winv (fst (wr w bs))"
begin

lemma write_split:
  "winv w \<Longrightarrow> \<exists>w'. wr w bs = (w', length bs) \<and> winv w' \<and> written w' = written w @ bs"
  by (metis count_write prod.collapse winv_write written_write)

lemma to_leb128_writer_correct:
  "winv w \<Longrightarrow> \<exists>w'. to_leb128_writer wr v w n = (w', n + length (to_leb128_bytes v))
     \<and> winv w' \<and> written w' = written w @ to_leb128_bytes v"
proof (induction v arbitrary: w n rule: to_leb128_bytes.induct)
  case (1 v)
  show ?case
  proof (cases "unat v < 0x80")
    case True
    with "1.prems" write_split [of w "[ucast v]"] show ?thesis
      by (auto simp: to_leb128_writer.simps [of wr v] to_leb128_bytes.simps [of v])
  next
    case False
    let ?b = "ucast ((v AND 0x7f) OR 0x80)"
    obtain w1 where w1: "wr w [?b] = (w1, Suc 0)" "winv w1" "written w1 = written w @ [?b]"
      using write_split [OF "1.prems", of "[?b]"] by auto
    from "1.IH" [OF False w1(2), of "n + Suc 0"] False w1 show ?thesis
      by (auto simp: to_leb128_writer.simps [of wr v] to_leb128_bytes.simps [of v])
  qed
qed

end

locale byte_iter =
  fixes nxt :: "'i \<Rightarrow> u8 option \<times> 'i"
    and remaining :: "'i \<Rightarrow> bytes"
  assumes next_None: "fst (nxt it) = None \<longleftrightarrow> remaining it = []"
    and next_Some: "nxt it = (Some b, it') \<Longrightarrow> remaining it = b # remaining it'"
begin

lemma next_Cons:
  "remaining it = b # bs \<Longrightarrow> \<exists>it'. nxt it = (Some b, it') \<and> remaining it' = bs"
  by (cases "nxt it"; cases "fst (nxt it)")
    (use next_None [of it] next_Some [of it] in \<open>force simp del: not_None_eq\<close>)+

text \<open>Reading one integer takes exactly the bytes that encode it from the source.\<close>

lemma from_leb128_it_loop:
  assumes "8 \<le> LENGTH('a)"
  shows "unat v < 2 ^ (7 * (k - i)) \<Longrightarrow> i < k \<Longrightarrow>
     remaining it = to_leb128_bytes v @ rest \<Longrightarrow>
     \<exists>it'. from_leb128_it nxt (sevens i k) it acc
             = (Some (acc OR push_bit (7 * i) (v :: 'a::len word)), it') \<and> remaining it' = rest"
proof (induction v arbitrary: i it acc rule: to_leb128_bytes.induct)
  case (1 v)
  show ?case
  proof (cases "unat v < 0x80")
    case True
    then have "remaining it = ucast v # rest"
      using "1.prems"(3) by (simp add: to_leb128_bytes.simps [of v])
    then obtain it' where "nxt it = (Some (ucast v), it')" "remaining it' = rest"
      using next_Cons by blast
    with True "1.prems"(2) show ?thesis
      by (simp add: sevens_Cons last_byte_flag ucast_last_byte)
  next
    case False
    let ?b = "ucast ((v AND 0x7f) OR 0x80) :: u8"
    have "remaining it = ?b # to_leb128_bytes (drop_bit 7 v) @ rest"
      using False "1.prems"(3) by (simp add: to_leb128_bytes.simps [of v])
    then obtain it1 where it1: "nxt it = (Some ?b, it1)"
      "remaining it1 = to_leb128_bytes (drop_bit 7 v) @ rest"
      using next_Cons by blast
    have ik: "Suc i < k"
    proof (rule ccontr)
      assume "\<not> Suc i < k"
      with "1.prems"(2) have "k - i = 1" by simp
      with "1.prems"(1) False show False by simp
    qed
    have "7 * (k - i) = 7 + 7 * (k - Suc i)" using ik by simp
    then have "unat v < 2 ^ 7 * 2 ^ (7 * (k - Suc i))"
      using "1.prems"(1) by (simp only: power_add)
    then have small: "unat (drop_bit 7 v) < 2 ^ (7 * (k - Suc i))"
      by (simp add: word_nat less_mult_imp_div_less mult.commute)
    from "1.IH" [OF False small ik it1(2), of "acc OR push_bit (7 * i) (v AND 0x7f)"]
    show ?thesis
      using it1(1) more_byte_flag [OF assms, of v] "1.prems"(2) push_bit_split7 [of "7 * i" v]
      by (simp add: sevens_Cons ucast_more_byte or.assoc algebra_simps)
  qed
qed

lemma from_leb128_it_correct:
  assumes "8 \<le> LENGTH('a)" "LENGTH('a) \<le> 7 * k" "remaining it = to_leb128_bytes v @ rest"
  shows "\<exists>it'. from_leb128_it nxt (sevens 0 k) it 0 = (Some (v :: 'a::len word), it')
           \<and> remaining it' = rest"
proof -
  have "unat v < 2 ^ (7 * k)"
    using assms(2) unsigned_less [of v] by (meson order_less_le_trans power_increasing one_le_numeral)
  moreover have "0 < k" using assms(1,2) by (cases k) auto
  ultimately show ?thesis
    using from_leb128_it_loop [OF assms(1), of v k 0 it rest 0] assms(3) by simp
qed

end

subsection \<open>The sinks and sources of the standard library\<close>

definition vec_write :: "bytes \<Rightarrow> bytes \<Rightarrow> bytes \<times> nat" where
  "vec_write buf bs = (buf @ bs, length bs)"

fun slice_next :: "bytes \<Rightarrow> u8 option \<times> bytes" where
  "slice_next [] = (None, [])"
| "slice_next (b # bs) = (Some b, bs)"

interpretation vec: byte_writer vec_write id "\<lambda>_. True"
  by unfold_locales (simp_all add: vec_write_def)

interpretation slice_iter: byte_iter slice_next id
proof
  show "fst (slice_next it) = None \<longleftrightarrow> id it = []" for it by (cases it) auto
  show "slice_next it = (Some b, it') \<Longrightarrow> id it = b # id it'" for it b it' by (cases it) auto
qed

text \<open>The slice loop is the iterator loop on the slice's iterator, with positions.\<close>

lemma from_leb128_loop_it:
  "from_leb128_loop shifts pos bs acc =
     (case from_leb128_it slice_next shifts bs acc of
        (None, _) \<Rightarrow> None
      | (Some v, rest) \<Rightarrow> Some (v, pos + (length bs - length rest)))
   \<and> length (snd (from_leb128_it slice_next shifts bs acc)) \<le> length bs"
proof (induction shifts arbitrary: pos bs acc)
  case (Cons shift shifts)
  show ?case
  proof (cases bs)
    case (Cons byte bs')
    then show ?thesis
      using Cons.IH [of "pos + 1" bs' "acc OR push_bit shift (ucast (byte AND 0x7F))"]
      by (auto split: prod.splits option.splits simp: Suc_diff_le le_Suc_eq)
  qed simp
qed simp

text \<open>Every width of at least eight bits whose shift list covers it reads back what was written.\<close>

lemma from_leb128_loop_to_bytes:
  assumes "8 \<le> LENGTH('a)" "LENGTH('a) \<le> 7 * k"
  shows "from_leb128_loop (sevens 0 k) 0 (to_leb128_bytes v @ rest) 0
           = Some (v :: 'a::len word, length (to_leb128_bytes v))"
  using slice_iter.from_leb128_it_correct [OF assms, of "to_leb128_bytes v @ rest" v rest]
  by (auto simp: from_leb128_loop_it [of "sevens 0 k"])

subsection \<open>Properties\<close>

text \<open>
  C24: writing an unsigned integer of 16, 32 or 64 bits and reading it back from a longer buffer
  gives the integer and the number of bytes it took, whatever bytes follow.
\<close>

theorem leb128_roundtrip:
  "from_leb128_bytes_pos shifts_u16 (push_leb128 [] (a :: u16) @ rest)
     = Some (a, length (to_leb128_bytes a))
   \<and> from_leb128_bytes_pos shifts_u32 (push_leb128 [] (b :: u32) @ rest)
     = Some (b, length (to_leb128_bytes b))
   \<and> from_leb128_bytes_pos shifts_u64 (push_leb128 [] (c :: u64) @ rest)
     = Some (c, length (to_leb128_bytes c))"
  unfolding from_leb128_bytes_pos_def push_leb128_def shifts_sevens
  by (simp add: from_leb128_loop_to_bytes)

lemma to_leb128_length_aux:
  "unat (v :: 'a::len word) < 2 ^ (7 * k) \<Longrightarrow> 0 < k \<Longrightarrow> length (to_leb128_bytes v) \<le> k"
proof (induction v arbitrary: k rule: to_leb128_bytes.induct)
  case (1 v)
  show ?case
  proof (cases "unat v < 0x80")
    case True
    then show ?thesis using "1.prems" by (simp add: to_leb128_bytes.simps [of v])
  next
    case False
    obtain k' where k: "k = Suc k'" using "1.prems"(2) gr0_implies_Suc by blast
    have "0 < k'" using "1.prems"(1) False by (cases k') (simp_all add: k)
    moreover have "unat (drop_bit 7 v) < 2 ^ (7 * k')"
      using "1.prems"(1) by (simp add: k power_add word_nat less_mult_imp_div_less mult.commute)
    ultimately have "length (to_leb128_bytes (drop_bit 7 v)) \<le> k'"
      using "1.IH" [OF False] by blast
    then show ?thesis using False by (simp add: to_leb128_bytes.simps [of v] k)
  qed
qed

lemma skip_leb128_to_bytes:
  assumes "8 \<le> LENGTH('a)"
  shows "skip_leb128 pos (to_leb128_bytes (v :: 'a::len word) @ rest)
           = Some (pos + length (to_leb128_bytes v))"
proof (induction v arbitrary: pos rule: to_leb128_bytes.induct)
  case (1 v)
  then show ?case
    using more_byte_flag [OF assms, of v]
    by (auto simp: to_leb128_bytes.simps [of v] last_byte_flag)
qed

text \<open>
  An encoded 64-bit integer takes at most ten bytes and a 32-bit one at most five, so the
  decoder's shift list never runs out, and \<open>skip_leb128\<close> skips exactly the encoded bytes.
\<close>

theorem leb128_length_and_skip:
  "length (to_leb128_bytes (c :: u64)) \<le> length shifts_u64
   \<and> length (to_leb128_bytes (b :: u32)) \<le> length shifts_u32
   \<and> skip_leb128 0 (to_leb128_bytes c @ rest) = Some (length (to_leb128_bytes c))
   \<and> skip_leb128 0 (to_leb128_bytes b @ rest) = Some (length (to_leb128_bytes b))"
proof -
  have "unat c < 2 ^ (7 * 10)" using unat_u64_less [of c] by simp
  moreover have "unat b < 2 ^ (7 * 5)" using unat_u32_less [of b] by simp
  ultimately show ?thesis
    using to_leb128_length_aux [of c 10] to_leb128_length_aux [of b 5]
    by (simp add: shifts_u64_def shifts_u32_def skip_leb128_to_bytes)
qed

text \<open>
  C40: the 8-bit instance is given the single shift 0, so it reads back only the values
  below \<open>0x80\<close>; a larger byte is written as two bytes and the decoder then returns nothing.
\<close>

theorem leb128_u8_roundtrip_only_below_128:
  "from_leb128_bytes shifts_u8 (to_leb128_bytes (v :: u8)) = (if unat v < 0x80 then Some v else None)"
proof (cases "unat v < 0x80")
  case True
  then show ?thesis
    using last_byte_flag [of v]
    by (simp add: from_leb128_bytes_def shifts_u8_def to_leb128_bytes.simps [of v])
next
  case False
  then show ?thesis
    using more_byte_flag [of v]
    by (simp add: from_leb128_bytes_def shifts_u8_def to_leb128_bytes.simps [of v])
qed

end
