(* ===== verification/Base32.thy ===== *)
theory Base32
  imports Leb128
begin

text \<open>
  The base-32 text codec of \<open>crates/utils/src/codec/base32_custom.rs\<close>. The writer is a state
  machine over a five byte cycle that keeps the last byte; the reader is an iterator that keeps
  the last five bit group. The main result is that reading what was written gives the bytes
  back, from which the writer and the reader interpret the byte interfaces of \<open>Leb128\<close>.
\<close>

definition BASE32_ALPHABET :: bytes where
  "BASE32_ALPHABET = str_bytes ''abcdefghijklmnopqrstuvwxyz792013''"

definition BASE32_INVERSE :: bytes where
  "BASE32_INVERSE =
    [255, 255, 255, 255, 255, 255, 255, 255, 255, 255, 255, 255, 255, 255, 255, 255,
     255, 255, 255, 255, 255, 255, 255, 255, 255, 255, 255, 255, 255, 255, 255, 255,
     255, 255, 255, 255, 255, 255, 255, 255, 255, 255, 255, 255, 255, 255, 255, 255,
     29, 30, 28, 31, 255, 255, 255, 26, 255, 27, 255, 255, 255, 255, 255, 255,
     255, 255, 255, 255, 255, 255, 255, 255, 255, 255, 255, 10, 11, 12, 13, 14,
     15, 16, 17, 18, 19, 20, 21, 22, 23, 24, 25, 255, 255, 255, 255, 255,
     255, 0, 1, 2, 3, 4, 5, 6, 7, 8, 9, 10, 11, 12, 13, 14,
     15, 16, 17, 18, 19, 20, 21, 22, 23, 24, 25, 255, 255, 255, 255, 255,
     255, 255, 255, 255, 255, 255, 255, 255, 255, 255, 255, 255, 255, 255, 255, 255,
     255, 255, 255, 255, 255, 255, 255, 255, 255, 255, 255, 255, 255, 255, 255, 255,
     255, 255, 255, 255, 255, 255, 255, 255, 255, 255, 255, 255, 255, 255, 255, 255,
     255, 255, 255, 255, 255, 255, 255, 255, 255, 255, 255, 255, 255, 255, 255, 255,
     255, 255, 255, 255, 255, 255, 255, 255, 255, 255, 255, 255, 255, 255, 255, 255,
     255, 255, 255, 255, 255, 255, 255, 255, 255, 255, 255, 255, 255, 255, 255, 255,
     255, 255, 255, 255, 255, 255, 255, 255, 255, 255, 255, 255, 255, 255, 255, 255,
     255, 255, 255, 255, 255, 255, 255, 255, 255, 255, 255, 255, 255, 255, 255, 255]"

subsection \<open>Writer\<close>

record base32_writer =
  w_last_byte :: u8
  w_pos :: nat
  w_result :: bytes

definition writer_with_capacity :: "nat \<Rightarrow> base32_writer" where
  "writer_with_capacity capacity = \<lparr> w_last_byte = 0, w_pos = 0, w_result = [] \<rparr>"

definition push_char :: "base32_writer \<Rightarrow> u8 \<Rightarrow> base32_writer" where
  "push_char w ch = w\<lparr> w_result := w_result w @ [ch] \<rparr>"

definition push_string :: "base32_writer \<Rightarrow> bytes \<Rightarrow> base32_writer" where
  "push_string w str = w\<lparr> w_result := w_result w @ str \<rparr>"

text \<open>The pair of five bit groups of \<open>push_byte\<close>; \<open>0xFF\<close> stands for no second group.\<close>

definition push_groups :: "u8 \<Rightarrow> nat \<Rightarrow> u8 \<Rightarrow> u8 \<times> u8" where
  "push_groups last_byte pos byte =
     (if pos mod 5 = 0 then (drop_bit 3 (byte AND 0xF8), 0xFF)
      else if pos mod 5 = 1 then
        (push_bit 2 (last_byte AND 0x07) OR drop_bit 6 (byte AND 0xC0), drop_bit 1 (byte AND 0x3E))
      else if pos mod 5 = 2 then
        (push_bit 4 (last_byte AND 0x01) OR drop_bit 4 (byte AND 0xF0), 0xFF)
      else if pos mod 5 = 3 then
        (push_bit 1 (last_byte AND 0x0F) OR drop_bit 7 byte, drop_bit 2 (byte AND 0x7C))
      else
        (push_bit 3 (last_byte AND 0x03) OR drop_bit 5 (byte AND 0xE0), byte AND 0x1F))"

definition push_byte :: "base32_writer \<Rightarrow> u8 \<Rightarrow> bool \<Rightarrow> base32_writer" where
  "push_byte w byte is_remainder =
     (let (ch1, ch2) = push_groups (w_last_byte w) (w_pos w) byte;
          w1 = push_char w (BASE32_ALPHABET ! unat ch1)
      in if is_remainder then w1
         else let w2 = (if ch2 \<noteq> 0xFF then push_char w1 (BASE32_ALPHABET ! unat ch2) else w1)
              in w2\<lparr> w_last_byte := byte, w_pos := w_pos w + 1 \<rparr>)"

definition base32_finalize :: "base32_writer \<Rightarrow> bytes" where
  "base32_finalize w = w_result (if w_pos w mod 5 \<noteq> 0 then push_byte w 0 True else w)"

definition base32_write :: "base32_writer \<Rightarrow> bytes \<Rightarrow> base32_writer \<times> nat" where
  "base32_write w bs =
     (let w' = foldl (\<lambda>w byte. push_byte w byte False) w bs in (w', w_pos w' - w_pos w))"

definition writer_from_bytes :: "bytes \<Rightarrow> base32_writer" where
  "writer_from_bytes bs = fst (base32_write (writer_with_capacity (length bs)) bs)"

subsection \<open>Reader\<close>

record base32_reader =
  r_bytes :: bytes
  r_last_byte :: u8
  r_pos :: nat

definition reader_new :: "bytes \<Rightarrow> base32_reader" where
  "reader_new bs = \<lparr> r_bytes = bs, r_last_byte = 0, r_pos = 0 \<rparr>"

definition map_byte :: "base32_reader \<Rightarrow> u8 option \<times> base32_reader" where
  "map_byte r =
     (case r_bytes r of
        [] \<Rightarrow> (None, r)
      | ch # chs \<Rightarrow>
          let byte = BASE32_INVERSE ! unat ch; r' = r\<lparr> r_bytes := chs \<rparr>
          in if byte \<noteq> 0xFF then (Some byte, r'\<lparr> r_last_byte := byte \<rparr>) else (None, r'))"

definition unwrap_or_0 :: "u8 option \<Rightarrow> u8" where
  "unwrap_or_0 x = (case x of None \<Rightarrow> 0 | Some b \<Rightarrow> b)"

definition base32_next :: "base32_reader \<Rightarrow> u8 option \<times> base32_reader" where
  "base32_next r =
     (let pos = r_pos r mod 5; last_byte = r_last_byte r
      in case map_byte r of
           (None, r1) \<Rightarrow> (None, r1)
         | (Some byte, r1) \<Rightarrow>
             let r2 = r1\<lparr> r_pos := r_pos r1 + 1 \<rparr>
             in if pos = 0 then
                  (let (m, r3) = map_byte r2
                   in (Some (push_bit 3 byte OR drop_bit 2 (unwrap_or_0 m)), r3))
                else if pos = 1 then
                  (let (m, r3) = map_byte r2
                   in (Some (push_bit 6 last_byte OR push_bit 1 byte OR drop_bit 4 (unwrap_or_0 m)), r3))
                else if pos = 2 then (Some (push_bit 4 last_byte OR drop_bit 1 byte), r2)
                else if pos = 3 then
                  (let (m, r3) = map_byte r2
                   in (Some (push_bit 7 last_byte OR push_bit 2 byte OR drop_bit 3 (unwrap_or_0 m)), r3))
                else (Some (push_bit 5 last_byte OR byte), r2))"

lemma map_byte_shrinks: "length (r_bytes (snd (map_byte r))) \<le> length (r_bytes r)"
  by (auto simp: map_byte_def Let_def split: list.splits)

lemma map_byte_Some_shrinks:
  "map_byte r = (Some b, r') \<Longrightarrow> length (r_bytes r') < length (r_bytes r)"
  by (auto simp: map_byte_def Let_def split: list.splits if_splits)

lemma base32_next_shrinks:
  assumes "base32_next r = (Some b, r')"
  shows "length (r_bytes r') < length (r_bytes r)"
proof -
  obtain b1 r1 where m: "map_byte r = (Some b1, r1)"
    using assms by (cases "map_byte r"; cases "fst (map_byte r)") (auto simp: base32_next_def Let_def)
  let ?r2 = "r1\<lparr> r_pos := r_pos r1 + 1 \<rparr>"
  have "r' = ?r2 \<or> r' = snd (map_byte ?r2)"
    using assms by (auto simp: base32_next_def m Let_def split: prod.splits if_splits)
  moreover have "length (r_bytes ?r2) < length (r_bytes r)"
    using map_byte_Some_shrinks [OF m] by simp
  ultimately show ?thesis using map_byte_shrinks [of ?r2] by auto
qed

text \<open>The bytes a reader yields, in order, up to its first \<open>None\<close>.\<close>

function base32_collect :: "base32_reader \<Rightarrow> bytes" where
  "base32_collect r =
     (case base32_next r of (None, _) \<Rightarrow> [] | (Some b, r') \<Rightarrow> b # base32_collect r')"
  by pat_completeness auto
termination
  by (relation "measure (\<lambda>r. length (r_bytes r))") (auto dest: base32_next_shrinks sym)

declare base32_collect.simps [simp del]

subsection \<open>The alphabet\<close>

lemma alphabet_inverse_all:
  "list_all (\<lambda>i. BASE32_INVERSE ! unat (BASE32_ALPHABET ! i) = of_nat i) [0..<32]"
  by (simp add: BASE32_ALPHABET_def BASE32_INVERSE_def str_bytes_def upt_rec)

lemma alphabet_inverse:
  "unat (g :: u8) < 32 \<Longrightarrow> BASE32_INVERSE ! unat (BASE32_ALPHABET ! unat g) = g"
  using alphabet_inverse_all by (auto simp: list_all_iff)

lemma group_not_max: "unat (g :: u8) < 32 \<Longrightarrow> g \<noteq> 0xFF"
  by auto

lemma map_byte_alphabet:
  "unat g < 32 \<Longrightarrow> r_bytes r = BASE32_ALPHABET ! unat g # chs \<Longrightarrow>
     map_byte r = (Some g, r\<lparr> r_bytes := chs, r_last_byte := g \<rparr>)"
  by (simp add: map_byte_def Let_def alphabet_inverse group_not_max)

subsection \<open>The groups of a byte\<close>

text \<open>The characters that a writer with last byte \<open>l\<close> at cycle position \<open>q\<close> still emits.\<close>

fun group_chars :: "u8 \<Rightarrow> nat \<Rightarrow> bytes \<Rightarrow> bytes" where
  "group_chars l q [] = (if q mod 5 = 0 then [] else [fst (push_groups l q 0)])"
| "group_chars l q (b # bs) =
     (let (g1, g2) = push_groups l q b
      in g1 # (if g2 = 0xFF then [] else [g2]) @ group_chars b (Suc q) bs)"

lemma push_groups_second: "snd (push_groups l q b) = 0xFF \<longleftrightarrow> q mod 5 \<in> {0, 2}"
proof -
  have "drop_bit 1 (b AND 0x3E) \<noteq> 0xFF" "drop_bit 2 (b AND 0x7C) \<noteq> 0xFF" "b AND 0x1F \<noteq> 0xFF"
    by (auto dest: arg_cong [where f = "\<lambda>w. bit w 7"] simp: bit_simps)
  then show ?thesis by (auto simp: push_groups_def)
qed

lemma push_groups_first_bound: "unat (fst (push_groups l q b)) < 32"
  by (rule u8_less_32I) (simp_all add: push_groups_def bit_simps)

lemma push_groups_second_bound: "q mod 5 \<notin> {0, 2} \<Longrightarrow> unat (snd (push_groups l q b)) < 32"
  by (rule u8_less_32I) (auto simp add: push_groups_def bit_simps)

lemmas push_groups_facts =
  push_groups_second push_groups_first_bound push_groups_second_bound

text \<open>
  The five identities behind the round trip: the groups that position \<open>q\<close> and its successor
  emit hold all the bits of the byte, whatever byte \<open>x\<close> comes next.
\<close>

lemma group_bits_0:
  "q mod 5 = 0 \<Longrightarrow> push_bit 3 (fst (push_groups l q b))
     OR drop_bit 2 (fst (push_groups b (Suc q) x)) = b"
  by (rule u8_eqI) (simp_all add: push_groups_def bit_simps mod_Suc del: push_bit_Suc)

lemma group_bits_1:
  "q mod 5 = Suc 0 \<Longrightarrow> push_bit 6 (fst (push_groups l q b)) OR push_bit (Suc 0) (snd (push_groups l q b))
     OR drop_bit 4 (fst (push_groups b (Suc q) x)) = b"
  by (rule u8_eqI)
    (simp_all add: push_groups_def bit_simps mod_Suc numeral_2_eq_2 [symmetric]
      del: push_bit_Suc)

lemma group_bits_2:
  "q mod 5 = 2 \<Longrightarrow> push_bit 4 (fst (push_groups l q b))
     OR drop_bit (Suc 0) (fst (push_groups b (Suc q) x)) = b"
  by (rule u8_eqI)
    (simp_all add: push_groups_def bit_simps mod_Suc numeral_2_eq_2 [symmetric]
      del: push_bit_Suc)

lemma group_bits_3:
  "q mod 5 = 3 \<Longrightarrow> push_bit 7 (fst (push_groups l q b)) OR push_bit 2 (snd (push_groups l q b))
     OR drop_bit 3 (fst (push_groups b (Suc q) x)) = b"
  by (rule u8_eqI) (simp_all add: push_groups_def bit_simps mod_Suc del: push_bit_Suc)

lemma group_bits_4:
  "q mod 5 = 4 \<Longrightarrow> push_bit 5 (fst (push_groups l q b)) OR snd (push_groups l q b) = b"
  by (rule u8_eqI) (simp_all add: push_groups_def bit_simps)

lemmas group_bits = group_bits_0 group_bits_1 group_bits_2 group_bits_3 group_bits_4

subsection \<open>Round trip\<close>

abbreviation alphabet_chars :: "bytes \<Rightarrow> bytes" where
  "alphabet_chars gs \<equiv> map (\<lambda>g. BASE32_ALPHABET ! unat g) gs"

lemma push_byte_False:
  "push_byte w b False = w\<lparr> w_last_byte := b, w_pos := Suc (w_pos w),
     w_result := w_result w @ alphabet_chars (fst (push_groups (w_last_byte w) (w_pos w) b) #
       (if snd (push_groups (w_last_byte w) (w_pos w) b) = 0xFF then []
        else [snd (push_groups (w_last_byte w) (w_pos w) b)])) \<rparr>"
  by (simp add: push_byte_def push_char_def Let_def split: prod.split)

lemma finalize_foldl:
  "base32_finalize (foldl (\<lambda>w b. push_byte w b False) w bs)
     = w_result w @ alphabet_chars (group_chars (w_last_byte w) (w_pos w) bs)"
proof (induction bs arbitrary: w)
  case Nil
  show ?case by (simp add: base32_finalize_def push_byte_def push_char_def Let_def split: prod.split)
next
  case (Cons b bs)
  show ?case by (simp add: Cons.IH push_byte_False [of w b] Let_def split: prod.split)
qed

lemma group_chars_head: "q mod 5 \<noteq> 0 \<Longrightarrow>
    \<exists>x tl. group_chars l q bs = fst (push_groups l q x) # tl"
proof (cases bs)
  case (Cons b bs')
  then show ?thesis by (intro exI [of _ b]) (simp add: Let_def split: prod.split)
qed auto

text \<open>
  The reader and the writer in step: in mid-cycle the reader has already taken the first group of
  what the writer still emits, and holds it as its last byte.
\<close>

definition in_step :: "base32_reader \<Rightarrow> u8 \<Rightarrow> bytes \<Rightarrow> bool" where
  "in_step r l bs \<longleftrightarrow>
     (let gs = group_chars l (r_pos r) bs
      in if r_pos r mod 5 = 0 then r_bytes r = alphabet_chars gs
         else r_bytes r = alphabet_chars (tl gs) \<and> r_last_byte r = hd gs)"

lemma in_step_Nil: "in_step r l [] \<Longrightarrow> fst (base32_next r) = None"
  by (auto simp: in_step_def Let_def base32_next_def map_byte_def split: if_splits)

lemma mod5_cases: obtains "q mod 5 = 0" | "q mod 5 = 1" | "q mod 5 = 2" | "q mod 5 = 3" | "q mod 5 = (4::nat)"
  by linarith

lemma next_two_groups:
  assumes "r_bytes r = alphabet_chars (g # h # gs)" "unat g < 32" "unat h < 32"
  shows "r_pos r mod 5 = 0 \<Longrightarrow> base32_next r = (Some (push_bit 3 g OR drop_bit 2 h),
           \<lparr> r_bytes = alphabet_chars gs, r_last_byte = h, r_pos = Suc (r_pos r) \<rparr>)"
    and "r_pos r mod 5 = 1 \<Longrightarrow>
         base32_next r = (Some (push_bit 6 (r_last_byte r) OR push_bit 1 g OR drop_bit 4 h),
           \<lparr> r_bytes = alphabet_chars gs, r_last_byte = h, r_pos = Suc (r_pos r) \<rparr>)"
    and "r_pos r mod 5 = 3 \<Longrightarrow>
         base32_next r = (Some (push_bit 7 (r_last_byte r) OR push_bit 2 g OR drop_bit 3 h),
           \<lparr> r_bytes = alphabet_chars gs, r_last_byte = h, r_pos = Suc (r_pos r) \<rparr>)"
  using assms map_byte_alphabet [of g r "alphabet_chars (h # gs)"]
  by (simp_all add: base32_next_def map_byte_alphabet unwrap_or_0_def)

lemma next_one_group:
  assumes "r_bytes r = alphabet_chars (g # gs)" "unat g < 32"
  shows "r_pos r mod 5 = 2 \<Longrightarrow> base32_next r = (Some (push_bit 4 (r_last_byte r) OR drop_bit 1 g),
           \<lparr> r_bytes = alphabet_chars gs, r_last_byte = g, r_pos = Suc (r_pos r) \<rparr>)"
    and "r_pos r mod 5 = 4 \<Longrightarrow> base32_next r = (Some (push_bit 5 (r_last_byte r) OR g),
           \<lparr> r_bytes = alphabet_chars gs, r_last_byte = g, r_pos = Suc (r_pos r) \<rparr>)"
  using assms map_byte_alphabet [of g r "alphabet_chars gs"]
  by (simp_all add: base32_next_def)

lemma group_chars_Cons:
  "group_chars l q (b # bs) = fst (push_groups l q b) #
     (if q mod 5 \<in> {0, 2} then [] else [snd (push_groups l q b)]) @ group_chars b (Suc q) bs"
  using push_groups_second [of l q b] by (auto simp: Let_def split: prod.split)

lemma in_step_Cons:
  assumes "in_step r l (b # bs)"
  shows "\<exists>r'. base32_next r = (Some b, r') \<and> in_step r' b bs"
proof -
  let ?q = "r_pos r" and ?gs = "group_chars b (Suc (r_pos r)) bs"
  obtain x gs where h: "Suc ?q mod 5 \<noteq> 0 \<Longrightarrow> ?gs = fst (push_groups b (Suc ?q) x) # gs"
    using group_chars_head by blast
  note bounds = push_groups_first_bound [of l ?q b] push_groups_second_bound [of ?q l b]
    push_groups_first_bound [of b "Suc ?q" x]
  show ?thesis
  proof (cases rule: mod5_cases [of ?q])
    case 1
    then have "?gs = fst (push_groups b (Suc ?q) x) # gs" using h by (simp add: mod_Suc)
    with assms 1 bounds next_two_groups(1) [of r "fst (push_groups l ?q b)" "fst (push_groups b (Suc ?q) x)" gs] show ?thesis
      by (simp add: in_step_def group_chars_Cons group_bits mod_Suc del: group_chars.simps push_bit_Suc)
  next
    case 2
    then have "?gs = fst (push_groups b (Suc ?q) x) # gs" using h by (simp add: mod_Suc)
    with assms 2 bounds next_two_groups(2) [of r "snd (push_groups l ?q b)" "fst (push_groups b (Suc ?q) x)" gs] show ?thesis
      by (simp add: in_step_def group_chars_Cons group_bits mod_Suc del: group_chars.simps push_bit_Suc)
  next
    case 3
    then have "?gs = fst (push_groups b (Suc ?q) x) # gs" using h by (simp add: mod_Suc)
    with assms 3 bounds next_one_group(1) [of r "fst (push_groups b (Suc ?q) x)" gs] show ?thesis
      by (simp add: in_step_def group_chars_Cons group_bits mod_Suc del: group_chars.simps push_bit_Suc)
  next
    case 4
    then have "?gs = fst (push_groups b (Suc ?q) x) # gs" using h by (simp add: mod_Suc)
    with assms 4 bounds next_two_groups(3) [of r "snd (push_groups l ?q b)" "fst (push_groups b (Suc ?q) x)" gs] show ?thesis
      by (simp add: in_step_def group_chars_Cons group_bits mod_Suc del: group_chars.simps push_bit_Suc)
  next
    case 5
    with assms bounds next_one_group(2) [of r "snd (push_groups l ?q b)" ?gs] show ?thesis
      by (simp add: in_step_def group_chars_Cons group_bits mod_Suc del: group_chars.simps push_bit_Suc)
  qed
qed

lemma collect_in_step: "in_step r l bs \<Longrightarrow> base32_collect r = bs"
proof (induction bs arbitrary: r l)
  case Nil
  from in_step_Nil [OF Nil] show ?case
    by (subst base32_collect.simps) (auto split: prod.split option.split)
next
  case (Cons b bs)
  obtain r' where "base32_next r = (Some b, r')" "in_step r' b bs"
    using in_step_Cons [OF Cons.prems] by blast
  with Cons.IH show ?case by (subst base32_collect.simps) simp
qed

lemma collect_finalize:
  "base32_collect (reader_new (base32_finalize (foldl (\<lambda>w b. push_byte w b False)
      (writer_with_capacity n) bs))) = bs"
  by (rule collect_in_step [where l = 0])
    (simp add: in_step_def reader_new_def finalize_foldl writer_with_capacity_def)

subsection \<open>The codec as a sink and a source of bytes\<close>

definition base32_written :: "base32_writer \<Rightarrow> bytes" where
  "base32_written w = base32_collect (reader_new (base32_finalize w))"

definition writer_inv :: "base32_writer \<Rightarrow> bool" where
  "writer_inv w \<longleftrightarrow> (\<exists>n bs. w = foldl (\<lambda>w b. push_byte w b False) (writer_with_capacity n) bs)"

lemma foldl_push_byte_pos:
  "w_pos (foldl (\<lambda>w b. push_byte w b False) w bs) = w_pos w + length bs"
  by (induction bs arbitrary: w) (simp_all add: push_byte_False)

lemma writer_inv_new [simp]: "writer_inv (writer_with_capacity n)"
  unfolding writer_inv_def by (rule exI [of _ n], rule exI [of _ "[]"]) simp

lemma base32_written_new [simp]: "base32_written (writer_with_capacity n) = []"
  using collect_finalize [of n "[]"] by (simp add: base32_written_def)

interpretation b32w: byte_writer base32_write base32_written writer_inv
proof
  fix w bs assume "writer_inv w"
  then obtain n cs where w: "w = foldl (\<lambda>w b. push_byte w b False) (writer_with_capacity n) cs"
    by (auto simp: writer_inv_def)
  then have w': "fst (base32_write w bs)
      = foldl (\<lambda>w b. push_byte w b False) (writer_with_capacity n) (cs @ bs)"
    by (simp add: base32_write_def Let_def)
  show "base32_written (fst (base32_write w bs)) = base32_written w @ bs"
    unfolding base32_written_def w' by (simp add: w collect_finalize del: foldl_append)
  show "writer_inv (fst (base32_write w bs))"
    unfolding w' writer_inv_def by blast
  show "snd (base32_write w bs) = length bs"
    by (simp add: base32_write_def Let_def foldl_push_byte_pos)
qed

interpretation b32r: byte_iter base32_next base32_collect
proof
  show "fst (base32_next it) = None \<longleftrightarrow> base32_collect it = []" for it
    by (subst base32_collect.simps) (auto split: prod.split option.split)
  show "base32_next it = (Some b, it') \<Longrightarrow> base32_collect it = b # base32_collect it'" for it b it'
    by (subst base32_collect.simps) simp
qed

text \<open>
  C23: reading the text that the base-32 writer produced for any sequence of bytes yields exactly
  those bytes and then ends.
\<close>

theorem base32_roundtrip:
  "base32_collect (reader_new (base32_finalize (writer_from_bytes bs))) = bs"
  using b32w.written_write [of "writer_with_capacity (length bs)" bs]
  by (simp add: writer_from_bytes_def flip: base32_written_def)

end
