(* ===== verification/MailId.thy ===== *)
theory MailId
  imports Base32
begin

text \<open>
  JMAP identifiers, \<open>crates/types/src/id.rs\<close>: a 64-bit number that is a pair of 32-bit
  identifiers, and its base-32 text. The printer stops at a marker bit rather than at a count,
  so its loop is a partial function; it is proved to return for every identifier.
\<close>

datatype jmap_id = Id (id_raw: u64)

definition id_default :: jmap_id where
  "id_default = Id (- 1)"

fun from_str_loop :: "u64 \<Rightarrow> bytes \<Rightarrow> unit + jmap_id" where
  "from_str_loop i [] = Inr (Id i)"
| "from_str_loop i (ch # s) =
     (let d = BASE32_INVERSE ! unat ch
      in if d \<noteq> 0xFF then from_str_loop (push_bit 5 i OR ucast d) s else Inl ())"

definition id_from_str :: "bytes \<Rightarrow> unit + jmap_id" where
  "id_from_str s = from_str_loop 0 s"

definition id_singleton :: jmap_id where
  "id_singleton = Id 20080258862541"

definition STOP_BIT :: u64 where
  "STOP_BIT = push_bit 60 1"

partial_function (option) as_string_loop :: "u64 \<Rightarrow> bytes \<Rightarrow> bytes option" where
  "as_string_loop n buf =
     (if n \<noteq> STOP_BIT
      then as_string_loop (push_bit 5 n) (buf @ [BASE32_ALPHABET ! unat (drop_bit 59 n)])
      else Some buf)"

definition id_as_string :: "jmap_id \<Rightarrow> bytes option" where
  "id_as_string i =
     (let n = id_raw i
      in if n = 0 then Some (str_bytes ''a'')
         else let top = drop_bit 60 n; n1 = push_bit 4 n OR 1
              in if top = 0 then as_string_loop (push_bit (leading_zeros n1 div 5 * 5) n1) []
                 else as_string_loop n1 [BASE32_ALPHABET ! unat top])"

definition from_parts :: "u32 \<Rightarrow> u32 \<Rightarrow> jmap_id" where
  "from_parts prefix_id doc_id = Id (push_bit 32 (ucast prefix_id) OR ucast doc_id)"

definition id_document_id :: "jmap_id \<Rightarrow> u32" where
  "id_document_id i = ucast (id_raw i AND 0xFFFFFFFF)"

definition id_prefix_id :: "jmap_id \<Rightarrow> u32" where
  "id_prefix_id i = ucast (drop_bit 32 (id_raw i))"

definition id_is_singleton :: "jmap_id \<Rightarrow> bool" where
  "id_is_singleton i \<longleftrightarrow> id_raw i = 20080258862541"

definition id_is_valid :: "jmap_id \<Rightarrow> bool" where
  "id_is_valid i \<longleftrightarrow> id_raw i \<noteq> - 1"

definition id_from_u32 :: "u32 \<Rightarrow> jmap_id" where
  "id_from_u32 i = Id (ucast i)"

subsection \<open>The printing loop\<close>

text \<open>The base-32 digits of \<open>w\<close>, most significant first, in \<open>k\<close> places.\<close>

fun digits32 :: "nat \<Rightarrow> nat \<Rightarrow> nat list" where
  "digits32 0 w = []"
| "digits32 (Suc k) w = w div 32 ^ k # digits32 k (w mod 32 ^ k)"

abbreviation digit_chars :: "nat list \<Rightarrow> bytes" where
  "digit_chars ds \<equiv> map (\<lambda>d. BASE32_ALPHABET ! d) ds"

text \<open>
  The word of the loop when \<open>k\<close> digits of \<open>w\<close> are still to print: \<open>w\<close> at the top,
  followed by the marker bit.
\<close>

definition loop_word :: "nat \<Rightarrow> nat \<Rightarrow> nat" where
  "loop_word k w = w * 2 ^ (64 - 5 * k) + 2 ^ (60 - 5 * k)"

lemma loop_word_0: "unat n = loop_word 0 0 \<Longrightarrow> n = STOP_BIT"
  by (rule word_unat_eq_iff [THEN iffD2]) (simp add: loop_word_def STOP_BIT_def)

lemma loop_word_Suc:
  assumes k: "k < 12" and w: "w < 32 ^ Suc k" and n: "unat (n :: u64) = loop_word (Suc k) w"
  shows "n \<noteq> STOP_BIT" and "unat (drop_bit 59 n) = w div 32 ^ k"
    and "unat (push_bit 5 n) = loop_word k (w mod 32 ^ k)"
proof -
  define P :: nat where "P = 32 ^ k"
  define S :: nat where "S = 2 ^ (55 - 5 * k)"
  have P2: "P = 2 ^ (5 * k)" by (simp add: P_def power_mult)
  have S0: "0 < S" by (simp add: S_def)
  have e1: "(2::nat) ^ (64 - 5 * Suc k) = 16 * S"
  proof -
    have "64 - 5 * Suc k = 4 + (55 - 5 * k)" using k by simp
    then show ?thesis by (simp only: S_def power_add) simp
  qed
  have e2: "(2::nat) ^ (60 - 5 * Suc k) = S" using k by (simp add: S_def)
  have e3: "(2::nat) ^ (64 - 5 * k) = 512 * S"
  proof -
    have "64 - 5 * k = 9 + (55 - 5 * k)" using k by simp
    then show ?thesis by (simp only: S_def power_add) simp
  qed
  have e4: "(2::nat) ^ (60 - 5 * k) = 32 * S"
  proof -
    have "60 - 5 * k = 5 + (55 - 5 * k)" using k by simp
    then show ?thesis by (simp only: S_def power_add) simp
  qed
  have PS: "(2::nat) ^ 59 = P * (16 * S)"
  proof -
    have "(59::nat) = 5 * k + (4 + (55 - 5 * k))" using k by simp
    then have "(2::nat) ^ 59 = 2 ^ (5 * k) * (2 ^ 4 * 2 ^ (55 - 5 * k))"
      by (metis power_add)
    then show ?thesis by (simp add: P2 S_def)
  qed
  have n': "unat n = (16 * w + 1) * S"
    unfolding n loop_word_def e1 e2 by (simp add: algebra_simps)
  have "unat STOP_BIT = 2 * P * 16 * S"
    using PS by (simp add: STOP_BIT_def)
  moreover have "16 * w + 1 \<noteq> 2 * P * 16" by presburger
  then have "(16 * w + 1) * S \<noteq> 2 * P * 16 * S" using S0 by (simp only: mult_cancel2) simp
  ultimately show "n \<noteq> STOP_BIT" using n' by auto
  have PS': "(2::nat) ^ 59 = S * 16 * P" using PS by simp
  have "unat n div 2 ^ 59 = (unat n div S div 16) div P"
    by (simp only: PS' div_mult2_eq)
  also have "unat n div S div 16 = w" using S0 by (simp only: n') simp
  finally show "unat (drop_bit 59 n) = w div 32 ^ k" by (simp add: word_nat P_def)
  have m64: "(2::nat) ^ 64 = P * 16 * (32 * S)" using PS by simp
  have n5: "unat n * 2 ^ 5 = (16 * w + 1) * (32 * S)" by (simp add: n')
  have "(unat n * 2 ^ 5) mod 2 ^ 64 = ((16 * w + 1) * (32 * S)) mod (P * 16 * (32 * S))"
    by (simp only: m64 n5)
  also have "\<dots> = ((16 * w + 1) mod (P * 16)) * (32 * S)" by (rule mult_mod_left [symmetric])
  also have "(16 * w + 1) mod (P * 16) = 16 * (w mod P) + 1"
  proof -
    have "(16 * w + 1) div 16 = w" "(16 * w + 1) mod 16 = 1" by presburger+
    then show ?thesis by (simp only: mult.commute [of P] mod_mult2_eq)
  qed
  also have "(16 * (w mod P) + 1) * (32 * S) = loop_word k (w mod 32 ^ k)"
    by (simp add: loop_word_def e3 e4 flip: P_def)
  finally show "unat (push_bit 5 n) = loop_word k (w mod 32 ^ k)"
    by (simp only: unat_push_bit) simp
qed

lemma as_string_loop_digits:
  "k \<le> 12 \<Longrightarrow> w < 32 ^ k \<Longrightarrow> unat n = loop_word k w \<Longrightarrow>
     as_string_loop n buf = Some (buf @ digit_chars (digits32 k w))"
proof (induction k arbitrary: w n buf)
  case 0
  then have "n = STOP_BIT" using loop_word_0 by simp
  then show ?case by (subst as_string_loop.simps) simp
next
  case (Suc k)
  then have k: "k < 12" by simp
  note step = loop_word_Suc [OF k Suc.prems(2,3)]
  have "as_string_loop (push_bit 5 n) (buf @ [BASE32_ALPHABET ! (w div 32 ^ k)])
      = Some ((buf @ [BASE32_ALPHABET ! (w div 32 ^ k)]) @ digit_chars (digits32 k (w mod 32 ^ k)))"
    using k step(3) by (intro Suc.IH) simp_all
  then show ?case using step(1,2) by (subst as_string_loop.simps) simp
qed

subsection \<open>Parsing digits\<close>

lemma unat_snoc_digit:
  "d < 32 \<Longrightarrow> unat (push_bit 5 i OR ucast (of_nat d :: u8) :: u64) = (unat i * 32 + d) mod 2 ^ LENGTH(64)"
proof -
  assume d: "d < 32"
  have e: "(ucast (of_nat d :: u8) :: u64) = of_nat d"
    using d by (intro word_unat_eq_iff [THEN iffD2]) (simp add: word_nat unat_of_nat_small)
  have "push_bit 5 i OR of_nat d = push_bit 5 i + (of_nat d :: u64)"
  proof (rule disjunctive_add_eq_or [symmetric], rule bit_eqI)
    fix m
    have "unat (of_nat d :: u64) < 2 ^ 5" using d by (simp add: unat_of_nat_small)
    then have "bit (of_nat d :: u64) m \<Longrightarrow> m < 5" by (rule bit_small)
    then show "bit (push_bit 5 i AND (of_nat d :: u64)) m \<longleftrightarrow> bit 0 m"
      by (auto simp: bit_simps)
  qed
  then show ?thesis
    using d by (simp add: e unat_word_ariths word_nat unat_of_nat_small mod_add_left_eq)
qed

lemma from_str_loop_digits:
  "w < 32 ^ k \<Longrightarrow> from_str_loop i (digit_chars (digits32 k w) @ s)
     = from_str_loop (of_nat (unat i * 32 ^ k + w)) s"
proof (induction k arbitrary: w i)
  case 0
  then show ?case by simp
next
  case (Suc k)
  let ?d = "w div 32 ^ k"
  have d: "?d < 32" using Suc.prems by (simp add: less_mult_imp_div_less)
  let ?j = "push_bit 5 i OR ucast (of_nat ?d :: u8) :: u64"
  have inv: "BASE32_INVERSE ! unat (BASE32_ALPHABET ! ?d) = of_nat ?d"
    using alphabet_inverse_all d by (simp add: list_all_iff)
  have ne: "(of_nat ?d :: u8) \<noteq> 0xFF"
    using d group_not_max [of "of_nat ?d"] by (simp add: unat_of_nat_small)
  have "from_str_loop ?j (digit_chars (digits32 k (w mod 32 ^ k)) @ s)
      = from_str_loop (of_nat (unat ?j * 32 ^ k + w mod 32 ^ k)) s"
    by (rule Suc.IH) simp
  moreover have "(of_nat (unat ?j * 32 ^ k + w mod 32 ^ k) :: u64) = of_nat (unat i * 32 ^ Suc k + w)"
  proof -
    have "(of_nat (unat ?j) :: u64) = of_nat (unat i * 32 + ?d)"
      unfolding unat_snoc_digit [OF d] by (rule word_unat_eq_iff [THEN iffD2])
        (simp only: unat_of_nat mod_mod_trivial)
    then have "(of_nat (unat ?j * 32 ^ k + w mod 32 ^ k) :: u64)
        = of_nat ((unat i * 32 + ?d) * 32 ^ k + w mod 32 ^ k)"
      by (simp only: of_nat_add of_nat_mult)
    also have "(unat i * 32 + ?d) * 32 ^ k + w mod 32 ^ k = unat i * 32 ^ Suc k + w"
      by (simp add: algebra_simps)
    finally show ?thesis .
  qed
  ultimately show ?case by (simp add: inv ne)
qed

subsection \<open>Properties\<close>

lemma unat_push4_or1: "unat (push_bit 4 n OR 1 :: u64) = (unat n * 16) mod 2 ^ 64 + 1"
proof -
  have "push_bit 4 n OR 1 = push_bit 4 n + (1 :: u64)"
    by (rule disjunctive_add_eq_or [symmetric]) (rule bit_eqI, auto simp: bit_simps bit_1_iff)
  moreover have "(unat n * 16) mod 2 ^ 64 + 1 < 2 ^ 64"
  proof -
    have "(unat n * 16) mod 2 ^ 64 = (unat n mod 2 ^ 60) * 16"
      using mult_mod_left [of "unat n" "2 ^ 60" 16] by simp
    moreover have "unat n mod 2 ^ 60 < 2 ^ 60" by simp
    ultimately show ?thesis by simp
  qed
  ultimately show ?thesis by (simp add: unat_word_ariths word_nat)
qed

lemma id_as_string_zero: "id_as_string (Id 0) = Some (digit_chars (digits32 1 0))"
  by (simp add: id_as_string_def BASE32_ALPHABET_def str_bytes_def)

lemma id_as_string_top:
  assumes "drop_bit 60 n \<noteq> 0"
  shows "id_as_string (Id n) = Some (digit_chars (digits32 13 (unat n)))"
proof -
  let ?w = "unat n mod 2 ^ 60"
  have "unat (push_bit 4 n OR 1) = loop_word 12 ?w"
    using mult_mod_left [of "unat n" "2 ^ 60" 16] by (simp add: unat_push4_or1 loop_word_def)
  then have "as_string_loop (push_bit 4 n OR 1) buf = Some (buf @ digit_chars (digits32 12 ?w))" for buf
    by (intro as_string_loop_digits) simp_all
  moreover have "digits32 13 (unat n) = unat n div 2 ^ 60 # digits32 12 ?w"
  proof -
    have "(13::nat) = Suc 12" "(32::nat) ^ 12 = 2 ^ 60" by simp_all
    then show ?thesis by (simp only: digits32.simps)
  qed
  ultimately show ?thesis
    using assms by (auto simp: id_as_string_def word_nat)
qed

lemma id_as_string_low:
  assumes "drop_bit 60 n = 0" "n \<noteq> 0"
  shows "\<exists>k \<le> 12. unat n < 32 ^ k \<and> id_as_string (Id n) = Some (digit_chars (digits32 k (unat n)))"
proof -
  let ?w = "unat n" and ?n1 = "push_bit 4 n OR 1"
  have "unat n div 2 ^ 60 = 0" using assms(1) by (metis unat_0 unat_drop_bit)
  then have w: "?w < 2 ^ 60" by (simp add: div_eq_0_iff)
  then have n1: "unat ?n1 = 16 * ?w + 1" by (simp add: unat_push4_or1)
  define z where "z = leading_zeros ?n1 div 5"
  have bl: "bit_len (unat ?n1) \<le> 64" using bit_len_unat_le [of ?n1] by simp
  have z: "z \<le> 12" and zb: "bit_len (unat ?n1) \<le> 64 - 5 * z"
    using bl by (auto simp: z_def leading_zeros_def)
  define k where "k = 12 - z"
  have k: "64 - 5 * z = 4 + 5 * k" "64 - 5 * k = 4 + 5 * z" "60 - 5 * k = 5 * z"
    using z by (simp_all add: k_def)
  have n1_less: "16 * ?w + 1 < 2 ^ (64 - 5 * z)"
    using bit_len_bounds [of "unat ?n1"] n1 zb
    by (metis (no_types, lifting) less_le_trans one_le_numeral power_increasing)
  then have "16 * ?w < 16 * 2 ^ (5 * k)" unfolding k(1) by (simp add: power_add)
  then have wk: "?w < 32 ^ k" by (simp add: power_mult)
  have "(16 * ?w + 1) * 2 ^ (5 * z) < 2 ^ (64 - 5 * z) * 2 ^ (5 * z)"
    using n1_less by (rule mult_strict_right_mono) simp
  then have "(16 * ?w + 1) * 2 ^ (5 * z) < 2 ^ 64" using z by (simp flip: power_add)
  then have "(16 * ?w + 1) * 2 ^ (z * 5) mod 2 ^ LENGTH(64) = (16 * ?w + 1) * 2 ^ (5 * z)"
    by (simp add: mult.commute [of z])
  then have "unat (push_bit (z * 5) ?n1) = (16 * ?w + 1) * 2 ^ (5 * z)"
    by (simp only: unat_push_bit n1)
  also have "\<dots> = loop_word k ?w"
    unfolding loop_word_def k(2,3) by (simp add: power_add algebra_simps)
  finally have "as_string_loop (push_bit (z * 5) ?n1) [] = Some ([] @ digit_chars (digits32 k ?w))"
    using wk by (intro as_string_loop_digits) (simp_all add: k_def)
  then have "id_as_string (Id n) = Some (digit_chars (digits32 k ?w))"
    using assms by (simp add: id_as_string_def z_def)
  moreover have "k \<le> 12" by (simp add: k_def)
  ultimately show ?thesis using wk by blast
qed

lemma id_as_string_digits:
  "\<exists>k. unat n < 32 ^ k \<and> k \<le> 13 \<and> id_as_string (Id n) = Some (digit_chars (digits32 k (unat n)))"
proof (cases "n = 0")
  case True
  then show ?thesis using id_as_string_zero by (intro exI [of _ 1]) simp
next
  case False
  show ?thesis
  proof (cases "drop_bit 60 n = 0")
    case True
    then show ?thesis using id_as_string_low [OF True False] by fastforce
  next
    case False
    have "unat n < 32 ^ 13" using unat_u64_less [of n] by simp
    then show ?thesis using id_as_string_top [OF False] by blast
  qed
qed

text \<open>
  C22: printing an identifier always ends, the text has at most thirteen characters, and parsing
  the text gives the identifier back.
\<close>

theorem id_string_roundtrip:
  "\<exists>s. id_as_string i = Some s \<and> length s \<le> 13 \<and> id_from_str s = Inr i"
proof -
  obtain n where i: "i = Id n" by (cases i)
  obtain k where k: "unat n < 32 ^ k" "k \<le> 13"
      "id_as_string (Id n) = Some (digit_chars (digits32 k (unat n)))"
    using id_as_string_digits by blast
  have "length (digits32 k w) = k" for w by (induction k w rule: digits32.induct) auto
  moreover have "id_from_str (digit_chars (digits32 k (unat n))) = Inr (Id n)"
    using from_str_loop_digits [OF k(1), of 0 "[]"] by (simp add: id_from_str_def)
  ultimately show ?thesis using k i by auto
qed

text \<open>
  An identifier built from a prefix and a document identifier gives both back, and every
  identifier is built from its own two parts.
\<close>

theorem id_parts:
  "id_prefix_id (from_parts p d) = p \<and> id_document_id (from_parts p d) = d
   \<and> from_parts (id_prefix_id i) (id_document_id i) = i"
proof -
  have m: "bit (0xFFFFFFFF :: int) n \<longleftrightarrow> n < 32" for n
  proof -
    have "(0xFFFFFFFF :: int) = mask 32" by (simp add: mask_eq_exp_minus_1)
    moreover have "bit (mask 32 :: int) n \<longleftrightarrow> n < 32" by (subst bit_mask_iff) simp
    ultimately show ?thesis by (simp only:)
  qed
  have "id_prefix_id (from_parts p d) = p"
    by (rule bit_word_eqI)
      (auto simp: id_prefix_id_def from_parts_def bit_simps dest: bit_imp_le_length)
  moreover have "id_document_id (from_parts p d) = d"
    by (rule bit_word_eqI) (auto simp: id_document_id_def from_parts_def bit_simps m)
  moreover have "id_raw (from_parts (id_prefix_id i) (id_document_id i)) = id_raw i"
    by (rule bit_word_eqI)
      (auto simp: id_prefix_id_def id_document_id_def from_parts_def bit_simps m dest: bit_imp_le_length)
  ultimately show ?thesis by (simp add: jmap_id.expand)
qed

end
