(* ===== verification/BlobId.thy ===== *)
theory BlobId
  imports Base32
begin

text \<open>
  Blob identifiers (\<open>crates/types/src/blob.rs\<close>): a content hash, the account and the use of
  the blob, and optionally a section of it, serialised over any byte sink and parsed from any byte
  source; their text form goes through the base-32 writer and reader. The generic code is proved
  once inside the locales \<open>byte_writer\<close> and \<open>byte_iter\<close>.
\<close>

subsection \<open>Data\<close>

definition B_LINKED :: u8 where "B_LINKED = 0x10"
definition B_RESERVED :: u8 where "B_RESERVED = 0x20"
definition BLOB_HASH_LEN :: nat where "BLOB_HASH_LEN = 32"

datatype blob_class =
    Reserved u32 u64
  | Linked u32 u8 u32

record blob_section =
  bs_offset_start :: u64
  bs_size :: u64
  bs_encoding :: u8

record blob_id =
  bi_hash :: bytes
  bi_class :: blob_class
  bi_section :: "blob_section option"

fun blob_account_id :: "blob_class \<Rightarrow> u32" where
  "blob_account_id (Reserved account_id _) = account_id"
| "blob_account_id (Linked account_id _ _) = account_id"

text \<open>The current time is an argument.\<close>

fun blob_is_valid :: "u64 \<Rightarrow> blob_class \<Rightarrow> bool" where
  "blob_is_valid now (Reserved _ expires) = (expires > now)"
| "blob_is_valid now (Linked _ _ _) = True"

definition blob_new :: "bytes \<Rightarrow> blob_class \<Rightarrow> blob_id" where
  "blob_new hash cls = \<lparr>bi_hash = hash, bi_class = cls, bi_section = None\<rparr>"

definition blob_new_section :: "bytes \<Rightarrow> blob_class \<Rightarrow> u64 \<Rightarrow> u64 \<Rightarrow> u8 \<Rightarrow> blob_id" where
  "blob_new_section hash cls offset_start offset_end encoding =
     \<lparr>bi_hash = hash, bi_class = cls,
      bi_section = Some \<lparr>bs_offset_start = offset_start, bs_size = offset_end - offset_start,
                         bs_encoding = encoding\<rparr>\<rparr>"

definition with_section_size :: "blob_id \<Rightarrow> u64 \<Rightarrow> blob_id" where
  "with_section_size b n =
     b\<lparr>bi_section := Some ((case bi_section b of
          Some s \<Rightarrow> s
        | None \<Rightarrow> \<lparr>bs_offset_start = 0, bs_size = 0, bs_encoding = 0\<rparr>)\<lparr>bs_size := n\<rparr>)\<rparr>"

definition start_offset :: "blob_id \<Rightarrow> u64" where
  "start_offset b = (case bi_section b of Some s \<Rightarrow> bs_offset_start s | None \<Rightarrow> 0)"

subsection \<open>Serialisation\<close>

definition blob_marker :: "blob_id \<Rightarrow> u8" where
  "blob_marker b =
     (case bi_section b of Some s \<Rightarrow> bs_encoding s + 1 | None \<Rightarrow> 0)
     OR (case bi_class b of Linked _ _ _ \<Rightarrow> B_LINKED | Reserved _ _ \<Rightarrow> B_RESERVED)"

definition serialize_as :: "('w \<Rightarrow> bytes \<Rightarrow> 'w \<times> nat) \<Rightarrow> blob_id \<Rightarrow> 'w \<Rightarrow> 'w" where
  "serialize_as wr b w =
     (let w = fst (wr w [blob_marker b]);
          w = fst (wr w (bi_hash b));
          w = (case bi_class b of
                 Reserved account_id expires \<Rightarrow>
                   let w = fst (to_leb128_writer wr account_id w 0)
                   in fst (to_leb128_writer wr expires w 0)
               | Linked account_id collection document_id \<Rightarrow>
                   let w = fst (to_leb128_writer wr account_id w 0);
                       w = fst (wr w [collection])
                   in fst (to_leb128_writer wr document_id w 0))
      in case bi_section b of
           Some s \<Rightarrow>
             let w = fst (to_leb128_writer wr (bs_offset_start s) w 0)
             in fst (to_leb128_writer wr (bs_size s) w 0)
         | None \<Rightarrow> w)"

text \<open>
  The \<open>?\<close> operator on the items of an iterator: stop with \<open>None\<close>, leaving the iterator
  where it is, or go on with the value.
\<close>

definition it_bind :: "('i \<Rightarrow> 'a option \<times> 'i) \<Rightarrow> ('a \<Rightarrow> 'i \<Rightarrow> 'b option \<times> 'i) \<Rightarrow> 'i \<Rightarrow> 'b option \<times> 'i" where
  "it_bind m f it = (case m it of (None, it') \<Rightarrow> (None, it') | (Some x, it') \<Rightarrow> f x it')"

fun next_n :: "('i \<Rightarrow> u8 option \<times> 'i) \<Rightarrow> nat \<Rightarrow> 'i \<Rightarrow> bytes option \<times> 'i" where
  "next_n nxt 0 it = (Some [], it)"
| "next_n nxt (Suc n) it =
     it_bind nxt (\<lambda>b. it_bind (next_n nxt n) (\<lambda>bs it'. (Some (b # bs), it'))) it"

definition next_leb128 :: "('i \<Rightarrow> u8 option \<times> 'i) \<Rightarrow> nat list \<Rightarrow> 'i \<Rightarrow> 'a::len word option \<times> 'i" where
  "next_leb128 nxt shifts it = from_leb128_it nxt shifts it 0"

definition next_blob_class ::
  "('i \<Rightarrow> u8 option \<times> 'i) \<Rightarrow> u8 \<Rightarrow> u32 \<Rightarrow> 'i \<Rightarrow> blob_class option \<times> 'i" where
  "next_blob_class nxt marker account_id =
     (if marker AND B_LINKED \<noteq> 0
      then it_bind nxt (\<lambda>collection. it_bind (next_leb128 nxt shifts_u32)
             (\<lambda>document_id it. (Some (Linked account_id collection document_id), it)))
      else it_bind (next_leb128 nxt shifts_u64) (\<lambda>expires it. (Some (Reserved account_id expires), it)))"

definition next_blob_section ::
  "('i \<Rightarrow> u8 option \<times> 'i) \<Rightarrow> u8 \<Rightarrow> 'i \<Rightarrow> blob_section option option \<times> 'i" where
  "next_blob_section nxt marker =
     (let encoding = marker AND 0x0F
      in if encoding \<noteq> 0
         then it_bind (next_leb128 nxt shifts_u64) (\<lambda>offset_start.
              it_bind (next_leb128 nxt shifts_u64) (\<lambda>sz it.
                (Some (Some \<lparr>bs_offset_start = offset_start, bs_size = sz,
                             bs_encoding = encoding - 1\<rparr>), it)))
         else (\<lambda>it. (Some None, it)))"

definition blob_from_iter :: "('i \<Rightarrow> u8 option \<times> 'i) \<Rightarrow> 'i \<Rightarrow> blob_id option \<times> 'i" where
  "blob_from_iter nxt =
     it_bind nxt (\<lambda>marker.
     it_bind (next_n nxt BLOB_HASH_LEN) (\<lambda>hash.
     it_bind (next_leb128 nxt shifts_u32) (\<lambda>account_id.
     it_bind (next_blob_class nxt marker account_id) (\<lambda>cls.
     it_bind (next_blob_section nxt marker) (\<lambda>section it.
       (Some \<lparr>bi_hash = hash, bi_class = cls, bi_section = section\<rparr>, it))))))"

definition blob_from_base32 :: "bytes \<Rightarrow> blob_id option" where
  "blob_from_base32 value = fst (blob_from_iter base32_next (reader_new value))"

definition blob_from_str :: "bytes \<Rightarrow> unit + blob_id" where
  "blob_from_str s = (case blob_from_base32 s of Some b \<Rightarrow> Inr b | None \<Rightarrow> Inl ())"

text \<open>The capacity that \<open>fmt\<close> asks for does not affect the text.\<close>

definition blob_to_string :: "nat \<Rightarrow> blob_id \<Rightarrow> bytes" where
  "blob_to_string size_of_blob_id b =
     base32_finalize (serialize_as base32_write b (writer_with_capacity (size_of_blob_id * 2)))"

subsection \<open>The byte format\<close>

definition blob_bytes :: "blob_id \<Rightarrow> bytes" where
  "blob_bytes b =
     blob_marker b # bi_hash b
     @ (case bi_class b of
          Reserved account_id expires \<Rightarrow> to_leb128_bytes account_id @ to_leb128_bytes expires
        | Linked account_id collection document_id \<Rightarrow>
            to_leb128_bytes account_id @ collection # to_leb128_bytes document_id)
     @ (case bi_section b of
          Some s \<Rightarrow> to_leb128_bytes (bs_offset_start s) @ to_leb128_bytes (bs_size s)
        | None \<Rightarrow> [])"

definition blob_wf :: "blob_id \<Rightarrow> bool" where
  "blob_wf b \<longleftrightarrow> length (bi_hash b) = BLOB_HASH_LEN
     \<and> (case bi_section b of Some s \<Rightarrow> unat (bs_encoding s) < 15 | None \<Rightarrow> True)"

context byte_writer
begin

lemma leb128_written:
  assumes "winv w"
  shows "winv (fst (to_leb128_writer wr v w n))"
    and "written (fst (to_leb128_writer wr v w n)) = written w @ to_leb128_bytes v"
  using to_leb128_writer_correct [OF assms, of v n] by auto

lemma serialize_as_written:
  "winv w \<Longrightarrow> written (serialize_as wr b w) = written w @ blob_bytes b"
  by (cases "bi_class b"; cases "bi_section b")
    (simp_all add: serialize_as_def blob_bytes_def Let_def leb128_written written_write winv_write)

end

lemma encoding_marker:
  assumes "unat (e :: u8) < 15"
  shows "((e + 1) OR B_LINKED) AND 0x0F = e + 1 \<and> ((e + 1) OR B_RESERVED) AND 0x0F = e + 1
    \<and> ((e + 1) OR B_LINKED) AND B_LINKED \<noteq> 0 \<and> ((e + 1) OR B_RESERVED) AND B_LINKED = 0 \<and> e + 1 \<noteq> 0"
  by (rule small_word_cases [OF _ assms]) code_simp

lemma blob_marker_fields:
  assumes "blob_wf b"
  shows "blob_marker b AND B_LINKED \<noteq> 0 \<longleftrightarrow> (\<exists>a c d. bi_class b = Linked a c d)"
    and "blob_marker b AND 0x0F = (case bi_section b of Some s \<Rightarrow> bs_encoding s + 1 | None \<Rightarrow> 0)"
  using assms encoding_marker
  by (auto simp: blob_wf_def blob_marker_def B_LINKED_def B_RESERVED_def split: option.splits blob_class.splits)

context byte_iter
begin

lemma next_n_append:
  "remaining it = hash @ bs \<Longrightarrow> \<exists>it'. next_n nxt (length hash) it = (Some hash, it') \<and> remaining it' = bs"
proof (induction hash arbitrary: it)
  case (Cons b hash)
  obtain it1 where it1: "nxt it = (Some b, it1)" "remaining it1 = hash @ bs"
    using next_Cons Cons.prems by (metis append_Cons)
  from Cons.IH [OF it1(2)] it1(1) show ?case by (auto simp: it_bind_def)
qed simp

lemma next_leb128_append:
  assumes "8 \<le> LENGTH('a)" "LENGTH('a) \<le> 7 * k" "shifts = sevens 0 k"
    and "remaining it = to_leb128_bytes (v :: 'a::len word) @ rest"
  shows "\<exists>it'. next_leb128 nxt shifts it = (Some v, it') \<and> remaining it' = rest"
  using from_leb128_it_correct [OF assms(1,2,4)] assms(3) by (auto simp: next_leb128_def)

lemma next_u32:
  "remaining it = to_leb128_bytes (v :: u32) @ rest \<Longrightarrow>
     \<exists>it'. next_leb128 nxt shifts_u32 it = (Some v, it') \<and> remaining it' = rest"
  by (rule next_leb128_append [OF _ _ shifts_sevens(3)]) simp_all

lemma next_u64:
  "remaining it = to_leb128_bytes (v :: u64) @ rest \<Longrightarrow>
     \<exists>it'. next_leb128 nxt shifts_u64 it = (Some v, it') \<and> remaining it' = rest"
  by (rule next_leb128_append [OF _ _ shifts_sevens(4)]) simp_all

lemma next_class:
  assumes "remaining it = (case cls of
      Reserved account_id expires \<Rightarrow> to_leb128_bytes expires
    | Linked account_id collection document_id \<Rightarrow> collection # to_leb128_bytes document_id) @ rest"
    and "marker AND B_LINKED \<noteq> 0 \<longleftrightarrow> (\<exists>a c d. cls = Linked a c d)"
  shows "\<exists>it'. next_blob_class nxt marker (blob_account_id cls) it = (Some cls, it') \<and> remaining it' = rest"
proof (cases cls)
  case (Reserved account_id expires)
  then show ?thesis
    using next_u64 [of it expires rest] assms by (auto simp: next_blob_class_def it_bind_def)
next
  case (Linked account_id collection document_id)
  then obtain it1 where "nxt it = (Some collection, it1)" "remaining it1 = to_leb128_bytes document_id @ rest"
    using next_Cons assms(1) by fastforce
  then show ?thesis
    using next_u32 [of it1 document_id rest] assms(2) Linked by (auto simp: next_blob_class_def it_bind_def)
qed

lemma next_section:
  assumes "remaining it = (case sect of
      Some s \<Rightarrow> to_leb128_bytes (bs_offset_start s) @ to_leb128_bytes (bs_size s) | None \<Rightarrow> []) @ rest"
    and "marker AND 0x0F = (case sect of Some s \<Rightarrow> bs_encoding s + 1 | None \<Rightarrow> 0)"
    and "\<forall>s. sect = Some s \<longrightarrow> bs_encoding s + 1 \<noteq> 0"
  shows "\<exists>it'. next_blob_section nxt marker it = (Some sect, it') \<and> remaining it' = rest"
proof (cases sect)
  case None
  then show ?thesis using assms(1,2) by (simp add: next_blob_section_def)
next
  case (Some s)
  obtain it1 where e1: "next_leb128 nxt shifts_u64 it = (Some (bs_offset_start s), it1)"
      and "remaining it1 = to_leb128_bytes (bs_size s) @ rest"
    using next_u64 assms(1) Some by fastforce
  then obtain it2 where "next_leb128 nxt shifts_u64 it1 = (Some (bs_size s), it2)" "remaining it2 = rest"
    using next_u64 by blast
  then show ?thesis using e1 assms(2,3) Some by (simp add: next_blob_section_def it_bind_def)
qed

lemma blob_from_iter_bytes:
  assumes wf: "blob_wf b" and it: "remaining it = blob_bytes b @ rest"
  shows "\<exists>it'. blob_from_iter nxt it = (Some b, it') \<and> remaining it' = rest"
proof -
  let ?cls = "case bi_class b of
      Reserved account_id expires \<Rightarrow> to_leb128_bytes expires
    | Linked account_id collection document_id \<Rightarrow> collection # to_leb128_bytes document_id"
  let ?section = "case bi_section b of
      Some s \<Rightarrow> to_leb128_bytes (bs_offset_start s) @ to_leb128_bytes (bs_size s) | None \<Rightarrow> []"
  note fields = blob_marker_fields [OF wf]
  have "remaining it = blob_marker b # bi_hash b
      @ to_leb128_bytes (blob_account_id (bi_class b)) @ ?cls @ ?section @ rest"
    using it by (simp add: blob_bytes_def split: blob_class.splits)
  then obtain it1 where e1: "nxt it = (Some (blob_marker b), it1)" and
      r1: "remaining it1 = bi_hash b @ to_leb128_bytes (blob_account_id (bi_class b)) @ ?cls @ ?section @ rest"
    using next_Cons by blast
  have len: "length (bi_hash b) = BLOB_HASH_LEN" using wf by (simp add: blob_wf_def)
  obtain it2 where e2: "next_n nxt BLOB_HASH_LEN it1 = (Some (bi_hash b), it2)" and
      "remaining it2 = to_leb128_bytes (blob_account_id (bi_class b)) @ ?cls @ ?section @ rest"
    using next_n_append [OF r1] unfolding len by blast
  then obtain it3 where e3: "next_leb128 nxt shifts_u32 it2 = (Some (blob_account_id (bi_class b)), it3)" and
      r3: "remaining it3 = ?cls @ ?section @ rest"
    using next_u32 by blast
  obtain it4 where e4: "next_blob_class nxt (blob_marker b) (blob_account_id (bi_class b)) it3
      = (Some (bi_class b), it4)" and r4: "remaining it4 = ?section @ rest"
    using next_class [OF r3 fields(1)] by blast
  have "\<forall>s. bi_section b = Some s \<longrightarrow> bs_encoding s + 1 \<noteq> 0"
    using wf encoding_marker by (auto simp: blob_wf_def)
  then obtain it5 where e5: "next_blob_section nxt (blob_marker b) it4 = (Some (bi_section b), it5)"
      and r5: "remaining it5 = rest"
    using next_section [OF r4 fields(2)] by blast
  show ?thesis using e1 e2 e3 e4 e5 r5 by (simp add: blob_from_iter_def it_bind_def)
qed

end

subsection \<open>Properties\<close>

text \<open>
  C21: the text of a blob identifier with a 32-byte hash and a section encoding below 15 parses
  back to the identifier; so does its serialisation over any other pair of a byte vector and a slice
  iterator, whatever bytes follow.
\<close>

theorem blob_id_roundtrip:
  assumes "blob_wf b"
  shows "blob_from_str (blob_to_string n b) = Inr b
    \<and> blob_from_iter slice_next (serialize_as vec_write b [] @ rest) = (Some b, rest)"
proof
  have "base32_collect (reader_new (blob_to_string n b)) = blob_bytes b"
    using b32w.serialize_as_written [OF writer_inv_new, of b "n * 2"]
    by (simp add: blob_to_string_def flip: base32_written_def)
  then show "blob_from_str (blob_to_string n b) = Inr b"
    using b32r.blob_from_iter_bytes [OF assms, of "reader_new (blob_to_string n b)" "[]"]
    by (auto simp: blob_from_str_def blob_from_base32_def)
  show "blob_from_iter slice_next (serialize_as vec_write b [] @ rest) = (Some b, rest)"
    using slice_iter.blob_from_iter_bytes [OF assms, of "blob_bytes b @ rest" rest]
      vec.serialize_as_written [where w = "[]" and b = b] by auto
qed

theorem blob_id_roundtrip_witness:
  "blob_from_str (blob_to_string 64 (blob_new_section (replicate 32 7) (Linked 3 0 9) 10 25 2))
     = Inr (blob_new_section (replicate 32 7) (Linked 3 0 9) 10 25 2)"
  using blob_id_roundtrip [of "blob_new_section (replicate 32 7) (Linked 3 0 9) 10 25 2" 64 "[]"]
  by (simp add: blob_wf_def blob_new_section_def BLOB_HASH_LEN_def)



end
