(* ===== verification/Bitmap.thy ===== *)
theory Bitmap
  imports Prelude
begin

text \<open>
  The 64-bit item sets of \<open>crates/utils/src/map/bitmap.rs\<close>. The trait \<open>BitmapItem\<close>
  is the locale \<open>bitmap_item\<close>: an item type provides its conversions to and from \<open>u64\<close>,
  the number of its valid items and its validity test, and the operations take the ones they use as
  arguments. Inside the locale the operations are shown to act on the set of items of a bitmap; the
  theories of the item types interpret it. The model is of release builds: \<open>debug_assert!\<close>
  is absent and a shift amount counts modulo the width.
\<close>

subsection \<open>Operations\<close>

datatype 'a bitmap = Bitmap (bits: u64)

definition one_shl :: "nat \<Rightarrow> 'a::len word" where
  "one_shl n = push_bit (n mod LENGTH('a)) 1"

definition bm_new :: "'a bitmap" where
  "bm_new = Bitmap 0"

definition bm_all :: "u64 \<Rightarrow> 'a bitmap" where
  "bm_all max_u64 = Bitmap (drop_bit (unat (64 - max_u64) mod 64) (- 1))"

definition bm_union :: "'a bitmap \<Rightarrow> 'a bitmap \<Rightarrow> 'a bitmap" where
  "bm_union b items = Bitmap (bits b OR bits items)"

definition bm_union_raw :: "'a bitmap \<Rightarrow> u64 \<Rightarrow> 'a bitmap" where
  "bm_union_raw b items = Bitmap (bits b OR items)"

definition bm_intersection :: "'a bitmap \<Rightarrow> 'a bitmap \<Rightarrow> 'a bitmap" where
  "bm_intersection b items = Bitmap (bits b AND bits items)"

definition bm_insert :: "('a \<Rightarrow> u64) \<Rightarrow> 'a bitmap \<Rightarrow> 'a \<Rightarrow> 'a bitmap" where
  "bm_insert to_u64 b item = Bitmap (bits b OR one_shl (unat (to_u64 item)))"

definition bm_insert_many :: "('a \<Rightarrow> u64) \<Rightarrow> 'a bitmap \<Rightarrow> 'a list \<Rightarrow> 'a bitmap" where
  "bm_insert_many to_u64 b items = foldl (bm_insert to_u64) b items"

definition bm_with_item :: "('a \<Rightarrow> u64) \<Rightarrow> 'a bitmap \<Rightarrow> 'a \<Rightarrow> 'a bitmap" where
  "bm_with_item to_u64 b item = bm_insert to_u64 b item"

definition bm_remove :: "('a \<Rightarrow> u64) \<Rightarrow> 'a bitmap \<Rightarrow> 'a \<Rightarrow> 'a bitmap" where
  "bm_remove to_u64 b item = Bitmap (bits b XOR one_shl (unat (to_u64 item)))"

definition bm_pop :: "(u64 \<Rightarrow> 'a) \<Rightarrow> 'a bitmap \<Rightarrow> 'a option \<times> 'a bitmap" where
  "bm_pop from_u64 b =
     (if bits b \<noteq> 0
      then let item = 63 - leading_zeros (bits b)
           in (Some (from_u64 (of_nat item)), Bitmap (bits b XOR one_shl item))
      else (None, b))"

definition bm_contains :: "('a \<Rightarrow> u64) \<Rightarrow> 'a bitmap \<Rightarrow> 'a \<Rightarrow> bool" where
  "bm_contains to_u64 b item \<longleftrightarrow> bits b AND one_shl (unat (to_u64 item)) \<noteq> 0"

fun bm_contains_any :: "('a \<Rightarrow> u64) \<Rightarrow> 'a bitmap \<Rightarrow> 'a list \<Rightarrow> bool" where
  "bm_contains_any to_u64 b [] = False"
| "bm_contains_any to_u64 b (item # items) =
     (if bits b AND one_shl (unat (to_u64 item)) \<noteq> 0 then True
      else bm_contains_any to_u64 b items)"

definition bm_is_empty :: "'a bitmap \<Rightarrow> bool" where
  "bm_is_empty b \<longleftrightarrow> bits b = 0"

fun contains_all_loop :: "('a \<Rightarrow> u64) \<Rightarrow> 'a bitmap \<Rightarrow> 'a list \<Rightarrow> bool" where
  "contains_all_loop to_u64 b [] = True"
| "contains_all_loop to_u64 b (item # items) =
     (if bits b AND one_shl (unat (to_u64 item)) = 0 then False
      else contains_all_loop to_u64 b items)"

definition bm_contains_all :: "('a \<Rightarrow> u64) \<Rightarrow> 'a bitmap \<Rightarrow> 'a list \<Rightarrow> bool" where
  "bm_contains_all to_u64 b items =
     (if \<not> bm_is_empty b then contains_all_loop to_u64 b items else False)"

text \<open>\<open>clear\<close> empties the receiver and returns its former content.\<close>

definition bm_clear :: "'a bitmap \<Rightarrow> 'a bitmap \<times> 'a bitmap" where
  "bm_clear b = (Bitmap (bits b), Bitmap 0)"

definition bit_push :: "'a::len word \<Rightarrow> u8 \<Rightarrow> 'a word" where
  "bit_push w item = w OR one_shl (unat item)"

definition bit_pop :: "'a::len word \<Rightarrow> u8 option \<times> 'a word" where
  "bit_pop w =
     (if w \<noteq> 0
      then let item = LENGTH('a) - 1 - leading_zeros w
           in (Some (of_nat item), w XOR one_shl item)
      else (None, w))"

definition bm_next :: "(u64 \<Rightarrow> 'a) \<Rightarrow> 'a bitmap \<Rightarrow> 'a option \<times> 'a bitmap" where
  "bm_next from_u64 b =
     (if bits b \<noteq> 0
      then let item = 63 - leading_zeros (bits b)
           in (Some (from_u64 (of_nat item)), Bitmap (bits b XOR one_shl item))
      else (None, b))"

definition bm_from_vec :: "('a \<Rightarrow> u64) \<Rightarrow> ('a \<Rightarrow> bool) \<Rightarrow> 'a list \<Rightarrow> 'a bitmap" where
  "bm_from_vec to_u64 is_valid values =
     foldl (\<lambda>b value. if is_valid value then bm_insert to_u64 b value else b) bm_new values"

definition bm_from_item :: "('a \<Rightarrow> u64) \<Rightarrow> 'a \<Rightarrow> 'a bitmap" where
  "bm_from_item to_u64 value = bm_insert to_u64 bm_new value"

subsection \<open>The highest bit\<close>

lemma bit_one_shl [word_bits]:
  "bit (one_shl n :: 'a::len word) m \<longleftrightarrow> m = n mod LENGTH('a)"
  by (auto simp: one_shl_def bit_simps)

lemma and_one_shl: "w AND one_shl n \<noteq> 0 \<longleftrightarrow> bit (w :: 'a::len word) (n mod LENGTH('a))"
  by (simp add: one_shl_def bit_iff_and_push_bit_not_eq_0)

lemma top_bit:
  assumes "(w :: 'a::len word) \<noteq> 0"
  shows "LENGTH('a) - 1 - leading_zeros w < LENGTH('a)"
    and "bit w (LENGTH('a) - 1 - leading_zeros w)"
    and "bit w m \<Longrightarrow> m \<le> LENGTH('a) - 1 - leading_zeros w"
proof -
  let ?l = "bit_len (unat w)"
  have w: "0 < unat w" using assms by (simp add: unat_gt_0)
  then have l: "0 < ?l" "?l \<le> LENGTH('a)" using bit_len_unat_le by auto
  then have i: "LENGTH('a) - 1 - leading_zeros w = ?l - 1" by (simp add: leading_zeros_def)
  show "LENGTH('a) - 1 - leading_zeros w < LENGTH('a)" using l i by simp
  have lo: "2 ^ (?l - 1) \<le> unat w" and up: "unat w < 2 ^ ?l" using bit_len_bounds w by blast+
  show "m \<le> LENGTH('a) - 1 - leading_zeros w" if "bit w m"
    using bit_small [OF up that] i by simp
  show "bit w (LENGTH('a) - 1 - leading_zeros w)"
  proof (rule ccontr)
    assume "\<not> bit w (LENGTH('a) - 1 - leading_zeros w)"
    then have "m < ?l - 1" if "bit w m" for m
      using bit_small [OF up that] that i by (cases "m = ?l - 1") auto
    then have "unat w < 2 ^ (?l - 1)" by (rule unat_less_if_bits)
    then show False using lo by simp
  qed
qed

lemma xor_one_shl_fewer:
  assumes "bit (w :: 'a::len word) (n mod LENGTH('a))"
  shows "card {m. bit (w XOR one_shl n) m} < card {m. bit w m}"
proof (rule psubset_card_mono)
  have "{m. bit w m} \<subseteq> {..<LENGTH('a)}" by (auto dest: bit_imp_le_length)
  then show "finite {m. bit w m}" by (rule finite_subset) simp
  show "{m. bit (w XOR one_shl n) m} \<subset> {m. bit w m}"
    using assms by (auto simp: bit_xor_iff word_bits)
qed

lemma bm_next_fewer:
  "bm_next from_u64 b = (Some x, b') \<Longrightarrow> card {m. bit (bits b') m} < card {m. bit (bits b) m}"
proof -
  assume n: "bm_next from_u64 b = (Some x, b')"
  then have "bits b \<noteq> 0" by (auto simp: bm_next_def split: if_splits)
  then show ?thesis
    using n top_bit [of "bits b"]
    by (auto simp: bm_next_def Let_def intro!: xor_one_shl_fewer)
qed

text \<open>Collecting the iterator into a vector.\<close>

function bm_to_vec :: "(u64 \<Rightarrow> 'a) \<Rightarrow> 'a bitmap \<Rightarrow> 'a list" where
  "bm_to_vec from_u64 b =
     (case bm_next from_u64 b of
        (None, _) \<Rightarrow> []
      | (Some item, b') \<Rightarrow> item # bm_to_vec from_u64 b')"
  by pat_completeness auto
termination
  by (relation "measure (\<lambda>(_, b). card {m. bit (bits b) m})") (auto dest: bm_next_fewer [OF sym])

declare bm_to_vec.simps [simp del]

subsection \<open>Bitmaps as sets of items\<close>

definition bm_items :: "('a \<Rightarrow> u64) \<Rightarrow> ('a \<Rightarrow> bool) \<Rightarrow> 'a bitmap \<Rightarrow> 'a set" where
  "bm_items to_u64 is_valid b = {x. is_valid x \<and> bm_contains to_u64 b x}"

definition bm_inv :: "u64 \<Rightarrow> 'a bitmap \<Rightarrow> bool" where
  "bm_inv max_u64 b \<longleftrightarrow> unat (bits b) < 2 ^ unat max_u64"

locale bitmap_item =
  fixes to_u64 :: "'a \<Rightarrow> u64"
    and from_u64 :: "u64 \<Rightarrow> 'a"
    and max_u64 :: u64
    and is_valid :: "'a \<Rightarrow> bool"
  assumes max_pos: "0 < unat max_u64"
    and max_le: "unat max_u64 \<le> 64"
    and to_less: "is_valid x \<Longrightarrow> unat (to_u64 x) < unat max_u64"
    and from_to: "is_valid x \<Longrightarrow> from_u64 (to_u64 x) = x"
    and from_valid: "unat n < unat max_u64 \<Longrightarrow> is_valid (from_u64 n)"
    and to_from: "unat n < unat max_u64 \<Longrightarrow> to_u64 (from_u64 n) = n"
begin

abbreviation items :: "'a bitmap \<Rightarrow> 'a set" where
  "items \<equiv> bm_items to_u64 is_valid"

lemma to_less_64 [simp]: "is_valid x \<Longrightarrow> unat (to_u64 x) mod 64 = unat (to_u64 x)"
  using to_less [of x] max_le by simp

lemma to_inj: "is_valid x \<Longrightarrow> is_valid y \<Longrightarrow> unat (to_u64 x) = unat (to_u64 y) \<longleftrightarrow> x = y"
  using from_to by (metis word_unat_eq_iff)

lemma contains_iff: "is_valid x \<Longrightarrow> bm_contains to_u64 b x \<longleftrightarrow> bit (bits b) (unat (to_u64 x))"
  by (simp add: bm_contains_def and_one_shl)

lemma mem_items: "x \<in> items b \<longleftrightarrow> is_valid x \<and> bit (bits b) (unat (to_u64 x))"
  using contains_iff by (auto simp: bm_items_def)

lemma items_of_bit: "n < unat max_u64 \<Longrightarrow> bit (bits b) n \<longleftrightarrow> from_u64 (of_nat n) \<in> items b"
proof -
  assume n: "n < unat max_u64"
  then have "unat (of_nat n :: u64) = n" using max_le by (intro unat_of_nat_small) simp
  then show ?thesis using n from_valid [of "of_nat n"] to_from [of "of_nat n"] by (simp add: mem_items)
qed

lemma inv_bits: "bm_inv max_u64 b \<longleftrightarrow> (\<forall>n. bit (bits b) n \<longrightarrow> n < unat max_u64)"
  unfolding bm_inv_def using bit_small unat_less_if_bits by blast

lemma items_inject:
  assumes "bm_inv max_u64 a" "bm_inv max_u64 b" "items a = items b"
  shows "a = b"
proof -
  have "bit (bits a) n = bit (bits b) n" for n
  proof (cases "n < unat max_u64")
    case True
    then show ?thesis using assms(3) by (simp only: items_of_bit)
  next
    case False
    then show ?thesis using assms(1,2) unfolding inv_bits by blast
  qed
  then show ?thesis by (simp add: bitmap.expand bit_eq_iff)
qed

lemma items_new [simp]: "items bm_new = {}" and inv_new [simp]: "bm_inv max_u64 bm_new"
  by (auto simp: mem_items bm_new_def bm_inv_def)

lemma items_insert [simp]: "is_valid x \<Longrightarrow> items (bm_insert to_u64 b x) = insert x (items b)"
  using to_inj by (auto simp: mem_items bm_insert_def bit_or_iff word_bits)

lemma inv_insert [simp]: "is_valid x \<Longrightarrow> bm_inv max_u64 b \<Longrightarrow> bm_inv max_u64 (bm_insert to_u64 b x)"
  using to_less by (auto simp: inv_bits bm_insert_def bit_or_iff word_bits)

lemma items_remove:
  "is_valid x \<Longrightarrow> items (bm_remove to_u64 b x) = (if x \<in> items b then items b - {x} else insert x (items b))"
  using to_inj by (auto simp: mem_items bm_remove_def bit_xor_iff word_bits)

lemma inv_remove: "is_valid x \<Longrightarrow> bm_inv max_u64 b \<Longrightarrow> bm_inv max_u64 (bm_remove to_u64 b x)"
  using to_less by (auto simp: inv_bits bm_remove_def bit_xor_iff word_bits)

lemma items_union: "items (bm_union a b) = items a \<union> items b"
  and items_intersection: "items (bm_intersection a b) = items a \<inter> items b"
  by (auto simp: mem_items bm_union_def bm_intersection_def bit_or_iff bit_and_iff)

lemma inv_union: "bm_inv max_u64 a \<Longrightarrow> bm_inv max_u64 b \<Longrightarrow> bm_inv max_u64 (bm_union a b)"
  and inv_intersection: "bm_inv max_u64 a \<Longrightarrow> bm_inv max_u64 (bm_intersection a b)"
  by (auto simp: inv_bits bm_union_def bm_intersection_def bit_or_iff bit_and_iff)

lemma is_empty_iff: "bm_inv max_u64 b \<Longrightarrow> bm_is_empty b \<longleftrightarrow> items b = {}"
proof
  assume "bm_inv max_u64 b" "items b = {}"
  then have "b = bm_new" by (intro items_inject) simp_all
  then show "bm_is_empty b" by (simp add: bm_is_empty_def bm_new_def)
next
  assume "bm_is_empty b"
  then show "items b = {}" by (auto simp: bm_is_empty_def mem_items)
qed

lemma all_items: "items (bm_all max_u64) = {x. is_valid x}" "bm_inv max_u64 (bm_all max_u64 :: 'a bitmap)"
proof -
  have "unat (64 - max_u64) = 64 - unat max_u64"
    using max_le by (simp add: unat_sub word_le_nat_alt)
  then have e: "unat (64 - max_u64) mod 64 = 64 - unat max_u64" using max_pos by simp
  have b: "bit (bits (bm_all max_u64 :: 'a bitmap)) n \<longleftrightarrow> n < unat max_u64" for n
    using max_le by (auto simp: bm_all_def e bit_simps)
  show "items (bm_all max_u64) = {x. is_valid x}" using to_less by (auto simp: mem_items b)
  show "bm_inv max_u64 (bm_all max_u64 :: 'a bitmap)" by (simp add: inv_bits b)
qed

lemma contains_any_iff:
  "(\<forall>x \<in> set xs. is_valid x) \<Longrightarrow> bm_contains_any to_u64 b xs \<longleftrightarrow> set xs \<inter> items b \<noteq> {}"
  by (induction xs) (auto simp: mem_items and_one_shl)

lemma contains_all_iff:
  assumes "\<forall>x \<in> set xs. is_valid x"
  shows "bm_contains_all to_u64 b xs \<longleftrightarrow> \<not> bm_is_empty b \<and> set xs \<subseteq> items b"
proof -
  have "bits b AND one_shl n = 0 \<longleftrightarrow> \<not> bit (bits b) (n mod 64)" for n
    using and_one_shl [of "bits b" n] by auto
  then have "contains_all_loop to_u64 b xs \<longleftrightarrow> set xs \<subseteq> items b"
    using assms by (induction xs) (auto simp: mem_items)
  then show ?thesis by (simp add: bm_contains_all_def)
qed

lemma items_from_vec:
  "items (bm_from_vec to_u64 is_valid xs) = {x \<in> set xs. is_valid x}
   \<and> bm_inv max_u64 (bm_from_vec to_u64 is_valid xs)"
proof -
  have "bm_inv max_u64 b \<Longrightarrow>
      items (foldl (\<lambda>b v. if is_valid v then bm_insert to_u64 b v else b) b xs)
        = items b \<union> {x \<in> set xs. is_valid x}
      \<and> bm_inv max_u64 (foldl (\<lambda>b v. if is_valid v then bm_insert to_u64 b v else b) b xs)" for b
    by (induction xs arbitrary: b) auto
  then show ?thesis by (simp add: bm_from_vec_def)
qed

lemma next_Some:
  assumes "bm_inv max_u64 b" "bm_next from_u64 b = (Some x, b')"
  shows "x \<in> items b \<and> items b' = items b - {x} \<and> bm_inv max_u64 b'
    \<and> (\<forall>y \<in> items b. unat (to_u64 y) \<le> unat (to_u64 x))"
proof -
  let ?n = "63 - leading_zeros (bits b)"
  have nz: "bits b \<noteq> 0" using assms(2) by (auto simp: bm_next_def split: if_splits)
  then have x: "x = from_u64 (of_nat ?n)" and b': "b' = Bitmap (bits b XOR one_shl ?n)"
    using assms(2) by (auto simp: bm_next_def Let_def)
  have n: "bit (bits b) ?n" "\<And>m. bit (bits b) m \<Longrightarrow> m \<le> ?n" using top_bit [OF nz] by simp_all
  then have less: "?n < unat max_u64" using assms(1) by (simp add: inv_bits)
  have un: "unat (of_nat ?n :: u64) = ?n" by (rule unat_of_nat_small) simp
  have xb: "x \<in> items b" using items_of_bit [OF less] n(1) x by simp
  have tx: "unat (to_u64 x) = ?n" using to_from [of "of_nat ?n"] less un x by simp
  have tn: "unat (to_u64 y) = ?n \<longleftrightarrow> y = x" if "is_valid y" for y
    using to_inj [OF that] xb tx unfolding mem_items by metis
  then have "items b' = items b - {x}"
    using n(1) by (auto simp: mem_items b' bit_xor_iff word_bits)
  moreover have "bm_inv max_u64 b'"
    using assms(1) less by (auto simp: inv_bits b' bit_xor_iff word_bits)
  moreover have "\<forall>y \<in> items b. unat (to_u64 y) \<le> unat (to_u64 x)"
    using n(2) tx by (simp add: mem_items)
  ultimately show ?thesis using xb by simp
qed

lemma next_None: "bm_inv max_u64 b \<Longrightarrow> bm_next from_u64 b = (None, b') \<Longrightarrow> items b = {} \<and> b' = b"
  by (auto simp: bm_next_def is_empty_iff [symmetric] bm_is_empty_def Let_def split: if_splits)

lemma to_vec_items:
  "bm_inv max_u64 b \<Longrightarrow> set (bm_to_vec from_u64 b) = items b
   \<and> sorted_wrt (\<lambda>x y. unat (to_u64 y) < unat (to_u64 x)) (bm_to_vec from_u64 b)"
proof (induction "card {m. bit (bits b) m}" arbitrary: b rule: less_induct)
  case less
  show ?case
  proof (cases "bm_next from_u64 b")
    case (Pair r b')
    show ?thesis
    proof (cases r)
      case None
      then show ?thesis
        using next_None [OF less.prems] Pair by (simp add: bm_to_vec.simps [of _ b])
    next
      case (Some x)
      note n = next_Some [OF less.prems Pair [unfolded Some]]
      have e: "bm_to_vec from_u64 b = x # bm_to_vec from_u64 b'"
        using Pair Some by (simp add: bm_to_vec.simps [of _ b])
      have "set (bm_to_vec from_u64 b') = items b'
          \<and> sorted_wrt (\<lambda>x y. unat (to_u64 y) < unat (to_u64 x)) (bm_to_vec from_u64 b')"
        using less.hyps [OF bm_next_fewer [OF Pair [unfolded Some]]] n by blast
      moreover have "unat (to_u64 y) < unat (to_u64 x)" if "y \<in> items b'" for y
        using n that to_inj [of y x] by (auto simp: mem_items le_less)
      ultimately show ?thesis using n e by auto
    qed
  qed
qed

lemma to_vec_distinct: "bm_inv max_u64 b \<Longrightarrow> distinct (bm_to_vec from_u64 b)"
proof -
  assume "bm_inv max_u64 b"
  then have "sorted_wrt (\<lambda>x y. unat (to_u64 y) < unat (to_u64 x)) (bm_to_vec from_u64 b)"
    by (simp add: to_vec_items)
  then show ?thesis by (rule sorted_wrt_distinct) simp
qed

lemma from_to_vec: "bm_inv max_u64 b \<Longrightarrow> bm_from_vec to_u64 is_valid (bm_to_vec from_u64 b) = b"
  using items_from_vec to_vec_items by (intro items_inject) (auto simp: mem_items)

end

end
