(* ===== verification/Bitset.thy ===== *)
theory Bitset
  imports Bitmap
begin

text \<open>
  The fixed-size bit sets of \<open>crates/trc/src/ipc/bitset.rs\<close>, the representation of permission
  sets. The array of \<open>usize\<close> blocks is a list of 64-bit words; indexing past the array panics
  in Rust and is \<open>None\<close> here. \<open>bs_elems\<close> reads a bit set as a set of indices.
\<close>

subsection \<open>Operations\<close>

datatype bitset = Bitset (blocks: "u64 list")

definition bs_new :: "nat \<Rightarrow> bitset" where
  "bs_new n = Bitset (replicate n 0)"

definition bs_all :: "nat \<Rightarrow> bitset" where
  "bs_all n = Bitset (replicate n (- 1))"

definition bs_set :: "bitset \<Rightarrow> nat \<Rightarrow> bitset option" where
  "bs_set b index =
     (if index div 64 < length (blocks b)
      then Some (Bitset ((blocks b)[index div 64 := blocks b ! (index div 64) OR one_shl (index AND 63)]))
      else None)"

definition bs_clear :: "bitset \<Rightarrow> nat \<Rightarrow> bitset option" where
  "bs_clear b index =
     (if index div 64 < length (blocks b)
      then Some (Bitset ((blocks b)[index div 64 := blocks b ! (index div 64) AND NOT (one_shl (index AND 63))]))
      else None)"

definition bs_get :: "bitset \<Rightarrow> nat \<Rightarrow> bool option" where
  "bs_get b index =
     (if index div 64 < length (blocks b)
      then Some (blocks b ! (index div 64) AND one_shl (index AND 63) \<noteq> 0)
      else None)"

definition bs_union :: "bitset \<Rightarrow> bitset \<Rightarrow> bitset" where
  "bs_union a b = Bitset (map2 (OR) (blocks a) (blocks b))"

definition bs_intersection :: "bitset \<Rightarrow> bitset \<Rightarrow> bitset" where
  "bs_intersection a b = Bitset (map2 (AND) (blocks a) (blocks b))"

definition bs_difference :: "bitset \<Rightarrow> bitset \<Rightarrow> bitset" where
  "bs_difference a b = Bitset (map2 (\<lambda>x y. x AND NOT y) (blocks a) (blocks b))"

definition bs_clear_all :: "bitset \<Rightarrow> bitset" where
  "bs_clear_all b = Bitset (map (\<lambda>_. 0) (blocks b))"

definition bs_is_empty :: "bitset \<Rightarrow> bool" where
  "bs_is_empty b \<longleftrightarrow> list_all (\<lambda>w. w = 0) (blocks b)"

subsection \<open>Bit sets as sets of indices\<close>

definition bs_wf :: "nat \<Rightarrow> bitset \<Rightarrow> bool" where
  "bs_wf n b \<longleftrightarrow> length (blocks b) = n"

definition bs_elems :: "bitset \<Rightarrow> nat set" where
  "bs_elems b = {i. bs_get b i = Some True}"

lemma and_63: "(i :: nat) AND 63 = i mod 64"
proof -
  have "(63 :: nat) = mask 6" by (simp add: mask_eq_exp_minus_1)
  then have "i AND 63 = take_bit 6 i" by (simp only: take_bit_eq_mask)
  then show ?thesis by (simp add: take_bit_eq_mod)
qed

lemma bs_get_wf: "bs_wf n b \<Longrightarrow> i div 64 < n \<Longrightarrow> bs_get b i = Some (i \<in> bs_elems b)"
  by (auto simp: bs_get_def bs_elems_def bs_wf_def)

lemma mem_bs_elems:
  "i \<in> bs_elems b \<longleftrightarrow> i div 64 < length (blocks b) \<and> bit (blocks b ! (i div 64)) (i mod 64)"
  by (simp add: bs_elems_def bs_get_def and_63 and_one_shl)

lemma bs_wf_ops [simp]:
  "bs_wf n (bs_new n)" "bs_wf n (bs_all n)"
  "bs_wf n a \<Longrightarrow> bs_wf n b \<Longrightarrow> bs_wf n (bs_union a b)"
  "bs_wf n a \<Longrightarrow> bs_wf n b \<Longrightarrow> bs_wf n (bs_intersection a b)"
  "bs_wf n a \<Longrightarrow> bs_wf n b \<Longrightarrow> bs_wf n (bs_difference a b)"
  by (simp_all add: bs_wf_def bs_new_def bs_all_def bs_union_def bs_intersection_def bs_difference_def)

lemma bs_elems_new [simp]: "bs_elems (bs_new n) = {}"
  and bs_elems_all [simp]: "bs_elems (bs_all n) = {i. i div 64 < n}"
  by (auto simp: mem_bs_elems bs_new_def bs_all_def)

lemma bs_elems_union [simp]:
  "bs_wf n a \<Longrightarrow> bs_wf n b \<Longrightarrow> bs_elems (bs_union a b) = bs_elems a \<union> bs_elems b"
  by (auto simp: mem_bs_elems bs_union_def bs_wf_def bit_or_iff)

lemma bs_elems_intersection [simp]:
  "bs_wf n a \<Longrightarrow> bs_wf n b \<Longrightarrow> bs_elems (bs_intersection a b) = bs_elems a \<inter> bs_elems b"
  by (auto simp: mem_bs_elems bs_intersection_def bs_wf_def bit_and_iff)

lemma bs_elems_difference [simp]:
  "bs_wf n a \<Longrightarrow> bs_wf n b \<Longrightarrow> bs_elems (bs_difference a b) = bs_elems a - bs_elems b"
  by (auto simp: mem_bs_elems bs_difference_def bs_wf_def bit_and_iff bit_not_iff)

lemma div_mod_64_eq: "(i :: nat) div 64 = j div 64 \<Longrightarrow> i mod 64 = j mod 64 \<Longrightarrow> i = j"
  by (metis div_mult_mod_eq)

lemma bs_set_Some:
  assumes "bs_wf n b" "i div 64 < n"
  shows "\<exists>b'. bs_set b i = Some b' \<and> bs_wf n b' \<and> bs_elems b' = insert i (bs_elems b)"
proof -
  have "bs_elems (Bitset ((blocks b)[i div 64 := blocks b ! (i div 64) OR one_shl (i AND 63)]))
      = insert i (bs_elems b)"
    using assms
    by (auto simp: mem_bs_elems bs_wf_def nth_list_update bit_or_iff bit_one_shl and_63
        intro: div_mod_64_eq split: if_splits)
  then show ?thesis using assms by (simp add: bs_set_def bs_wf_def)
qed

lemma bs_clear_Some:
  assumes "bs_wf n b" "i div 64 < n"
  shows "\<exists>b'. bs_clear b i = Some b' \<and> bs_wf n b' \<and> bs_elems b' = bs_elems b - {i}"
proof -
  have "bs_elems (Bitset ((blocks b)[i div 64 := blocks b ! (i div 64) AND NOT (one_shl (i AND 63))]))
      = bs_elems b - {i}"
    using assms
    by (auto simp: mem_bs_elems bs_wf_def nth_list_update bit_and_iff bit_not_iff bit_one_shl and_63
        intro: div_mod_64_eq split: if_splits)
  then show ?thesis using assms by (simp add: bs_clear_def bs_wf_def)
qed

end
