(* ===== verification/MailTypes.thy ===== *)
theory MailTypes
  imports Bitmap
begin

text \<open>
  The enumerations of \<open>crates/types/src\<close>: access rights (\<open>acl.rs\<close>), collections
  (\<open>collection.rs\<close>), data types and state changes (\<open>type_state.rs\<close>) and time ranges
  (\<open>lib.rs\<close>), with their numeric codes, names and conversions. A \<open>match\<close> on integer
  or string literals is a table looked up with a default. The four enumerations that are kept in
  bitmaps interpret the locale \<open>bitmap_item\<close>.
\<close>

subsection \<open>Access rights\<close>

datatype acl =
    Acl_Read | Acl_Modify | Acl_Delete | Acl_ReadItems
  | Acl_AddItems | Acl_ModifyItems | Acl_RemoveItems | Acl_CreateChild
  | Acl_Share | Acl_Submit | Acl_SchedulingReadFreeBusy | Acl_SchedulingInvite
  | Acl_SchedulingReply | Acl_ModifyItemsOwn | Acl_ModifyPrivateProperties | Acl_ModifyRSVP
  | Acl_None

fun acl_to_u64 :: "acl \<Rightarrow> u64" where
  "acl_to_u64 Acl_Read = 0"
| "acl_to_u64 Acl_Modify = 1"
| "acl_to_u64 Acl_Delete = 2"
| "acl_to_u64 Acl_ReadItems = 3"
| "acl_to_u64 Acl_AddItems = 4"
| "acl_to_u64 Acl_ModifyItems = 5"
| "acl_to_u64 Acl_RemoveItems = 6"
| "acl_to_u64 Acl_CreateChild = 7"
| "acl_to_u64 Acl_Share = 8"
| "acl_to_u64 Acl_Submit = 9"
| "acl_to_u64 Acl_SchedulingReadFreeBusy = 10"
| "acl_to_u64 Acl_SchedulingInvite = 11"
| "acl_to_u64 Acl_SchedulingReply = 12"
| "acl_to_u64 Acl_ModifyItemsOwn = 13"
| "acl_to_u64 Acl_ModifyPrivateProperties = 14"
| "acl_to_u64 Acl_ModifyRSVP = 15"
| "acl_to_u64 Acl_None = 16"

definition acl_from_u64 :: "u64 \<Rightarrow> acl" where
  "acl_from_u64 v =
     (case map_of
       [(0, Acl_Read), (1, Acl_Modify), (2, Acl_Delete), (3, Acl_ReadItems),
        (4, Acl_AddItems), (5, Acl_ModifyItems), (6, Acl_RemoveItems), (7, Acl_CreateChild),
        (8, Acl_Share), (9, Acl_Submit), (10, Acl_SchedulingReadFreeBusy), (11, Acl_SchedulingInvite),
        (12, Acl_SchedulingReply), (13, Acl_ModifyItemsOwn), (14, Acl_ModifyPrivateProperties), (15, Acl_ModifyRSVP)] v of
        Some x \<Rightarrow> x | None \<Rightarrow> Acl_None)"

fun acl_as_str :: "acl \<Rightarrow> string" where
  "acl_as_str Acl_Read = ''read''"
| "acl_as_str Acl_Modify = ''modify''"
| "acl_as_str Acl_Delete = ''delete''"
| "acl_as_str Acl_ReadItems = ''readItems''"
| "acl_as_str Acl_AddItems = ''addItems''"
| "acl_as_str Acl_ModifyItems = ''modifyItems''"
| "acl_as_str Acl_RemoveItems = ''removeItems''"
| "acl_as_str Acl_CreateChild = ''createChild''"
| "acl_as_str Acl_Share = ''share''"
| "acl_as_str Acl_Submit = ''submit''"
| "acl_as_str Acl_ModifyItemsOwn = ''modifyItemsOwn''"
| "acl_as_str Acl_ModifyPrivateProperties = ''modifyPrivateProperties''"
| "acl_as_str Acl_None = ''''"
| "acl_as_str Acl_SchedulingReadFreeBusy = ''schedulingReadFreeBusy''"
| "acl_as_str Acl_SchedulingInvite = ''schedulingInvite''"
| "acl_as_str Acl_SchedulingReply = ''schedulingReply''"
| "acl_as_str Acl_ModifyRSVP = ''modifyRSVP''"

definition acl_max :: u64 where
  "acl_max = acl_to_u64 Acl_None"

definition acl_is_valid :: "acl \<Rightarrow> bool" where
  "acl_is_valid a \<longleftrightarrow> a \<noteq> Acl_None"

record acl_grant =
  ag_account_id :: u32
  ag_grants :: "acl bitmap"

subsection \<open>Collections\<close>

datatype collection =
    Coll_Email | Coll_Mailbox | Coll_Thread | Coll_Identity
  | Coll_EmailSubmission | Coll_SieveScript | Coll_PushSubscription | Coll_Principal
  | Coll_Calendar | Coll_CalendarEvent | Coll_AddressBook | Coll_ContactCard
  | Coll_FileNode | Coll_CalendarEventNotification | Coll_None

fun collection_to_u64 :: "collection \<Rightarrow> u64" where
  "collection_to_u64 Coll_Email = 0"
| "collection_to_u64 Coll_Mailbox = 1"
| "collection_to_u64 Coll_Thread = 2"
| "collection_to_u64 Coll_Identity = 3"
| "collection_to_u64 Coll_EmailSubmission = 4"
| "collection_to_u64 Coll_SieveScript = 5"
| "collection_to_u64 Coll_PushSubscription = 6"
| "collection_to_u64 Coll_Principal = 7"
| "collection_to_u64 Coll_Calendar = 8"
| "collection_to_u64 Coll_CalendarEvent = 9"
| "collection_to_u64 Coll_AddressBook = 10"
| "collection_to_u64 Coll_ContactCard = 11"
| "collection_to_u64 Coll_FileNode = 12"
| "collection_to_u64 Coll_CalendarEventNotification = 13"
| "collection_to_u64 Coll_None = 14"

definition collection_from_u64 :: "u64 \<Rightarrow> collection" where
  "collection_from_u64 v =
     (case map_of
       [(0, Coll_Email), (1, Coll_Mailbox), (2, Coll_Thread), (3, Coll_Identity),
        (4, Coll_EmailSubmission), (5, Coll_SieveScript), (6, Coll_PushSubscription), (7, Coll_Principal),
        (8, Coll_Calendar), (9, Coll_CalendarEvent), (10, Coll_AddressBook), (11, Coll_ContactCard),
        (12, Coll_FileNode), (13, Coll_CalendarEventNotification)] v of
        Some x \<Rightarrow> x | None \<Rightarrow> Coll_None)"

definition collection_to_u8 :: "collection \<Rightarrow> u8" where
  "collection_to_u8 v = ucast (collection_to_u64 v)"

definition collection_from_u8 :: "u8 \<Rightarrow> collection" where
  "collection_from_u8 v =
     (case map_of
       [(0, Coll_Email), (1, Coll_Mailbox), (2, Coll_Thread), (3, Coll_Identity),
        (4, Coll_EmailSubmission), (5, Coll_SieveScript), (6, Coll_PushSubscription), (7, Coll_Principal),
        (8, Coll_Calendar), (9, Coll_CalendarEvent), (10, Coll_AddressBook), (11, Coll_ContactCard),
        (12, Coll_FileNode), (13, Coll_CalendarEventNotification)] v of
        Some x \<Rightarrow> x | None \<Rightarrow> Coll_None)"

datatype sync_collection =
    Sync_Email | Sync_Thread | Sync_Calendar | Sync_AddressBook
  | Sync_FileNode | Sync_Identity | Sync_EmailSubmission | Sync_SieveScript
  | Sync_CalendarEventNotification | Sync_ShareNotification | Sync_None

fun sync_collection_to_u64 :: "sync_collection \<Rightarrow> u64" where
  "sync_collection_to_u64 Sync_Email = 0"
| "sync_collection_to_u64 Sync_Thread = 1"
| "sync_collection_to_u64 Sync_Calendar = 2"
| "sync_collection_to_u64 Sync_AddressBook = 3"
| "sync_collection_to_u64 Sync_FileNode = 4"
| "sync_collection_to_u64 Sync_Identity = 5"
| "sync_collection_to_u64 Sync_EmailSubmission = 6"
| "sync_collection_to_u64 Sync_SieveScript = 7"
| "sync_collection_to_u64 Sync_CalendarEventNotification = 8"
| "sync_collection_to_u64 Sync_ShareNotification = 9"
| "sync_collection_to_u64 Sync_None = 10"

definition sync_collection_from_u64 :: "u64 \<Rightarrow> sync_collection" where
  "sync_collection_from_u64 v =
     (case map_of
       [(0, Sync_Email), (1, Sync_Thread), (2, Sync_Calendar), (3, Sync_AddressBook),
        (4, Sync_FileNode), (5, Sync_Identity), (6, Sync_EmailSubmission), (7, Sync_SieveScript),
        (8, Sync_CalendarEventNotification), (9, Sync_ShareNotification)] v of
        Some x \<Rightarrow> x | None \<Rightarrow> Sync_None)"

definition sync_collection_to_u8 :: "sync_collection \<Rightarrow> u8" where
  "sync_collection_to_u8 v = ucast (sync_collection_to_u64 v)"

definition sync_collection_from_u8 :: "u8 \<Rightarrow> sync_collection" where
  "sync_collection_from_u8 v =
     (case map_of
       [(0, Sync_Email), (1, Sync_Thread), (2, Sync_Calendar), (3, Sync_AddressBook),
        (4, Sync_FileNode), (5, Sync_Identity), (6, Sync_EmailSubmission), (7, Sync_SieveScript),
        (8, Sync_CalendarEventNotification), (9, Sync_ShareNotification)] v of
        Some x \<Rightarrow> x | None \<Rightarrow> Sync_None)"

datatype vanished_collection =
    Vanished_Email | Vanished_Calendar | Vanished_AddressBook | Vanished_FileNode

fun vanished_to_u8 :: "vanished_collection \<Rightarrow> u8" where
  "vanished_to_u8 Vanished_Email = 251"
| "vanished_to_u8 Vanished_Calendar = 252"
| "vanished_to_u8 Vanished_AddressBook = 253"
| "vanished_to_u8 Vanished_FileNode = 254"

definition collection_max :: u64 where
  "collection_max = collection_to_u64 Coll_None"

definition collection_is_valid :: "collection \<Rightarrow> bool" where
  "collection_is_valid c \<longleftrightarrow> c \<noteq> Coll_None"

definition sync_collection_max :: u64 where
  "sync_collection_max = sync_collection_to_u64 Sync_None"

definition sync_collection_is_valid :: "sync_collection \<Rightarrow> bool" where
  "sync_collection_is_valid c \<longleftrightarrow> c \<noteq> Sync_None"

fun main_collection :: "collection \<Rightarrow> collection" where
  "main_collection Coll_Email = Coll_Mailbox"
| "main_collection Coll_CalendarEvent = Coll_Calendar"
| "main_collection Coll_ContactCard = Coll_AddressBook"
| "main_collection c = c"

fun parent_collection :: "collection \<Rightarrow> collection option" where
  "parent_collection Coll_Email = Some Coll_Mailbox"
| "parent_collection Coll_CalendarEvent = Some Coll_Calendar"
| "parent_collection Coll_ContactCard = Some Coll_AddressBook"
| "parent_collection Coll_FileNode = Some Coll_FileNode"
| "parent_collection Coll_CalendarEventNotification = Some Coll_CalendarEventNotification"
| "parent_collection _ = None"

fun child_collection :: "collection \<Rightarrow> collection option" where
  "child_collection Coll_Mailbox = Some Coll_Email"
| "child_collection Coll_Calendar = Some Coll_CalendarEvent"
| "child_collection Coll_AddressBook = Some Coll_ContactCard"
| "child_collection Coll_FileNode = Some Coll_FileNode"
| "child_collection Coll_CalendarEventNotification = Some Coll_CalendarEventNotification"
| "child_collection _ = None"

fun sync_to_collection :: "sync_collection \<Rightarrow> bool \<Rightarrow> collection" where
  "sync_to_collection Sync_Email is_container = (if is_container then Coll_Mailbox else Coll_Email)"
| "sync_to_collection Sync_Thread _ = Coll_Thread"
| "sync_to_collection Sync_Calendar is_container =
     (if is_container then Coll_Calendar else Coll_CalendarEvent)"
| "sync_to_collection Sync_AddressBook is_container =
     (if is_container then Coll_AddressBook else Coll_ContactCard)"
| "sync_to_collection Sync_FileNode _ = Coll_FileNode"
| "sync_to_collection Sync_Identity _ = Coll_Identity"
| "sync_to_collection Sync_EmailSubmission _ = Coll_EmailSubmission"
| "sync_to_collection Sync_SieveScript _ = Coll_SieveScript"
| "sync_to_collection Sync_CalendarEventNotification _ = Coll_CalendarEventNotification"
| "sync_to_collection Sync_ShareNotification _ = Coll_None"
| "sync_to_collection Sync_None _ = Coll_None"

fun vanished_of_sync :: "sync_collection \<Rightarrow> vanished_collection option" where
  "vanished_of_sync Sync_Email = Some Vanished_Email"
| "vanished_of_sync Sync_Calendar = Some Vanished_Calendar"
| "vanished_of_sync Sync_AddressBook = Some Vanished_AddressBook"
| "vanished_of_sync Sync_FileNode = Some Vanished_FileNode"
| "vanished_of_sync _ = None"

fun sync_of_collection :: "collection \<Rightarrow> sync_collection" where
  "sync_of_collection Coll_Email = Sync_Email"
| "sync_of_collection Coll_Mailbox = Sync_Email"
| "sync_of_collection Coll_Thread = Sync_Thread"
| "sync_of_collection Coll_Identity = Sync_Identity"
| "sync_of_collection Coll_EmailSubmission = Sync_EmailSubmission"
| "sync_of_collection Coll_SieveScript = Sync_SieveScript"
| "sync_of_collection Coll_PushSubscription = Sync_None"
| "sync_of_collection Coll_Principal = Sync_None"
| "sync_of_collection Coll_Calendar = Sync_Calendar"
| "sync_of_collection Coll_CalendarEvent = Sync_Calendar"
| "sync_of_collection Coll_CalendarEventNotification = Sync_CalendarEventNotification"
| "sync_of_collection Coll_AddressBook = Sync_AddressBook"
| "sync_of_collection Coll_ContactCard = Sync_AddressBook"
| "sync_of_collection Coll_FileNode = Sync_FileNode"
| "sync_of_collection _ = Sync_None"

fun collection_as_str :: "collection \<Rightarrow> string" where
  "collection_as_str Coll_PushSubscription = ''pushSubscription''"
| "collection_as_str Coll_Email = ''email''"
| "collection_as_str Coll_Mailbox = ''mailbox''"
| "collection_as_str Coll_Thread = ''thread''"
| "collection_as_str Coll_Identity = ''identity''"
| "collection_as_str Coll_EmailSubmission = ''emailSubmission''"
| "collection_as_str Coll_SieveScript = ''sieveScript''"
| "collection_as_str Coll_Principal = ''principal''"
| "collection_as_str Coll_Calendar = ''calendar''"
| "collection_as_str Coll_CalendarEvent = ''calendarEvent''"
| "collection_as_str Coll_AddressBook = ''addressBook''"
| "collection_as_str Coll_ContactCard = ''contactCard''"
| "collection_as_str Coll_FileNode = ''fileNode''"
| "collection_as_str Coll_CalendarEventNotification = ''calendarEventNotification''"
| "collection_as_str Coll_None = ''''"

fun collection_as_config_case :: "collection \<Rightarrow> string" where
  "collection_as_config_case Coll_PushSubscription = ''push-subscription''"
| "collection_as_config_case Coll_Email = ''email''"
| "collection_as_config_case Coll_Mailbox = ''mailbox''"
| "collection_as_config_case Coll_Thread = ''thread''"
| "collection_as_config_case Coll_Identity = ''identity''"
| "collection_as_config_case Coll_EmailSubmission = ''email-submission''"
| "collection_as_config_case Coll_SieveScript = ''sieve-script''"
| "collection_as_config_case Coll_Principal = ''principal''"
| "collection_as_config_case Coll_Calendar = ''calendar''"
| "collection_as_config_case Coll_CalendarEvent = ''calendar-event''"
| "collection_as_config_case Coll_AddressBook = ''address-book''"
| "collection_as_config_case Coll_ContactCard = ''contact-card''"
| "collection_as_config_case Coll_FileNode = ''file-node''"
| "collection_as_config_case Coll_CalendarEventNotification = ''calendar-event-notification''"
| "collection_as_config_case Coll_None = ''''"

definition collection_from_str :: "string \<Rightarrow> unit + collection" where
  "collection_from_str s =
     (case map_of
       [(''pushSubscription'', Coll_PushSubscription),
        (''email'', Coll_Email),
        (''mailbox'', Coll_Mailbox),
        (''thread'', Coll_Thread),
        (''identity'', Coll_Identity),
        (''emailSubmission'', Coll_EmailSubmission),
        (''sieveScript'', Coll_SieveScript),
        (''principal'', Coll_Principal),
        (''calendar'', Coll_Calendar),
        (''calendarEvent'', Coll_CalendarEvent),
        (''addressBook'', Coll_AddressBook),
        (''contactCard'', Coll_ContactCard),
        (''fileNode'', Coll_FileNode),
        (''calendarEventNotification'', Coll_CalendarEventNotification)] s of
        Some c \<Rightarrow> Inr c | None \<Rightarrow> Inl ())"

fun sync_collection_as_str :: "sync_collection \<Rightarrow> string" where
  "sync_collection_as_str Sync_Email = ''email''"
| "sync_collection_as_str Sync_Thread = ''thread''"
| "sync_collection_as_str Sync_Calendar = ''calendar''"
| "sync_collection_as_str Sync_AddressBook = ''addressBook''"
| "sync_collection_as_str Sync_FileNode = ''fileNode''"
| "sync_collection_as_str Sync_Identity = ''identity''"
| "sync_collection_as_str Sync_EmailSubmission = ''emailSubmission''"
| "sync_collection_as_str Sync_SieveScript = ''sieveScript''"
| "sync_collection_as_str Sync_CalendarEventNotification = ''calendarEventNotification''"
| "sync_collection_as_str Sync_ShareNotification = ''shareNotification''"
| "sync_collection_as_str Sync_None = ''''"

subsection \<open>Data types\<close>

datatype data_type =
    DT_Email | DT_EmailDelivery | DT_EmailSubmission | DT_Mailbox
  | DT_Thread | DT_Identity | DT_Core | DT_PushSubscription
  | DT_SearchSnippet | DT_VacationResponse | DT_Mdn | DT_Quota
  | DT_SieveScript | DT_Calendar | DT_CalendarEvent | DT_CalendarEventNotification
  | DT_AddressBook | DT_ContactCard | DT_FileNode | DT_Principal
  | DT_ShareNotification | DT_ParticipantIdentity | DT_CalendarAlert | DT_None

fun data_type_to_u64 :: "data_type \<Rightarrow> u64" where
  "data_type_to_u64 DT_Email = 0"
| "data_type_to_u64 DT_EmailDelivery = 1"
| "data_type_to_u64 DT_EmailSubmission = 2"
| "data_type_to_u64 DT_Mailbox = 3"
| "data_type_to_u64 DT_Thread = 4"
| "data_type_to_u64 DT_Identity = 5"
| "data_type_to_u64 DT_Core = 6"
| "data_type_to_u64 DT_PushSubscription = 7"
| "data_type_to_u64 DT_SearchSnippet = 8"
| "data_type_to_u64 DT_VacationResponse = 9"
| "data_type_to_u64 DT_Mdn = 10"
| "data_type_to_u64 DT_Quota = 11"
| "data_type_to_u64 DT_SieveScript = 12"
| "data_type_to_u64 DT_Calendar = 13"
| "data_type_to_u64 DT_CalendarEvent = 14"
| "data_type_to_u64 DT_CalendarEventNotification = 15"
| "data_type_to_u64 DT_AddressBook = 16"
| "data_type_to_u64 DT_ContactCard = 17"
| "data_type_to_u64 DT_FileNode = 18"
| "data_type_to_u64 DT_Principal = 19"
| "data_type_to_u64 DT_ShareNotification = 20"
| "data_type_to_u64 DT_ParticipantIdentity = 21"
| "data_type_to_u64 DT_CalendarAlert = 22"
| "data_type_to_u64 DT_None = 23"

definition data_type_from_u64 :: "u64 \<Rightarrow> data_type" where
  "data_type_from_u64 v =
     (case map_of
       [(0, DT_Email), (1, DT_EmailDelivery), (2, DT_EmailSubmission), (3, DT_Mailbox),
        (4, DT_Thread), (5, DT_Identity), (6, DT_Core), (7, DT_PushSubscription),
        (8, DT_SearchSnippet), (9, DT_VacationResponse), (10, DT_Mdn), (11, DT_Quota),
        (12, DT_SieveScript), (13, DT_Calendar), (14, DT_CalendarEvent), (15, DT_CalendarEventNotification),
        (16, DT_AddressBook), (17, DT_ContactCard), (18, DT_FileNode), (19, DT_Principal),
        (20, DT_ShareNotification), (21, DT_ParticipantIdentity), (22, DT_CalendarAlert)] v of
        Some x \<Rightarrow> x | None \<Rightarrow> DT_None)"

definition data_type_max :: u64 where
  "data_type_max = data_type_to_u64 DT_None"

definition data_type_is_valid :: "data_type \<Rightarrow> bool" where
  "data_type_is_valid t \<longleftrightarrow> t \<noteq> DT_None"

definition data_type_parse :: "string \<Rightarrow> data_type option" where
  "data_type_parse value = map_of
       [(''Email'', DT_Email),
        (''EmailDelivery'', DT_EmailDelivery),
        (''EmailSubmission'', DT_EmailSubmission),
        (''Mailbox'', DT_Mailbox),
        (''Thread'', DT_Thread),
        (''Identity'', DT_Identity),
        (''Core'', DT_Core),
        (''PushSubscription'', DT_PushSubscription),
        (''SearchSnippet'', DT_SearchSnippet),
        (''VacationResponse'', DT_VacationResponse),
        (''MDN'', DT_Mdn),
        (''Quota'', DT_Quota),
        (''SieveScript'', DT_SieveScript),
        (''Calendar'', DT_Calendar),
        (''CalendarEvent'', DT_CalendarEvent),
        (''CalendarEventNotification'', DT_CalendarEventNotification),
        (''AddressBook'', DT_AddressBook),
        (''ContactCard'', DT_ContactCard),
        (''FileNode'', DT_FileNode),
        (''Principal'', DT_Principal),
        (''ShareNotification'', DT_ShareNotification),
        (''ParticipantIdentity'', DT_ParticipantIdentity),
        (''CalendarAlert'', DT_CalendarAlert)] value"

fun data_type_as_str :: "data_type \<Rightarrow> string" where
  "data_type_as_str DT_Email = ''Email''"
| "data_type_as_str DT_EmailDelivery = ''EmailDelivery''"
| "data_type_as_str DT_EmailSubmission = ''EmailSubmission''"
| "data_type_as_str DT_Mailbox = ''Mailbox''"
| "data_type_as_str DT_Thread = ''Thread''"
| "data_type_as_str DT_Identity = ''Identity''"
| "data_type_as_str DT_Core = ''Core''"
| "data_type_as_str DT_PushSubscription = ''PushSubscription''"
| "data_type_as_str DT_SearchSnippet = ''SearchSnippet''"
| "data_type_as_str DT_VacationResponse = ''VacationResponse''"
| "data_type_as_str DT_Mdn = ''MDN''"
| "data_type_as_str DT_Quota = ''Quota''"
| "data_type_as_str DT_SieveScript = ''SieveScript''"
| "data_type_as_str DT_Calendar = ''Calendar''"
| "data_type_as_str DT_CalendarEvent = ''CalendarEvent''"
| "data_type_as_str DT_CalendarEventNotification = ''CalendarEventNotification''"
| "data_type_as_str DT_AddressBook = ''AddressBook''"
| "data_type_as_str DT_ContactCard = ''ContactCard''"
| "data_type_as_str DT_FileNode = ''FileNode''"
| "data_type_as_str DT_Principal = ''Principal''"
| "data_type_as_str DT_ShareNotification = ''ShareNotification''"
| "data_type_as_str DT_ParticipantIdentity = ''ParticipantIdentity''"
| "data_type_as_str DT_CalendarAlert = ''CalendarAlert''"
| "data_type_as_str DT_None = ''''"

definition data_type_from_str :: "string \<Rightarrow> unit + data_type" where
  "data_type_from_str s = (case data_type_parse s of Some t \<Rightarrow> Inr t | None \<Rightarrow> Inl ())"

fun try_from_sync :: "sync_collection \<Rightarrow> bool \<Rightarrow> data_type option" where
  "try_from_sync Sync_Email False = Some DT_Email"
| "try_from_sync Sync_Email True = Some DT_Mailbox"
| "try_from_sync Sync_Thread _ = Some DT_Thread"
| "try_from_sync Sync_Calendar True = Some DT_Calendar"
| "try_from_sync Sync_Calendar False = Some DT_CalendarEvent"
| "try_from_sync Sync_AddressBook True = Some DT_AddressBook"
| "try_from_sync Sync_AddressBook False = Some DT_ContactCard"
| "try_from_sync Sync_FileNode _ = Some DT_FileNode"
| "try_from_sync Sync_Identity _ = Some DT_Identity"
| "try_from_sync Sync_EmailSubmission _ = Some DT_EmailSubmission"
| "try_from_sync Sync_SieveScript _ = Some DT_SieveScript"
| "try_from_sync _ _ = None"

fun data_type_of_collection :: "collection \<Rightarrow> unit + data_type" where
  "data_type_of_collection Coll_Email = Inr DT_Email"
| "data_type_of_collection Coll_Mailbox = Inr DT_Mailbox"
| "data_type_of_collection Coll_Thread = Inr DT_Thread"
| "data_type_of_collection Coll_Identity = Inr DT_Identity"
| "data_type_of_collection Coll_EmailSubmission = Inr DT_EmailSubmission"
| "data_type_of_collection Coll_SieveScript = Inr DT_SieveScript"
| "data_type_of_collection Coll_PushSubscription = Inr DT_PushSubscription"
| "data_type_of_collection Coll_Principal = Inr DT_Principal"
| "data_type_of_collection Coll_Calendar = Inr DT_Calendar"
| "data_type_of_collection Coll_CalendarEvent = Inr DT_CalendarEvent"
| "data_type_of_collection Coll_AddressBook = Inr DT_AddressBook"
| "data_type_of_collection Coll_ContactCard = Inr DT_ContactCard"
| "data_type_of_collection Coll_FileNode = Inr DT_FileNode"
| "data_type_of_collection Coll_CalendarEventNotification = Inr DT_CalendarEventNotification"
| "data_type_of_collection _ = Inl ()"

fun collection_of_data_type :: "data_type \<Rightarrow> unit + collection" where
  "collection_of_data_type DT_Email = Inr Coll_Email"
| "collection_of_data_type DT_Mailbox = Inr Coll_Mailbox"
| "collection_of_data_type DT_Thread = Inr Coll_Thread"
| "collection_of_data_type DT_Identity = Inr Coll_Identity"
| "collection_of_data_type DT_EmailSubmission = Inr Coll_EmailSubmission"
| "collection_of_data_type DT_SieveScript = Inr Coll_SieveScript"
| "collection_of_data_type DT_PushSubscription = Inr Coll_PushSubscription"
| "collection_of_data_type DT_Principal = Inr Coll_Principal"
| "collection_of_data_type DT_Calendar = Inr Coll_Calendar"
| "collection_of_data_type DT_CalendarEvent = Inr Coll_CalendarEvent"
| "collection_of_data_type DT_AddressBook = Inr Coll_AddressBook"
| "collection_of_data_type DT_ContactCard = Inr Coll_ContactCard"
| "collection_of_data_type DT_FileNode = Inr Coll_FileNode"
| "collection_of_data_type DT_CalendarEventNotification = Inr Coll_CalendarEventNotification"
| "collection_of_data_type _ = Inl ()"

record state_change =
  sc_account_id :: u32
  sc_change_id :: u64
  sc_types :: "data_type bitmap"

definition state_change_new :: "u32 \<Rightarrow> state_change" where
  "state_change_new account = \<lparr>sc_account_id = account, sc_change_id = 0, sc_types = bm_new\<rparr>"

definition set_change :: "state_change \<Rightarrow> data_type \<Rightarrow> state_change" where
  "set_change sc type_state = sc\<lparr>sc_types := bm_insert data_type_to_u64 (sc_types sc) type_state\<rparr>"

definition with_change_id :: "state_change \<Rightarrow> u64 \<Rightarrow> state_change" where
  "with_change_id sc change_id = sc\<lparr>sc_change_id := change_id\<rparr>"

definition has_changes :: "state_change \<Rightarrow> bool" where
  "has_changes sc \<longleftrightarrow> \<not> bm_is_empty (sc_types sc)"

subsection \<open>Time ranges\<close>

record time_range =
  tr_start :: int
  tr_end :: int

definition is_in_range :: "time_range \<Rightarrow> bool \<Rightarrow> int \<Rightarrow> int \<Rightarrow> bool" where
  "is_in_range tr match_overlap s e =
     (if \<not> match_overlap then tr_start tr < e \<and> tr_end tr > s
      else (s < tr_end tr \<or> s \<le> tr_start tr) \<and> (e > tr_start tr \<or> e \<ge> tr_end tr))"

definition time_range_default :: time_range where
  "time_range_default = \<lparr>tr_start = - (2 ^ 63), tr_end = 2 ^ 63 - 1\<rparr>"

subsection \<open>The enumerations as bitmap items\<close>

interpretation acl: bitmap_item acl_to_u64 acl_from_u64 acl_max acl_is_valid
proof
  show "0 < unat acl_max" "unat acl_max \<le> 64" by (simp_all add: acl_max_def)
  show "unat (acl_to_u64 x) < unat acl_max" "acl_from_u64 (acl_to_u64 x) = x" if "acl_is_valid x" for x
    using that by (cases x; simp add: acl_max_def acl_is_valid_def acl_from_u64_def)+
  have "list_all (\<lambda>k. acl_is_valid (acl_from_u64 (of_nat k))
      \<and> acl_to_u64 (acl_from_u64 (of_nat k)) = of_nat k) [0..<unat acl_max]"
    by code_simp
  then show "acl_is_valid (acl_from_u64 n)" "acl_to_u64 (acl_from_u64 n) = n"
    if "unat n < unat acl_max" for n
    using small_word_cases [OF _ that,
        of "\<lambda>n. acl_is_valid (acl_from_u64 n) \<and> acl_to_u64 (acl_from_u64 n) = n"] by blast+
qed

interpretation coll: bitmap_item collection_to_u64 collection_from_u64 collection_max collection_is_valid
proof
  show "0 < unat collection_max" "unat collection_max \<le> 64" by (simp_all add: collection_max_def)
  show "unat (collection_to_u64 x) < unat collection_max" "collection_from_u64 (collection_to_u64 x) = x"
    if "collection_is_valid x" for x
    using that by (cases x; simp add: collection_max_def collection_is_valid_def collection_from_u64_def)+
  have "list_all (\<lambda>k. collection_is_valid (collection_from_u64 (of_nat k))
      \<and> collection_to_u64 (collection_from_u64 (of_nat k)) = of_nat k) [0..<unat collection_max]"
    by code_simp
  then show "collection_is_valid (collection_from_u64 n)" "collection_to_u64 (collection_from_u64 n) = n"
    if "unat n < unat collection_max" for n
    using small_word_cases [OF _ that, of
        "\<lambda>n. collection_is_valid (collection_from_u64 n) \<and> collection_to_u64 (collection_from_u64 n) = n"]
    by blast+
qed

interpretation sync: bitmap_item sync_collection_to_u64 sync_collection_from_u64 sync_collection_max
  sync_collection_is_valid
proof
  show "0 < unat sync_collection_max" "unat sync_collection_max \<le> 64"
    by (simp_all add: sync_collection_max_def)
  show "unat (sync_collection_to_u64 x) < unat sync_collection_max"
      "sync_collection_from_u64 (sync_collection_to_u64 x) = x" if "sync_collection_is_valid x" for x
    using that
    by (cases x; simp add: sync_collection_max_def sync_collection_is_valid_def sync_collection_from_u64_def)+
  have "list_all (\<lambda>k. sync_collection_is_valid (sync_collection_from_u64 (of_nat k))
      \<and> sync_collection_to_u64 (sync_collection_from_u64 (of_nat k)) = of_nat k) [0..<unat sync_collection_max]"
    by code_simp
  then show "sync_collection_is_valid (sync_collection_from_u64 n)"
      "sync_collection_to_u64 (sync_collection_from_u64 n) = n" if "unat n < unat sync_collection_max" for n
    using small_word_cases [OF _ that, of "\<lambda>n. sync_collection_is_valid (sync_collection_from_u64 n)
          \<and> sync_collection_to_u64 (sync_collection_from_u64 n) = n"] by blast+
qed

interpretation dt: bitmap_item data_type_to_u64 data_type_from_u64 data_type_max data_type_is_valid
proof
  show "0 < unat data_type_max" "unat data_type_max \<le> 64" by (simp_all add: data_type_max_def)
  show "unat (data_type_to_u64 x) < unat data_type_max" "data_type_from_u64 (data_type_to_u64 x) = x"
    if "data_type_is_valid x" for x
    using that by (cases x; simp add: data_type_max_def data_type_is_valid_def data_type_from_u64_def)+
  have "list_all (\<lambda>k. data_type_is_valid (data_type_from_u64 (of_nat k))
      \<and> data_type_to_u64 (data_type_from_u64 (of_nat k)) = of_nat k) [0..<unat data_type_max]"
    by code_simp
  then show "data_type_is_valid (data_type_from_u64 n)" "data_type_to_u64 (data_type_from_u64 n) = n"
    if "unat n < unat data_type_max" for n
    using small_word_cases [OF _ that, of
        "\<lambda>n. data_type_is_valid (data_type_from_u64 n) \<and> data_type_to_u64 (data_type_from_u64 n) = n"]
    by blast+
qed

subsection \<open>Properties\<close>

text \<open>
  Collecting a vector of access rights into a bitmap and iterating over the bitmap lists every
  valid right of the vector once, from the highest code to the lowest; collecting the listing again
  gives the same bitmap.
\<close>

theorem acl_bitmap_lists_valid_rights_once:
  "let b = bm_from_vec acl_to_u64 acl_is_valid xs; v = bm_to_vec acl_from_u64 b
   in set v = set xs - {Acl_None} \<and> distinct v
      \<and> sorted_wrt (\<lambda>x y. unat (acl_to_u64 y) < unat (acl_to_u64 x)) v
      \<and> bm_from_vec acl_to_u64 acl_is_valid v = b"
proof -
  let ?b = "bm_from_vec acl_to_u64 acl_is_valid xs"
  have i: "bm_inv acl_max ?b" and s: "acl.items ?b = set xs - {Acl_None}"
    using acl.items_from_vec [of xs] by (auto simp: acl_is_valid_def)
  show ?thesis
    unfolding Let_def using acl.to_vec_items [OF i] acl.to_vec_distinct [OF i] acl.from_to_vec [OF i] s
    by simp
qed

text \<open>
  C38: \<open>remove\<close> toggles: it removes a right that the bitmap contains, but adds one that it does
  not contain, and leaves every other right alone.
\<close>

theorem acl_bitmap_remove_toggles:
  assumes "acl_is_valid x" "acl_is_valid y"
  shows "bm_contains acl_to_u64 (bm_remove acl_to_u64 b x) y
    \<longleftrightarrow> (if y = x then \<not> bm_contains acl_to_u64 b x else bm_contains acl_to_u64 b y)"
  using assms acl.items_remove [OF assms(1), of b] unfolding bm_items_def by (auto split: if_splits)

theorem acl_bitmap_remove_toggles_witness:
  "bm_contains acl_to_u64 (bm_remove acl_to_u64 bm_new Acl_Share) Acl_Share"
  using acl_bitmap_remove_toggles [of Acl_Share Acl_Share bm_new]
  by (simp add: acl_is_valid_def bm_contains_def bm_new_def)

text \<open>
  The names of collections and of data types identify them: a name parses to exactly the valid
  item that carries it.
\<close>

theorem names_identify_items:
  "(collection_from_str s = Inr c \<longleftrightarrow> collection_is_valid c \<and> collection_as_str c = s)
   \<and> (data_type_parse s = Some t \<longleftrightarrow> data_type_is_valid t \<and> data_type_as_str t = s)"
proof
  show "collection_from_str s = Inr c \<longleftrightarrow> collection_is_valid c \<and> collection_as_str c = s"
    by (cases c) (auto simp: collection_from_str_def collection_is_valid_def split: if_splits)
  have "data_type_parse (data_type_as_str t) = (if data_type_is_valid t then Some t else None)" for t
    by (cases t) (simp_all add: data_type_parse_def data_type_is_valid_def)
  moreover have "data_type_is_valid t \<and> data_type_as_str t = s" if "data_type_parse s = Some t"
    using map_of_SomeD [OF that [unfolded data_type_parse_def]] by (auto simp: data_type_is_valid_def)
  ultimately show "data_type_parse s = Some t \<longleftrightarrow> data_type_is_valid t \<and> data_type_as_str t = s"
    by (metis (full_types))
qed

text \<open>
  The maps between collections, synchronisation collections and data types agree: the data
  type of a synchronisation collection is the data type of its collection, and it is missing
  exactly for calendar event notifications, share notifications and \<open>None\<close>; a collection
  with a synchronisation collection is its container or its item collection.
\<close>

theorem sync_collections_agree:
  "(\<forall>t. try_from_sync sc is_container = Some t \<longrightarrow>
      data_type_of_collection (sync_to_collection sc is_container) = Inr t)
   \<and> (try_from_sync sc is_container = None
      \<longleftrightarrow> sc \<in> {Sync_CalendarEventNotification, Sync_ShareNotification, Sync_None})
   \<and> (sync_of_collection c \<noteq> Sync_None
      \<longrightarrow> c \<in> {sync_to_collection (sync_of_collection c) True, sync_to_collection (sync_of_collection c) False})
   \<and> (parent_collection c = Some p \<longleftrightarrow> p = main_collection c \<and> child_collection p = Some c)"
proof -
  have "(\<forall>t. try_from_sync sc is_container = Some t \<longrightarrow>
      data_type_of_collection (sync_to_collection sc is_container) = Inr t)"
    by (cases sc; cases is_container) auto
  moreover have "try_from_sync sc is_container = None
      \<longleftrightarrow> sc \<in> {Sync_CalendarEventNotification, Sync_ShareNotification, Sync_None}"
    by (cases sc; cases is_container) auto
  moreover have "sync_of_collection c \<noteq> Sync_None
      \<longrightarrow> c \<in> {sync_to_collection (sync_of_collection c) True, sync_to_collection (sync_of_collection c) False}"
    by (cases c) auto
  moreover have "parent_collection c = Some p \<longleftrightarrow> p = main_collection c \<and> child_collection p = Some c"
    by (cases c) auto
  ultimately show ?thesis by blast
qed

theorem sync_collections_agree_witness:
  "data_type_of_collection (sync_to_collection Sync_Calendar True) = Inr DT_Calendar
   \<and> Coll_ContactCard \<in> {sync_to_collection (sync_of_collection Coll_ContactCard) True,
       sync_to_collection (sync_of_collection Coll_ContactCard) False}"
  using sync_collections_agree [of Sync_Calendar True Coll_ContactCard Coll_AddressBook] by simp

text \<open>
  For ranges and components that are not empty, both readings of the time-range test of
  RFC 4791 say that the half-open intervals share an instant.
\<close>

theorem time_range_overlap:
  assumes "tr_start tr < tr_end tr" "s < e"
  shows "is_in_range tr match_overlap s e
    \<longleftrightarrow> (\<exists>t. tr_start tr \<le> t \<and> t < tr_end tr \<and> s \<le> t \<and> t < e)"
proof -
  have "is_in_range tr match_overlap s e \<longleftrightarrow> max (tr_start tr) s < min (tr_end tr) e"
    using assms by (auto simp: is_in_range_def)
  also have "\<dots> \<longleftrightarrow> (\<exists>t. tr_start tr \<le> t \<and> t < tr_end tr \<and> s \<le> t \<and> t < e)"
    by (auto intro!: exI [of _ "max (tr_start tr) s"])
  finally show ?thesis .
qed

theorem time_range_overlap_witness:
  "is_in_range \<lparr>tr_start = 10, tr_end = 20\<rparr> True 5 11
   \<and> \<not> is_in_range \<lparr>tr_start = 10, tr_end = 20\<rparr> False 20 25"
  using time_range_overlap [of "\<lparr>tr_start = 10, tr_end = 20\<rparr>" 5 11 True]
    time_range_overlap [of "\<lparr>tr_start = 10, tr_end = 20\<rparr>" 20 25 False]
  by auto

end
