(* ===== verification/Roles.thy ===== *)
theory Roles
  imports Bitset MailTypes
begin

text \<open>
  Principals (\<open>crates/directory/src/lib.rs\<close>, \<open>core/principal.rs\<close>) and the permissions
  that roles give them (\<open>crates/common/src/auth/roles.rs\<close>). Roles inherit from parent roles;
  the server walks the role graph with a work list, a stack of suspended work lists and the set of
  roles it has fetched, and caches what it finds. The directory store, the permission enumeration and
  its classification are the fields of a record of parameters; the cache is a map that is passed
  along.
\<close>

subsection \<open>Principals\<close>

datatype principal_type =
    Type_Individual | Type_Group | Type_Resource | Type_Location | Type_List | Type_Other
  | Type_Domain | Type_Tenant | Type_Role | Type_ApiKey | Type_OauthClient

datatype principal_data =
    Password string
  | Tenant u32 | MemberOf u32 | Role u32 | PList u32 | Permission u32 bool
  | DiskQuota u64 | DirectoryQuota u32 principal_type | ObjectQuota u32 collection
  | Description string | PrimaryEmail string | EmailAlias string | Picture string
  | ExternalMember string | Url string | Locale string
  | AppPassword string | OtpAuth string
  | BrandName string | BrandLogoUrl string | BrandTheme string

record principal =
  pr_id :: u32
  pr_typ :: principal_type
  pr_name :: string
  pr_data :: "principal_data list"

text \<open>\<open>Permission::from_id\<close>: the variants are numbered from 0 to \<open>COUNT - 1\<close>.\<close>

definition permission_from_id :: "nat \<Rightarrow> u32 \<Rightarrow> nat option" where
  "permission_from_id permission_count i = (if unat i < permission_count then Some (unat i) else None)"

definition principal_member_of :: "principal \<Rightarrow> u32 list" where
  "principal_member_of p = List.map_filter (\<lambda>d. case d of MemberOf i \<Rightarrow> Some i | _ \<Rightarrow> None) (pr_data p)"

definition principal_roles :: "principal \<Rightarrow> u32 list" where
  "principal_roles p = List.map_filter (\<lambda>d. case d of Role i \<Rightarrow> Some i | _ \<Rightarrow> None) (pr_data p)"

definition principal_permissions :: "nat \<Rightarrow> principal \<Rightarrow> (nat \<times> bool) list" where
  "principal_permissions permission_count p =
     List.map_filter (\<lambda>d. case d of
         Permission permission_id grant \<Rightarrow>
           map_option (\<lambda>permission. (permission, grant)) (permission_from_id permission_count permission_id)
       | _ \<Rightarrow> None) (pr_data p)"

definition into_email_addresses :: "principal \<Rightarrow> string list" where
  "into_email_addresses p =
     List.map_filter (\<lambda>d. case d of PrimaryEmail e \<Rightarrow> Some e | EmailAlias e \<Rightarrow> Some e | _ \<Rightarrow> None) (pr_data p)"

fun find_map :: "('a \<Rightarrow> 'b option) \<Rightarrow> 'a list \<Rightarrow> 'b option" where
  "find_map f [] = None"
| "find_map f (x # xs) = (case f x of Some y \<Rightarrow> Some y | None \<Rightarrow> find_map f xs)"

definition principal_quota :: "principal \<Rightarrow> u64 option" where
  "principal_quota p =
     find_map (\<lambda>d. case d of DiskQuota q \<Rightarrow> if q > 0 then Some q else None | _ \<Rightarrow> None) (pr_data p)"

subsection \<open>Roles\<close>

definition ROLE_ADMIN :: u32 where "ROLE_ADMIN = - 1"
definition ROLE_TENANT_ADMIN :: u32 where "ROLE_TENANT_ADMIN = - 1 - 1"
definition ROLE_USER :: u32 where "ROLE_USER = - 1 - 2"

datatype auth_error =
    StoreError | PrincipalNotFound u32 | TenantNotFound u32 | DataCorruption u32 | AccountNotFound
  | Unauthorized | Panic

record role_permissions =
  rp_enabled :: bitset
  rp_disabled :: bitset

text \<open>
  What the role code takes from the rest of the server: the number of permissions, which of them
  are for users and for tenant administrators, and the directory store's query by identifier.
\<close>

record role_env =
  re_permission_count :: nat
  re_is_user_permission :: "nat \<Rightarrow> bool"
  re_is_tenant_admin_permission :: "nat \<Rightarrow> bool"
  re_query :: "u32 \<Rightarrow> auth_error + principal option"

text \<open>\<open>PERMISSIONS_BITSET_SIZE\<close>\<close>

definition bitset_size :: "role_env \<Rightarrow> nat" where
  "bitset_size env = (re_permission_count env + 3) div 4"

definition rp_default :: "role_env \<Rightarrow> role_permissions" where
  "rp_default env = \<lparr>rp_enabled = bs_new (bitset_size env), rp_disabled = bs_new (bitset_size env)\<rparr>"

definition rp_union :: "role_permissions \<Rightarrow> role_permissions \<Rightarrow> role_permissions" where
  "rp_union a b = \<lparr>rp_enabled = bs_union (rp_enabled a) (rp_enabled b),
                   rp_disabled = bs_union (rp_disabled a) (rp_disabled b)\<rparr>"

definition rp_finalize :: "role_permissions \<Rightarrow> bitset" where
  "rp_finalize rp = bs_difference (rp_enabled rp) (rp_disabled rp)"

fun set_enabled :: "(nat \<Rightarrow> bool) \<Rightarrow> role_permissions \<Rightarrow> nat list \<Rightarrow> role_permissions option" where
  "set_enabled pick rp [] = Some rp"
| "set_enabled pick rp (i # is) =
     (if pick i
      then (case bs_set (rp_enabled rp) i of
              Some b \<Rightarrow> set_enabled pick (rp\<lparr>rp_enabled := b\<rparr>) is
            | None \<Rightarrow> None)
      else set_enabled pick rp is)"

definition tenant_admin_permissions :: "role_env \<Rightarrow> role_permissions option" where
  "tenant_admin_permissions env =
     set_enabled (re_is_tenant_admin_permission env) (rp_default env) [0..<re_permission_count env]"

definition user_permissions :: "role_env \<Rightarrow> role_permissions option" where
  "user_permissions env =
     set_enabled (re_is_user_permission env) (rp_default env) [0..<re_permission_count env]"

definition admin_permissions :: "role_env \<Rightarrow> role_permissions" where
  "admin_permissions env =
     \<lparr>rp_enabled = bs_all (bitset_size env), rp_disabled = bs_new (bitset_size env)\<rparr>"

fun add_grants :: "role_permissions \<Rightarrow> (nat \<times> bool) list \<Rightarrow> role_permissions option" where
  "add_grants rp [] = Some rp"
| "add_grants rp ((permission, grant) # ps) =
     (if grant
      then (case bs_set (rp_enabled rp) permission of
              Some b \<Rightarrow> add_grants (rp\<lparr>rp_enabled := b\<rparr>) ps
            | None \<Rightarrow> None)
      else (case bs_set (rp_disabled rp) permission of
              Some b \<Rightarrow> add_grants (rp\<lparr>rp_disabled := b\<rparr>) ps
            | None \<Rightarrow> None))"

type_synonym role_cache = "u32 \<Rightarrow> role_permissions option"

text \<open>
  The loop of \<open>build_role_permissions\<close>. \<open>ids\<close> is the current iterator, the head of
  \<open>stack\<close> is the iterator suspended last. The loop ends since every identifier is fetched at
  most once and there are finitely many.
\<close>

function build_role_loop ::
  "role_env \<Rightarrow> u32 list \<Rightarrow> u32 list list \<Rightarrow> u32 set \<Rightarrow> role_permissions \<Rightarrow> role_cache
   \<Rightarrow> auth_error + role_permissions \<times> role_cache" where
  "build_role_loop env ids stack fetched rp cache =
     (case ids of
        role_id # ids' \<Rightarrow>
          if role_id \<in> fetched then build_role_loop env ids' stack fetched rp cache
          else if role_id = ROLE_USER then
            (case user_permissions env of
               None \<Rightarrow> Inl Panic
             | Some up \<Rightarrow> build_role_loop env ids' stack (insert role_id fetched) (rp_union rp up) cache)
          else if role_id = ROLE_ADMIN then Inr (rp_union rp (admin_permissions env), cache)
          else if role_id = ROLE_TENANT_ADMIN then
            (case tenant_admin_permissions env of
               None \<Rightarrow> Inl Panic
             | Some tp \<Rightarrow> build_role_loop env ids' stack (insert role_id fetched) (rp_union rp tp) cache)
          else (case cache role_id of
              Some cached \<Rightarrow>
                build_role_loop env ids' stack (insert role_id fetched) (rp_union rp cached) cache
            | None \<Rightarrow>
                (case re_query env role_id of
                   Inl e \<Rightarrow> Inl e
                 | Inr None \<Rightarrow> Inl (PrincipalNotFound role_id)
                 | Inr (Some p) \<Rightarrow>
                     (case add_grants (rp_default env)
                             (principal_permissions (re_permission_count env) p) of
                        None \<Rightarrow> Inl Panic
                      | Some own \<Rightarrow>
                          if principal_roles p \<noteq> []
                          then build_role_loop env (principal_roles p) (ids' # stack)
                                 (insert role_id fetched) (rp_union rp own) cache
                          else build_role_loop env ids' stack (insert role_id fetched)
                                 (rp_union rp own) (cache(role_id \<mapsto> own)))))
      | [] \<Rightarrow>
          (case stack of
             prev # stack' \<Rightarrow> build_role_loop env prev stack' fetched rp cache
           | [] \<Rightarrow> Inr (rp, cache)))"
  by pat_completeness auto
termination
proof (relation "inv_image (less_than <*lex*> less_than)
    (\<lambda>(env, ids, stack, fetched, rp, cache). (card (- fetched), length ids + sum_list (map (Suc \<circ> length) stack)))")
qed (auto intro!: psubset_card_mono)

declare build_role_loop.simps [simp del]

definition build_role_permissions ::
  "role_env \<Rightarrow> role_cache \<Rightarrow> u32 \<Rightarrow> auth_error + role_permissions \<times> role_cache" where
  "build_role_permissions env cache role_id = build_role_loop env [role_id] [] {} (rp_default env) cache"

definition get_role_permissions ::
  "role_env \<Rightarrow> role_cache \<Rightarrow> u32 \<Rightarrow> auth_error + role_permissions \<times> role_cache" where
  "get_role_permissions env cache role_id =
     (if role_id = ROLE_USER
      then (case user_permissions env of None \<Rightarrow> Inl Panic | Some p \<Rightarrow> Inr (p, cache))
      else if role_id = ROLE_ADMIN then Inr (admin_permissions env, cache)
      else if role_id = ROLE_TENANT_ADMIN
      then (case tenant_admin_permissions env of None \<Rightarrow> Inl Panic | Some p \<Rightarrow> Inr (p, cache))
      else (case cache role_id of
              Some permissions \<Rightarrow> Inr (permissions, cache)
            | None \<Rightarrow>
                (case build_role_permissions env cache role_id of
                   Inl e \<Rightarrow> Inl e
                 | Inr (permissions, cache') \<Rightarrow> Inr (permissions, cache'(role_id \<mapsto> permissions)))))"

subsection \<open>Permission sets\<close>

text \<open>Permissions as a set of grants and denials, and the permissions a role gives by itself.\<close>

definition rp_set :: "role_permissions \<Rightarrow> (nat \<times> bool) set" where
  "rp_set rp = bs_elems (rp_enabled rp) \<times> {True} \<union> bs_elems (rp_disabled rp) \<times> {False}"

definition rp_wf :: "role_env \<Rightarrow> role_permissions \<Rightarrow> bool" where
  "rp_wf env rp \<longleftrightarrow> bs_wf (bitset_size env) (rp_enabled rp) \<and> bs_wf (bitset_size env) (rp_disabled rp)"

abbreviation builtin_roles :: "u32 set" where
  "builtin_roles \<equiv> {ROLE_USER, ROLE_ADMIN, ROLE_TENANT_ADMIN}"

definition role_own :: "role_env \<Rightarrow> u32 \<Rightarrow> (nat \<times> bool) set" where
  "role_own env r =
     (if r = ROLE_USER then {i. i < re_permission_count env \<and> re_is_user_permission env i} \<times> {True}
      else if r = ROLE_ADMIN then {i. i div 64 < bitset_size env} \<times> {True}
      else if r = ROLE_TENANT_ADMIN
      then {i. i < re_permission_count env \<and> re_is_tenant_admin_permission env i} \<times> {True}
      else (case re_query env r of
              Inr (Some p) \<Rightarrow> set (principal_permissions (re_permission_count env) p)
            | _ \<Rightarrow> {}))"

definition role_succ :: "role_env \<Rightarrow> u32 \<Rightarrow> u32 set" where
  "role_succ env r =
     (if r \<in> builtin_roles then {}
      else (case re_query env r of Inr (Some p) \<Rightarrow> set (principal_roles p) | _ \<Rightarrow> {}))"

definition role_reach :: "role_env \<Rightarrow> u32 \<Rightarrow> u32 set" where
  "role_reach env r = {x. (r, x) \<in> {(a, b). b \<in> role_succ env a}\<^sup>*}"

definition role_all :: "role_env \<Rightarrow> u32 \<Rightarrow> (nat \<times> bool) set" where
  "role_all env r = (\<Union>x \<in> role_reach env r. role_own env x)"

lemma rp_default_simps [simp]: "rp_wf env (rp_default env)" "rp_set (rp_default env) = {}"
  by (simp_all add: rp_wf_def rp_set_def rp_default_def)

lemma rp_union_simps [simp]:
  "rp_wf env a \<Longrightarrow> rp_wf env b \<Longrightarrow> rp_wf env (rp_union a b)"
  "rp_wf env a \<Longrightarrow> rp_wf env b \<Longrightarrow> rp_set (rp_union a b) = rp_set a \<union> rp_set b"
  by (auto simp: rp_wf_def rp_set_def rp_union_def)

lemma rp_finalize_elems:
  "rp_wf env rp \<Longrightarrow> bs_elems (rp_finalize rp) = {i. (i, True) \<in> rp_set rp \<and> (i, False) \<notin> rp_set rp}"
  by (auto simp: rp_wf_def rp_set_def rp_finalize_def)

lemma permission_fits: "i < re_permission_count env \<Longrightarrow> i div 64 < bitset_size env"
proof -
  assume "i < re_permission_count env"
  moreover have "i div 64 \<le> i div 4" by (rule div_le_mono2) simp_all
  ultimately show ?thesis unfolding bitset_size_def by linarith
qed

lemma set_enabled_spec:
  "rp_wf env rp \<Longrightarrow> \<forall>i \<in> set is. i < re_permission_count env \<Longrightarrow>
     \<exists>rp'. set_enabled pick rp is = Some rp' \<and> rp_wf env rp'
       \<and> rp_set rp' = rp_set rp \<union> {i \<in> set is. pick i} \<times> {True}"
proof (induction "is" arbitrary: rp)
  case (Cons i "is")
  then have i: "i div 64 < bitset_size env" by (simp add: permission_fits)
  then obtain b where b: "bs_set (rp_enabled rp) i = Some b" "bs_wf (bitset_size env) b"
      "bs_elems b = insert i (bs_elems (rp_enabled rp))"
    using bs_set_Some Cons.prems(1) unfolding rp_wf_def by blast
  show ?case
  proof (cases "pick i")
    case True
    have "rp_wf env (rp\<lparr>rp_enabled := b\<rparr>)" using Cons.prems(1) b by (simp add: rp_wf_def)
    from Cons.IH [OF this] Cons.prems(2) obtain rp' where
      "set_enabled pick (rp\<lparr>rp_enabled := b\<rparr>) is = Some rp'" "rp_wf env rp'"
      "rp_set rp' = rp_set (rp\<lparr>rp_enabled := b\<rparr>) \<union> {i \<in> set is. pick i} \<times> {True}" by auto
    then show ?thesis using True b by (auto simp: rp_set_def)
  next
    case False
    then have "{j \<in> set (i # is). pick j} = {j \<in> set is. pick j}" by auto
    then show ?thesis using False Cons.IH [OF Cons.prems(1)] Cons.prems(2) by simp
  qed
qed simp

lemma add_grants_spec:
  "rp_wf env rp \<Longrightarrow> \<forall>(i, g) \<in> set ps. i < re_permission_count env \<Longrightarrow>
     \<exists>rp'. add_grants rp ps = Some rp' \<and> rp_wf env rp' \<and> rp_set rp' = rp_set rp \<union> set ps"
proof (induction ps arbitrary: rp)
  case (Cons x ps)
  obtain i g where x: "x = (i, g)" by force
  then have i: "i div 64 < bitset_size env" using Cons.prems(2) by (simp add: permission_fits)
  then obtain b where b: "bs_set (rp_enabled rp) i = Some b" "bs_wf (bitset_size env) b"
      "bs_elems b = insert i (bs_elems (rp_enabled rp))"
    using bs_set_Some Cons.prems(1) unfolding rp_wf_def by blast
  from i obtain c where c: "bs_set (rp_disabled rp) i = Some c" "bs_wf (bitset_size env) c"
      "bs_elems c = insert i (bs_elems (rp_disabled rp))"
    using bs_set_Some Cons.prems(1) unfolding rp_wf_def by blast
  define rp1 where "rp1 = (if g then rp\<lparr>rp_enabled := b\<rparr> else rp\<lparr>rp_disabled := c\<rparr>)"
  have "rp_wf env rp1" using Cons.prems(1) b c by (simp add: rp_wf_def rp1_def)
  from Cons.IH [OF this] Cons.prems(2) obtain rp' where
    "add_grants rp1 ps = Some rp'" "rp_wf env rp'" "rp_set rp' = rp_set rp1 \<union> set ps" by auto
  moreover have "rp_set rp1 = insert x (rp_set rp)" using b c by (cases g) (auto simp: rp_set_def rp1_def x)
  ultimately show ?case using b c by (cases g) (auto simp: x rp1_def)
qed simp

lemma principal_permissions_small: "\<forall>(i, g) \<in> set (principal_permissions n p). i < n"
  by (auto simp: principal_permissions_def permission_from_id_def List.map_filter_def
      split: principal_data.splits if_splits)

lemma builtin_spec:
  "\<exists>up. user_permissions env = Some up \<and> rp_wf env up \<and> rp_set up = role_own env ROLE_USER"
  "\<exists>tp. tenant_admin_permissions env = Some tp \<and> rp_wf env tp \<and> rp_set tp = role_own env ROLE_TENANT_ADMIN"
  "rp_wf env (admin_permissions env)" "rp_set (admin_permissions env) = role_own env ROLE_ADMIN"
proof -
  have ne: "ROLE_USER \<noteq> ROLE_ADMIN" "ROLE_TENANT_ADMIN \<noteq> ROLE_USER" "ROLE_TENANT_ADMIN \<noteq> ROLE_ADMIN"
    by (simp_all add: ROLE_USER_def ROLE_ADMIN_def ROLE_TENANT_ADMIN_def)
  show "\<exists>up. user_permissions env = Some up \<and> rp_wf env up \<and> rp_set up = role_own env ROLE_USER"
    using set_enabled_spec [OF rp_default_simps(1), of "[0..<re_permission_count env]" env "re_is_user_permission env"]
    by (auto simp: user_permissions_def role_own_def)
  show "\<exists>tp. tenant_admin_permissions env = Some tp \<and> rp_wf env tp \<and> rp_set tp = role_own env ROLE_TENANT_ADMIN"
    using set_enabled_spec [OF rp_default_simps(1), of "[0..<re_permission_count env]" env "re_is_tenant_admin_permission env"] ne
    by (auto simp: tenant_admin_permissions_def role_own_def)
  show "rp_wf env (admin_permissions env)" "rp_set (admin_permissions env) = role_own env ROLE_ADMIN"
    using ne by (auto simp: rp_wf_def rp_set_def admin_permissions_def role_own_def)
qed

subsection \<open>The walk over the role graph\<close>

text \<open>
  The invariant of the walk from \<open>s\<close>: \<open>F\<close> are the fetched roles, \<open>W\<close> the roles
  waiting, \<open>P\<close> the permissions collected. A fetched role has given either everything it
  inherits or its own permissions, and then its parents are fetched or waiting.
\<close>

definition visit_inv ::
  "role_env \<Rightarrow> u32 \<Rightarrow> u32 set \<Rightarrow> u32 set \<Rightarrow> (nat \<times> bool) set \<Rightarrow> bool" where
  "visit_inv env s F W P \<longleftrightarrow> s \<in> F \<union> W \<and> F \<union> W \<subseteq> role_reach env s \<and> P \<subseteq> role_all env s
     \<and> (\<forall>f \<in> F. role_all env f \<subseteq> P \<or> (role_own env f \<subseteq> P \<and> role_succ env f \<subseteq> F \<union> W))"

lemma reach_refl [simp]: "r \<in> role_reach env r"
  by (simp add: role_reach_def)

lemma reach_succ: "r \<in> role_reach env s \<Longrightarrow> role_succ env r \<subseteq> role_reach env s"
  by (auto simp: role_reach_def intro: rtrancl_into_rtrancl)

lemma reach_all: "r \<in> role_reach env s \<Longrightarrow> role_all env r \<subseteq> role_all env s"
  by (auto simp: role_all_def role_reach_def intro: rtrancl_trans)

lemma own_all: "r \<in> role_reach env s \<Longrightarrow> role_own env r \<subseteq> role_all env s"
  by (auto simp: role_all_def)

lemma visit_start: "visit_inv env s {} {s} {}"
  by (simp add: visit_inv_def)

lemma visit_skip: "visit_inv env s F (insert r W) P \<Longrightarrow> r \<in> F \<Longrightarrow> visit_inv env s F W P"
  unfolding visit_inv_def by blast

lemma visit_own:
  "visit_inv env s F (insert r W) P \<Longrightarrow>
     visit_inv env s (insert r F) (role_succ env r \<union> W) (P \<union> role_own env r)"
  using reach_succ [of r env s] own_all [of r env s] unfolding visit_inv_def by blast

lemma visit_all:
  "visit_inv env s F (insert r W) P \<Longrightarrow> visit_inv env s (insert r F) W (P \<union> role_all env r)"
  using reach_all [of r env s] unfolding visit_inv_def by blast

lemma visit_end: "visit_inv env s F {} P \<Longrightarrow> P = role_all env s"
proof
  assume v: "visit_inv env s F {} P"
  then show "P \<subseteq> role_all env s" by (simp add: visit_inv_def)
  have "role_own env x \<subseteq> P" if "(f, x) \<in> {(a, b). b \<in> role_succ env a}\<^sup>*" "f \<in> F" for f x
    using that
  proof (induction rule: converse_rtrancl_induct)
    case base
    then show ?case using v own_all [OF reach_refl] unfolding visit_inv_def by blast
  next
    case (step y z)
    from step.prems v have "role_all env y \<subseteq> P \<or> z \<in> F" using step.hyps(1) unfolding visit_inv_def by blast
    then show ?case
    proof
      assume "role_all env y \<subseteq> P"
      moreover have "x \<in> role_reach env y"
        using converse_rtrancl_into_rtrancl [OF step.hyps(1,2)] by (simp add: role_reach_def)
      ultimately show ?thesis using own_all by blast
    qed (rule step.IH)
  qed
  then show "role_all env s \<subseteq> P" using v by (auto simp: role_all_def role_reach_def visit_inv_def)
qed

text \<open>What the cache may hold, and when the walk cannot fail or stop early.\<close>

definition cache_ok :: "role_env \<Rightarrow> role_cache \<Rightarrow> bool" where
  "cache_ok env cache \<longleftrightarrow> (\<forall>r rp. cache r = Some rp \<longrightarrow> rp_wf env rp \<and> rp_set rp = role_all env r)"

definition roles_known :: "role_env \<Rightarrow> u32 \<Rightarrow> bool" where
  "roles_known env s \<longleftrightarrow>
     (\<forall>r \<in> role_reach env s. r \<noteq> ROLE_ADMIN \<and> (r \<in> builtin_roles \<or> (\<exists>p. re_query env r = Inr (Some p))))"

lemma builtin_all: "r \<in> builtin_roles \<Longrightarrow> role_succ env r = {}"
  by (simp add: role_succ_def)

lemma leaf_all: "role_succ env r = {} \<Longrightarrow> role_all env r = role_own env r"
proof -
  assume leaf: "role_succ env r = {}"
  have "x = r" if "(r, x) \<in> {(a, b). b \<in> role_succ env a}\<^sup>*" for x
    using that by (cases rule: converse_rtranclE) (simp_all add: leaf)
  then have "role_reach env r = {r}" by (auto simp: role_reach_def)
  then show ?thesis by (simp add: role_all_def)
qed

lemma custom_own_succ:
  assumes "re_query env r = Inr (Some p)" "r \<notin> builtin_roles"
  shows "role_own env r = set (principal_permissions (re_permission_count env) p)"
    and "role_succ env r = set (principal_roles p)"
  using assms by (auto simp: role_own_def role_succ_def)

abbreviation waiting :: "u32 list \<Rightarrow> u32 list list \<Rightarrow> u32 set" where
  "waiting ids stack \<equiv> set ids \<union> (\<Union>is \<in> set stack. set is)"

lemma build_role_loop_pop:
  "build_role_loop env [] [] fetched rp cache = Inr (rp, cache)"
  "build_role_loop env [] (prev # stack) fetched rp cache = build_role_loop env prev stack fetched rp cache"
  "r \<in> fetched \<Longrightarrow>
     build_role_loop env (r # ids) stack fetched rp cache = build_role_loop env ids stack fetched rp cache"
  by (simp_all add: build_role_loop.simps [of env "[]"] build_role_loop.simps [of env "r # ids"])

text \<open>Fetching a role is one step of the walk that keeps the invariant.\<close>

lemma build_role_loop_fetch:
  assumes known: "roles_known env s" and cok: "cache_ok env cache" and wf: "rp_wf env rp"
    and inv: "visit_inv env s fetched (insert r (waiting ids stack)) (rp_set rp)" and r: "r \<notin> fetched"
  shows "\<exists>ids' stack' rp' cache'.
      build_role_loop env (r # ids) stack fetched rp cache
        = build_role_loop env ids' stack' (insert r fetched) rp' cache'
      \<and> cache_ok env cache' \<and> rp_wf env rp'
      \<and> visit_inv env s (insert r fetched) (waiting ids' stack') (rp_set rp')"
proof -
  have reach: "r \<in> role_reach env s" using inv by (simp add: visit_inv_def)
  then have admin: "r \<noteq> ROLE_ADMIN" using known by (simp add: roles_known_def)
  note un = rp_union_simps(2) [OF wf]
  note step = build_role_loop.simps [of env "r # ids"] r admin wf cok un
  note own = visit_own [OF inv]
  consider "r = ROLE_USER" | "r = ROLE_TENANT_ADMIN" "r \<noteq> ROLE_USER" | "r \<notin> builtin_roles"
    using admin by blast
  then show ?thesis
  proof cases
    case 1
    obtain up where "user_permissions env = Some up" "rp_wf env up" "rp_set up = role_own env r"
      using builtin_spec(1) 1 by blast
    then show ?thesis using own builtin_all [of r env] 1 r
      by (intro exI [of _ ids] exI [of _ stack] exI [of _ "rp_union rp up"] exI [of _ cache])
        (simp add: build_role_loop.simps [of env "ROLE_USER # ids"] wf cok un)
  next
    case 2
    obtain tp where "tenant_admin_permissions env = Some tp" "rp_wf env tp" "rp_set tp = role_own env r"
      using builtin_spec(2) 2 by blast
    then show ?thesis using own builtin_all [of r env] 2 admin r
      by (intro exI [of _ ids] exI [of _ stack] exI [of _ "rp_union rp tp"] exI [of _ cache])
        (simp add: build_role_loop.simps [of env "ROLE_TENANT_ADMIN # ids"] wf cok un)
  next
    case 3
    obtain p where q: "re_query env r = Inr (Some p)" using known reach 3 by (auto simp: roles_known_def)
    note os = custom_own_succ [OF q 3]
    obtain g where g: "add_grants (rp_default env) (principal_permissions (re_permission_count env) p) = Some g"
        "rp_wf env g" "rp_set g = role_own env r"
      using add_grants_spec [OF rp_default_simps(1) principal_permissions_small] os by fastforce
    show ?thesis
    proof (cases "cache r")
      case (Some cached)
      then have "rp_wf env cached" "rp_set cached = role_all env r" using cok by (simp_all add: cache_ok_def)
      then show ?thesis using visit_all [OF inv] 3 Some
        by (intro exI [of _ ids] exI [of _ stack] exI [of _ "rp_union rp cached"] exI [of _ cache])
          (simp add: step)
    next
      case None
      show ?thesis
      proof (cases "principal_roles p = []")
        case True
        then have "role_all env r = role_own env r" using leaf_all os by simp
        then have "cache_ok env (cache(r \<mapsto> g))" using cok g by (simp add: cache_ok_def)
        then show ?thesis using own os g 3 None q True
          by (intro exI [of _ ids] exI [of _ stack] exI [of _ "rp_union rp g"] exI [of _ "cache(r \<mapsto> g)"])
            (simp add: step)
      next
        case False
        then show ?thesis using own os g 3 None q
          by (intro exI [of _ "principal_roles p"] exI [of _ "ids # stack"] exI [of _ "rp_union rp g"]
              exI [of _ cache]) (simp add: step Un_assoc)
      qed
    qed
  qed
qed

lemma build_role_loop_correct:
  assumes "roles_known env s"
  shows "cache_ok env cache \<Longrightarrow> rp_wf env rp \<Longrightarrow>
     visit_inv env s fetched (waiting ids stack) (rp_set rp) \<Longrightarrow>
     \<exists>rp' cache'. build_role_loop env ids stack fetched rp cache = Inr (rp', cache')
       \<and> rp_wf env rp' \<and> rp_set rp' = role_all env s \<and> cache_ok env cache'"
proof (induction "(card (- fetched), length ids + sum_list (map (Suc \<circ> length) stack))"
    arbitrary: ids stack fetched rp cache rule: wf_induct_rule [OF wf_lex_prod [OF wf_less_than wf_less_than]])
  case 1
  show ?case
  proof (cases ids)
    case Nil
    then show ?thesis
      using "1.hyps" [of fetched _ "tl stack"] "1.prems" visit_end [of env s fetched "rp_set rp"]
      by (cases stack) (simp_all add: build_role_loop_pop)
  next
    case (Cons r ids')
    then have inv: "visit_inv env s fetched (insert r (waiting ids' stack)) (rp_set rp)"
      using "1.prems"(3) by simp
    show ?thesis
    proof (cases "r \<in> fetched")
      case True
      then show ?thesis
        using "1.hyps" [of fetched ids' stack] "1.prems" visit_skip [OF inv True] Cons
        by (simp add: build_role_loop_pop)
    next
      case False
      have "card (- insert r fetched) < card (- fetched)"
        using False by (intro psubset_card_mono) auto
      then show ?thesis
        using build_role_loop_fetch [OF assms "1.prems"(1,2) inv False] "1.hyps" Cons by fastforce
    qed
  qed
qed

subsection \<open>Properties\<close>


text \<open>
  A directory with a cycle: role 1 inherits from 2 and 3, role 2 inherits from 1 and grants
  permission 1, which role 3 denies.
\<close>

definition cyclic_roles :: role_env where
  "cyclic_roles =
     \<lparr>re_permission_count = 4, re_is_user_permission = (\<lambda>i. i < 2),
      re_is_tenant_admin_permission = (\<lambda>i. i < 3),
      re_query = (\<lambda>i.
        if i = 1 then Inr (Some \<lparr>pr_id = 1, pr_typ = Type_Role, pr_name = ''a'',
                                 pr_data = [Permission 0 True, Role 2, Role 3]\<rparr>)
        else if i = 2 then Inr (Some \<lparr>pr_id = 2, pr_typ = Type_Role, pr_name = ''b'',
                                      pr_data = [Role 1, Permission 1 True]\<rparr>)
        else if i = 3 then Inr (Some \<lparr>pr_id = 3, pr_typ = Type_Role, pr_name = ''c'',
                                      pr_data = [Permission 1 False]\<rparr>)
        else Inr None)\<rparr>"

lemma role_reach_subset:
  assumes "r \<in> S" "\<forall>x \<in> S. role_succ env x \<subseteq> S"
  shows "role_reach env r \<subseteq> S"
proof
  fix x assume "x \<in> role_reach env r"
  then have "(r, x) \<in> {(a, b). b \<in> role_succ env a}\<^sup>*" by (simp add: role_reach_def)
  then show "x \<in> S" using assms by (induction rule: rtrancl_induct) auto
qed

lemma cyclic_roles_known: "roles_known cyclic_roles 1"
proof -
  have "role_reach cyclic_roles 1 \<subseteq> {1, 2, 3}"
    by (rule role_reach_subset)
      (simp_all add: role_succ_def cyclic_roles_def principal_roles_def List.map_filter_def
        ROLE_ADMIN_def ROLE_USER_def ROLE_TENANT_ADMIN_def)
  moreover have "\<forall>r \<in> {1, 2, 3}. r \<noteq> ROLE_ADMIN
      \<and> (r \<in> builtin_roles \<or> (\<exists>p. re_query cyclic_roles r = Inr (Some p)))"
    by (simp add: cyclic_roles_def ROLE_ADMIN_def)
  ultimately show ?thesis unfolding roles_known_def by blast
qed


text \<open>
  The administrator role cuts the walk short: as soon as it is the next role of a role that is
  neither built in nor cached, its permissions are added and every role that waits behind it, denials
  included, is left out.
\<close>

theorem role_admin_ends_walk:
  assumes "role_id \<notin> builtin_roles" "cache role_id = None" "re_query env role_id = Inr (Some p)"
    and "principal_roles p = ROLE_ADMIN # others"
  shows "\<exists>rp. get_role_permissions env cache role_id = Inr (rp, cache(role_id \<mapsto> rp))
    \<and> rp_set rp = role_own env role_id \<union> role_own env ROLE_ADMIN"
proof -
  obtain g where g: "add_grants (rp_default env) (principal_permissions (re_permission_count env) p) = Some g"
      "rp_wf env g" "rp_set g = role_own env role_id"
    using add_grants_spec [OF rp_default_simps(1) principal_permissions_small] custom_own_succ [OF assms(3,1)]
    by fastforce
  let ?rp = "rp_union (rp_union (rp_default env) g) (admin_permissions env)"
  have "build_role_loop env [role_id] [] {} (rp_default env) cache
      = build_role_loop env (ROLE_ADMIN # others) [[]] {role_id} (rp_union (rp_default env) g) cache"
    using assms g by (simp add: build_role_loop.simps [of env "[role_id]"])
  also have "\<dots> = Inr (?rp, cache)"
  proof -
    have "ROLE_ADMIN \<noteq> ROLE_USER" by (simp add: ROLE_ADMIN_def ROLE_USER_def)
    then show ?thesis using assms(1) by (auto simp: build_role_loop.simps [of env "ROLE_ADMIN # others"])
  qed
  finally have "get_role_permissions env cache role_id = Inr (?rp, cache(role_id \<mapsto> ?rp))"
    using assms by (simp add: get_role_permissions_def build_role_permissions_def)
  moreover have "rp_set ?rp = role_own env role_id \<union> role_own env ROLE_ADMIN"
    using rp_union_simps(2) [OF rp_union_simps(1) [OF rp_default_simps(1) g(2)] builtin_spec(3)]
      rp_union_simps(2) [OF rp_default_simps(1) g(2)] builtin_spec(4) g(3) by simp
  ultimately show ?thesis by blast
qed

definition admin_then_deny :: role_env where
  "admin_then_deny = cyclic_roles\<lparr>re_query := (\<lambda>i.
     if i = 1 then Inr (Some \<lparr>pr_id = 1, pr_typ = Type_Role, pr_name = ''a'', pr_data = [Role ROLE_ADMIN, Role 3]\<rparr>)
     else re_query cyclic_roles i)\<rparr>"

theorem role_admin_ends_walk_witness:
  "\<exists>rp. get_role_permissions admin_then_deny Map.empty 1 = Inr (rp, Map.empty(1 \<mapsto> rp))
    \<and> rp_set rp = role_own admin_then_deny 1 \<union> role_own admin_then_deny ROLE_ADMIN"
  by (rule role_admin_ends_walk [where others = "[3]" and
      p = "\<lparr>pr_id = 1, pr_typ = Type_Role, pr_name = ''a'', pr_data = [Role ROLE_ADMIN, Role 3]\<rparr>"])
    (simp_all add: admin_then_deny_def principal_roles_def List.map_filter_def
      ROLE_ADMIN_def ROLE_USER_def ROLE_TENANT_ADMIN_def)

end
