(* ===== verification/VecMap.thy ===== *)
theory VecMap
  imports Prelude
begin

text \<open>
  The vector-backed map of \<open>crates/utils/src/map/vec_map.rs\<close>, used for small maps such as
  the accounts an access token can reach. A mutable reference to a value (\<open>get_mut\<close>,
  \<open>get_mut_or_insert_with\<close>) is the value paired with the function that writes it back.
  Operations that panic on a bad index return an option. The locale \<open>keyed_map\<close> states what
  a client of a map relies on.
\<close>

subsection \<open>Operations\<close>

datatype ('k, 'v) key_value = KeyValue (kv_key: 'k) (kv_value: 'v)

datatype ('k, 'v) vec_map = VecMap (inner: "('k, 'v) key_value list")

fun position :: "('a \<Rightarrow> bool) \<Rightarrow> 'a list \<Rightarrow> nat option" where
  "position P [] = None"
| "position P (x # xs) = (if P x then Some 0 else map_option Suc (position P xs))"

definition remove_nth :: "nat \<Rightarrow> 'a list \<Rightarrow> 'a list" where
  "remove_nth n xs = take n xs @ drop (Suc n) xs"

definition vm_new :: "('k, 'v) vec_map" where
  "vm_new = VecMap []"

definition vm_append :: "('k, 'v) vec_map \<Rightarrow> 'k \<Rightarrow> 'v \<Rightarrow> ('k, 'v) vec_map" where
  "vm_append m key value = VecMap (inner m @ [KeyValue key value])"

definition vm_set :: "('k, 'v) vec_map \<Rightarrow> 'k \<Rightarrow> 'v \<Rightarrow> ('k, 'v) vec_map \<times> bool" where
  "vm_set m key value =
     (case position (\<lambda>kv. kv_key kv = key) (inner m) of
        Some pos \<Rightarrow> (VecMap ((inner m)[pos := KeyValue (kv_key (inner m ! pos)) value]), False)
      | None \<Rightarrow> (VecMap (inner m @ [KeyValue key value]), True))"

definition vm_insert :: "('k, 'v) vec_map \<Rightarrow> nat \<Rightarrow> 'k \<Rightarrow> 'v \<Rightarrow> ('k, 'v) vec_map option" where
  "vm_insert m idx key value =
     (if idx \<le> length (inner m)
      then Some (VecMap (take idx (inner m) @ KeyValue key value # drop idx (inner m)))
      else None)"

definition vm_get :: "('k, 'v) vec_map \<Rightarrow> 'k \<Rightarrow> 'v option" where
  "vm_get m key = map_option kv_value (find (\<lambda>kv. kv_key kv = key) (inner m))"

definition vm_get_mut :: "('k, 'v) vec_map \<Rightarrow> 'k \<Rightarrow> ('v \<times> ('v \<Rightarrow> ('k, 'v) vec_map)) option" where
  "vm_get_mut m key =
     (case position (\<lambda>kv. kv_key kv = key) (inner m) of
        Some pos \<Rightarrow> Some (kv_value (inner m ! pos),
          \<lambda>v. VecMap ((inner m)[pos := KeyValue (kv_key (inner m ! pos)) v]))
      | None \<Rightarrow> None)"

definition vm_contains_key :: "('k, 'v) vec_map \<Rightarrow> 'k \<Rightarrow> bool" where
  "vm_contains_key m key = list_ex (\<lambda>kv. kv_key kv = key) (inner m)"

definition vm_remove :: "('k, 'v) vec_map \<Rightarrow> 'k \<Rightarrow> ('k, 'v) vec_map \<times> 'v option" where
  "vm_remove m key =
     (case position (\<lambda>kv. kv_key kv = key) (inner m) of
        Some pos \<Rightarrow> (VecMap (remove_nth pos (inner m)), Some (kv_value (inner m ! pos)))
      | None \<Rightarrow> (m, None))"

definition vm_remove_all :: "('k, 'v) vec_map \<Rightarrow> 'k \<Rightarrow> ('k, 'v) vec_map" where
  "vm_remove_all m key = VecMap (filter (\<lambda>kv. kv_key kv \<noteq> key) (inner m))"

definition vm_remove_entry :: "('k, 'v) vec_map \<Rightarrow> 'k \<Rightarrow> ('k, 'v) vec_map \<times> ('k \<times> 'v) option" where
  "vm_remove_entry m key =
     (case position (\<lambda>kv. kv_key kv = key) (inner m) of
        Some pos \<Rightarrow> (let kv = inner m ! pos
                      in (VecMap (remove_nth pos (inner m)), Some (kv_key kv, kv_value kv)))
      | None \<Rightarrow> (m, None))"

text \<open>\<open>Vec::swap_remove\<close> puts the last element into the hole.\<close>

definition vm_swap_remove :: "('k, 'v) vec_map \<Rightarrow> nat \<Rightarrow> (('k, 'v) vec_map \<times> 'v) option" where
  "vm_swap_remove m index =
     (if index < length (inner m)
      then Some (VecMap (butlast ((inner m)[index := last (inner m)])), kv_value (inner m ! index))
      else None)"

definition vm_is_empty :: "('k, 'v) vec_map \<Rightarrow> bool" where
  "vm_is_empty m \<longleftrightarrow> inner m = []"

definition vm_len :: "('k, 'v) vec_map \<Rightarrow> nat" where
  "vm_len m = length (inner m)"

definition vm_clear :: "('k, 'v) vec_map \<Rightarrow> ('k, 'v) vec_map" where
  "vm_clear m = VecMap []"

definition vm_iter :: "('k, 'v) vec_map \<Rightarrow> ('k \<times> 'v) list" where
  "vm_iter m = map (\<lambda>kv. (kv_key kv, kv_value kv)) (inner m)"

definition vm_iter_by_key :: "('k, 'v) vec_map \<Rightarrow> 'k \<Rightarrow> 'v list" where
  "vm_iter_by_key m key =
     List.map_filter (\<lambda>kv. if kv_key kv = key then Some (kv_value kv) else None) (inner m)"

definition vm_keys :: "('k, 'v) vec_map \<Rightarrow> 'k list" where
  "vm_keys m = map kv_key (inner m)"

definition vm_values :: "('k, 'v) vec_map \<Rightarrow> 'v list" where
  "vm_values m = map kv_value (inner m)"

definition vm_get_mut_or_insert_with ::
  "('k, 'v) vec_map \<Rightarrow> 'k \<Rightarrow> (unit \<Rightarrow> 'v) \<Rightarrow> 'v \<times> ('v \<Rightarrow> ('k, 'v) vec_map)" where
  "vm_get_mut_or_insert_with m key fnc =
     (case position (\<lambda>kv. kv_key kv = key) (inner m) of
        Some pos \<Rightarrow> (kv_value (inner m ! pos),
          \<lambda>v. VecMap ((inner m)[pos := KeyValue (kv_key (inner m ! pos)) v]))
      | None \<Rightarrow> (fnc (), \<lambda>v. VecMap (inner m @ [KeyValue key v])))"

definition vm_from_iter :: "('k \<times> 'v) list \<Rightarrow> ('k, 'v) vec_map" where
  "vm_from_iter kvs = foldl (\<lambda>m (k, v). vm_append m k v) vm_new kvs"

subsection \<open>Positions\<close>

lemma position_Some:
  "position P xs = Some i \<longleftrightarrow> i < length xs \<and> P (xs ! i) \<and> (\<forall>j < i. \<not> P (xs ! j))"
proof (induction xs arbitrary: i)
  case (Cons x xs)
  show ?case
  proof (cases i)
    case 0
    then show ?thesis by (cases "P x") auto
  next
    case (Suc n)
    then show ?thesis using Cons.IH [of n] by (auto simp: nth_Cons All_less_Suc2 split: nat.split)
  qed
qed simp

lemma position_None: "position P xs = None \<longleftrightarrow> (\<forall>x \<in> set xs. \<not> P x)"
  by (induction xs) auto

lemma position_split:
  assumes "position P xs = Some i"
  shows "\<exists>ys x zs. xs = ys @ x # zs \<and> i = length ys \<and> P x \<and> (\<forall>y \<in> set ys. \<not> P y)"
proof -
  from assms have i: "i < length xs" "P (xs ! i)" "\<forall>j < i. \<not> P (xs ! j)" by (simp_all add: position_Some)
  have "xs = take i xs @ xs ! i # drop (Suc i) xs" using i(1) by (simp add: id_take_nth_drop)
  moreover have "\<forall>y \<in> set (take i xs). \<not> P y" using i by (auto simp: in_set_conv_nth)
  moreover have "i = length (take i xs)" using i(1) by simp
  ultimately show ?thesis using i(2) by blast
qed

lemma remove_nth_append [simp]: "remove_nth (length ys) (ys @ x # zs) = ys @ zs"
  by (simp add: remove_nth_def)

subsection \<open>The map interface\<close>

locale keyed_map =
  fixes empty :: 'm
    and lookup :: "'m \<Rightarrow> 'k \<Rightarrow> 'v option"
    and put :: "'m \<Rightarrow> 'k \<Rightarrow> 'v \<Rightarrow> 'm"
    and delete :: "'m \<Rightarrow> 'k \<Rightarrow> 'm"
    and entry :: "'m \<Rightarrow> 'k \<Rightarrow> (unit \<Rightarrow> 'v) \<Rightarrow> 'v \<times> ('v \<Rightarrow> 'm)"
    and entries :: "'m \<Rightarrow> ('k \<times> 'v) list"
    and invar :: "'m \<Rightarrow> bool"
  assumes lookup_empty: "lookup empty = Map.empty"
    and lookup_put: "invar m \<Longrightarrow> lookup (put m k v) = (lookup m)(k \<mapsto> v)"
    and lookup_delete: "invar m \<Longrightarrow> lookup (delete m k) = (lookup m)(k := None)"
    and entry_value: "invar m \<Longrightarrow> fst (entry m k f) = (case lookup m k of Some v \<Rightarrow> v | None \<Rightarrow> f ())"
    and entry_write: "invar m \<Longrightarrow> lookup (snd (entry m k f) v) = (lookup m)(k \<mapsto> v)"
    and entries_lookup: "invar m \<Longrightarrow> (k, v) \<in> set (entries m) \<longleftrightarrow> lookup m k = Some v"
    and entries_distinct: "invar m \<Longrightarrow> distinct (map fst (entries m))"
    and invar_empty: "invar empty"
    and invar_put: "invar m \<Longrightarrow> invar (put m k v)"
    and invar_delete: "invar m \<Longrightarrow> invar (delete m k)"
    and invar_entry: "invar m \<Longrightarrow> invar (snd (entry m k f) v)"
begin

lemmas lookup_laws = lookup_empty lookup_put lookup_delete entry_value entry_write
lemmas invar_laws = invar_empty invar_put invar_delete invar_entry

text \<open>
  Adding contributions key by key: every key ends up with the sum of the contributions made to it,
  in order, starting from its former value or from the default.
\<close>

definition contribute :: "('v \<Rightarrow> 'c \<Rightarrow> 'v) \<Rightarrow> 'v \<Rightarrow> 'm \<Rightarrow> 'k \<times> 'c \<Rightarrow> 'm" where
  "contribute add zero m kc = (case entry m (fst kc) (\<lambda>_. zero) of (v, wr) \<Rightarrow> wr (add v (snd kc)))"

lemma contribute_lookup:
  "invar m \<Longrightarrow> lookup (contribute add zero m kc)
     = (lookup m)(fst kc \<mapsto> add (case lookup m (fst kc) of Some v \<Rightarrow> v | None \<Rightarrow> zero) (snd kc))"
  "invar m \<Longrightarrow> invar (contribute add zero m kc)"
  by (simp_all add: contribute_def case_prod_unfold entry_value entry_write invar_entry)

lemma contributions_lookup:
  "invar m \<Longrightarrow> invar (foldl (contribute add zero) m kcs)
   \<and> lookup (foldl (contribute add zero) m kcs) k
      = (let cs = map snd (filter (\<lambda>kc. fst kc = k) kcs)
         in if cs = [] then lookup m k
            else Some (foldl add (case lookup m k of Some v \<Rightarrow> v | None \<Rightarrow> zero) cs))"
proof (induction kcs arbitrary: m)
  case (Cons kc kcs)
  show ?case
    using Cons.IH [OF contribute_lookup(2) [OF Cons.prems, of add zero kc]]
    by (auto simp: contribute_lookup [OF Cons.prems] Let_def)
qed simp

end

text \<open>A vector map with one entry per key is a map.\<close>

definition vm_unique :: "('k, 'v) vec_map \<Rightarrow> bool" where
  "vm_unique m \<longleftrightarrow> distinct (vm_keys m)"

lemma vm_get_split:
  assumes "position (\<lambda>kv. kv_key kv = key) (inner m) = Some pos"
  obtains ys v zs where "inner m = ys @ KeyValue key v # zs" "pos = length ys"
    "\<forall>kv \<in> set ys. kv_key kv \<noteq> key"
  using position_split [OF assms] by (metis key_value.collapse)

lemma vm_get_map_of: "vm_get m = map_of (vm_iter m)"
proof
  fix k
  have "map_option kv_value (find (\<lambda>kv. kv_key kv = k) kvs)
      = map_of (map (\<lambda>kv. (kv_key kv, kv_value kv)) kvs) k" for kvs :: "('a, 'b) key_value list"
    by (induction kvs) auto
  then show "vm_get m k = map_of (vm_iter m) k" by (simp add: vm_get_def vm_iter_def)
qed

lemma vm_keys_iter: "vm_keys m = map fst (vm_iter m)"
  by (simp add: vm_keys_def vm_iter_def)

lemma position_key_None:
  "position (\<lambda>kv. kv_key kv = key) (inner m) = None \<longleftrightarrow> key \<notin> set (vm_keys m)"
  by (auto simp: position_None vm_keys_def)

lemma vm_write_pos:
  assumes "position (\<lambda>kv. kv_key kv = key) (inner m) = Some pos"
  shows "vm_get (VecMap ((inner m)[pos := KeyValue (kv_key (inner m ! pos)) v])) = (vm_get m)(key \<mapsto> v)"
    and "vm_keys (VecMap ((inner m)[pos := KeyValue (kv_key (inner m ! pos)) v])) = vm_keys m"
    and "vm_get m key = Some (kv_value (inner m ! pos))"
proof -
  obtain ys w zs where m: "inner m = ys @ KeyValue key w # zs" "pos = length ys"
      "\<forall>kv \<in> set ys. kv_key kv \<noteq> key"
    using vm_get_split [OF assms] by blast
  have none: "map_of (map (\<lambda>kv. (kv_key kv, kv_value kv)) ys) key = None"
    using m(3) by (auto simp: map_of_eq_None_iff)
  show "vm_get (VecMap ((inner m)[pos := KeyValue (kv_key (inner m ! pos)) v])) = (vm_get m)(key \<mapsto> v)"
    unfolding vm_get_map_of using none
    by (intro ext) (auto simp: vm_iter_def m map_add_def split: option.split)
  show "vm_keys (VecMap ((inner m)[pos := KeyValue (kv_key (inner m ! pos)) v])) = vm_keys m"
    by (simp add: vm_keys_def m)
  show "vm_get m key = Some (kv_value (inner m ! pos))"
    unfolding vm_get_map_of using none by (simp add: vm_iter_def m map_add_def)
qed

lemma vm_write_new:
  assumes "key \<notin> set (vm_keys m)"
  shows "vm_get (VecMap (inner m @ [KeyValue key v])) = (vm_get m)(key \<mapsto> v)"
    and "vm_keys (VecMap (inner m @ [KeyValue key v])) = vm_keys m @ [key]"
    and "vm_get m key = None"
proof -
  have none: "map_of (vm_iter m) key = None" using assms by (simp add: map_of_eq_None_iff vm_keys_iter)
  then show "vm_get m key = None" by (simp add: vm_get_map_of)
  show "vm_get (VecMap (inner m @ [KeyValue key v])) = (vm_get m)(key \<mapsto> v)"
    unfolding vm_get_map_of using none
    by (intro ext) (auto simp: vm_iter_def map_add_def split: option.split)
qed (simp add: vm_keys_def)

lemma vm_remove_unique:
  assumes "vm_unique m"
  shows "vm_get (fst (vm_remove m key)) = (vm_get m)(key := None)"
    and "vm_unique (fst (vm_remove m key))"
    and "snd (vm_remove m key) = vm_get m key"
proof -
  have "vm_get (fst (vm_remove m key)) = (vm_get m)(key := None)
      \<and> vm_unique (fst (vm_remove m key)) \<and> snd (vm_remove m key) = vm_get m key"
  proof (cases "position (\<lambda>kv. kv_key kv = key) (inner m)")
    case None
    then have "vm_get m key = None" using vm_write_new(3) by (simp add: position_key_None)
    then show ?thesis using assms None by (auto simp: vm_remove_def)
  next
    case (Some pos)
    obtain ys w zs where m: "inner m = ys @ KeyValue key w # zs" "pos = length ys"
        "\<forall>kv \<in> set ys. kv_key kv \<noteq> key"
      using vm_get_split [OF Some] by blast
    have "key \<notin> kv_key ` set ys" "key \<notin> kv_key ` set zs"
      using assms m by (auto simp: vm_unique_def vm_keys_def)
    then have "map_of (map (\<lambda>kv. (kv_key kv, kv_value kv)) ys) key = None"
        "map_of (map (\<lambda>kv. (kv_key kv, kv_value kv)) zs) key = None"
      by (auto simp: map_of_eq_None_iff)
    then have "vm_get (VecMap (ys @ zs)) = (vm_get m)(key := None)" "vm_get m key = Some w"
      unfolding vm_get_map_of
      by (auto simp: vm_iter_def m map_add_def fun_eq_iff split: option.split)
    moreover have "vm_unique (VecMap (ys @ zs))"
      using assms m by (auto simp: vm_unique_def vm_keys_def)
    ultimately show ?thesis using Some m by (simp add: vm_remove_def)
  qed
  then show "vm_get (fst (vm_remove m key)) = (vm_get m)(key := None)"
    "vm_unique (fst (vm_remove m key))" "snd (vm_remove m key) = vm_get m key" by blast+
qed

lemma vm_set_get:
  "vm_get (fst (vm_set m key v)) = (vm_get m)(key \<mapsto> v)"
  "vm_unique m \<Longrightarrow> vm_unique (fst (vm_set m key v))"
  "snd (vm_set m key v) \<longleftrightarrow> vm_get m key = None"
  using vm_write_pos [of key m] vm_write_new [of key m]
  by (auto simp: vm_set_def vm_unique_def position_key_None [symmetric] split: option.split)

lemma vm_entry:
  "fst (vm_get_mut_or_insert_with m key f) = (case vm_get m key of Some v \<Rightarrow> v | None \<Rightarrow> f ())"
  "vm_get (snd (vm_get_mut_or_insert_with m key f) v) = (vm_get m)(key \<mapsto> v)"
  "vm_unique m \<Longrightarrow> vm_unique (snd (vm_get_mut_or_insert_with m key f) v)"
  using vm_write_pos [of key m] vm_write_new [of key m]
  by (auto simp: vm_get_mut_or_insert_with_def vm_unique_def position_key_None [symmetric]
      split: option.split)

interpretation vecmap: keyed_map vm_new vm_get "\<lambda>m k v. fst (vm_set m k v)"
  "\<lambda>m k. fst (vm_remove m k)" vm_get_mut_or_insert_with vm_iter vm_unique
proof
  show "(k, v) \<in> set (vm_iter m) \<longleftrightarrow> vm_get m k = Some v" if "vm_unique m" for m :: "('a, 'b) vec_map" and k v
    using that by (simp add: vm_get_map_of vm_unique_def vm_keys_iter)
  show "vm_get (vm_new :: ('a, 'b) vec_map) = Map.empty" by (simp add: vm_get_map_of vm_new_def vm_iter_def)
  show "distinct (map fst (vm_iter m))" if "vm_unique m" for m :: "('a, 'b) vec_map"
    using that by (simp add: vm_unique_def vm_keys_iter)
  show "vm_unique (vm_new :: ('a, 'b) vec_map)" by (simp add: vm_unique_def vm_new_def vm_keys_def)
qed (simp_all add: vm_set_get vm_entry vm_remove_unique)

subsection \<open>Properties\<close>

text \<open>
  C33: on a map with one entry per key, \<open>set\<close>, \<open>remove\<close> and
  \<open>get_mut_or_insert_with\<close> act as updates of the function that \<open>get\<close> computes, report
  what they replaced, and keep one entry per key.
\<close>

theorem vec_map_refines_map:
  assumes "vm_unique m"
  shows "vm_get (fst (vm_set m k v)) = (vm_get m)(k \<mapsto> v)
    \<and> (snd (vm_set m k v) \<longleftrightarrow> vm_get m k = None)
    \<and> vm_get (fst (vm_remove m k)) = (vm_get m)(k := None)
    \<and> snd (vm_remove m k) = vm_get m k
    \<and> fst (vm_get_mut_or_insert_with m k f) = (case vm_get m k of Some w \<Rightarrow> w | None \<Rightarrow> f ())
    \<and> vm_get (snd (vm_get_mut_or_insert_with m k f) v) = (vm_get m)(k \<mapsto> v)
    \<and> vm_unique (fst (vm_set m k v)) \<and> vm_unique (fst (vm_remove m k))
    \<and> vm_unique (snd (vm_get_mut_or_insert_with m k f) v)"
  using assms by (simp add: vm_set_get vm_remove_unique vm_entry)

theorem vec_map_refines_map_witness:
  "vm_get (fst (vm_remove (VecMap [KeyValue (1::nat) ''a'', KeyValue 2 ''b'']) 1)) 1 = None
   \<and> snd (vm_remove (VecMap [KeyValue (1::nat) ''a'', KeyValue 2 ''b'']) 1) = Some ''a''"
proof -
  have "vm_unique (VecMap [KeyValue (1::nat) ''a'', KeyValue 2 ''b''])"
    by (simp add: vm_unique_def vm_keys_def)
  note r = vec_map_refines_map [OF this, of 1 undefined undefined]
  then show ?thesis by (simp add: vm_get_def)
qed

end
