(* ===== verification/Access.thy ===== *)
theory Access
  imports Roles VecMap
begin

text \<open>
  Access tokens (\<open>crates/common/src/auth/access_token.rs\<close>) and the sharing checks
  (\<open>crates/common/src/sharing\<close>). A token is built from a principal, the permissions of its roles
  and the ACL entries that grant its accounts access to others; every request is then checked against
  the token. The stores that are queried are parameters. The concurrency limiters of a token and its
  cache weight are left out: no check modelled here reads them.
\<close>

subsection \<open>Access tokens\<close>

record tenant_info =
  ti_id :: u32
  ti_quota :: u64

record access_token =
  at_primary_id :: u32
  at_member_of :: "u32 list"
  at_access_to :: "(u32, collection bitmap) vec_map"
  at_name :: string
  at_description :: "string option"
  at_locale :: "string option"
  at_emails :: "string list"
  at_quota :: u64
  at_object_quota :: "u32 list"
  at_permissions :: bitset
  at_tenant :: "tenant_info option"
  at_revision :: u64

text \<open>\<open>Permission::Impersonate\<close> and \<open>Permission::Authenticate\<close> are told apart by
  their position in the enumeration; only the first is used here, with number 0.\<close>

definition Impersonate :: nat where
  "Impersonate = 0"

definition has_permission :: "access_token \<Rightarrow> nat \<Rightarrow> bool" where
  "has_permission tok permission = (bs_get (at_permissions tok) permission = Some True)"

definition is_member :: "access_token \<Rightarrow> u32 \<Rightarrow> bool" where
  "is_member tok account \<longleftrightarrow> at_primary_id tok = account \<or> account \<in> set (at_member_of tok)
     \<or> has_permission tok Impersonate"

definition is_primary_id :: "access_token \<Rightarrow> u32 \<Rightarrow> bool" where
  "is_primary_id tok account \<longleftrightarrow> at_primary_id tok = account"

definition assert_has_permission :: "access_token \<Rightarrow> nat \<Rightarrow> auth_error + bool" where
  "assert_has_permission tok permission =
     (if has_permission tok permission then Inr True else Inl Unauthorized)"

definition secondary_ids :: "access_token \<Rightarrow> u32 list" where
  "secondary_ids tok = at_member_of tok @ map fst (vm_iter (at_access_to tok))"

definition member_ids :: "access_token \<Rightarrow> u32 list" where
  "member_ids tok = at_primary_id tok # at_member_of tok"

definition all_ids :: "access_token \<Rightarrow> u32 list" where
  "all_ids tok = at_primary_id tok # at_member_of tok @ map fst (vm_iter (at_access_to tok))"

definition all_ids_by_collection :: "access_token \<Rightarrow> collection \<Rightarrow> u32 list" where
  "all_ids_by_collection tok c = at_primary_id tok # at_member_of tok
     @ List.map_filter (\<lambda>(i, cols). if bm_contains collection_to_u64 cols c then Some i else None)
         (vm_iter (at_access_to tok))"

definition is_shared :: "access_token \<Rightarrow> u32 \<Rightarrow> bool" where
  "is_shared tok account \<longleftrightarrow> \<not> is_member tok account
     \<and> list_ex (\<lambda>(i, _). i = account) (vm_iter (at_access_to tok))"

definition shared_accounts :: "access_token \<Rightarrow> collection \<Rightarrow> u32 list" where
  "shared_accounts tok c = at_member_of tok
     @ List.map_filter (\<lambda>(i, cols). if bm_contains collection_to_u64 cols c then Some i else None)
         (vm_iter (at_access_to tok))"

definition has_access :: "access_token \<Rightarrow> u32 \<Rightarrow> collection \<Rightarrow> bool" where
  "has_access tok to_account to_collection \<longleftrightarrow> is_member tok to_account
     \<or> list_ex (\<lambda>(i, collections). i = to_account \<and> bm_contains collection_to_u64 collections to_collection)
         (vm_iter (at_access_to tok))"

definition has_account_access :: "access_token \<Rightarrow> u32 \<Rightarrow> bool" where
  "has_account_access tok to_account \<longleftrightarrow> is_member tok to_account
     \<or> list_ex (\<lambda>(i, _). i = to_account) (vm_iter (at_access_to tok))"

text \<open>The object quota is an array with one entry per valid collection.\<close>

definition object_quota :: "access_token \<Rightarrow> collection \<Rightarrow> u32 option" where
  "object_quota tok c =
     (let i = unat (collection_to_u64 c)
      in if i < length (at_object_quota tok) then Some (at_object_quota tok ! i) else None)"

subsection \<open>Building a token\<close>

record acl_item =
  ai_to_account_id :: u32
  ai_to_collection :: collection
  ai_to_document_id :: u32
  ai_permissions :: u64

text \<open>
  \<open>te_query\<close> queries the store by identifier without memberships, \<open>te_acl_query\<close> lists
  the ACL entries that grant access to an account (\<open>AclQuery::HasAccess\<close>).
\<close>

record token_env =
  te_roles :: role_env
  te_max_objects :: "u32 list"
  te_enterprise_feature :: bool
  te_is_enterprise_edition :: bool
  te_query :: "u32 \<Rightarrow> auth_error + principal option"
  te_acl_query :: "u32 \<Rightarrow> auth_error + acl_item list"

text \<open>The variables that the loop over the principal's data fills.\<close>

record token_data =
  td_role_permissions :: role_permissions
  td_object_quota :: "u32 list"
  td_description :: "string option"
  td_tenant_id :: "u32 option"
  td_quota :: "u64 option"
  td_locale :: "string option"
  td_member_of :: "u32 list"
  td_emails :: "string list"
  td_cache :: role_cache

definition extract_item :: "token_env \<Rightarrow> token_data \<Rightarrow> principal_data \<Rightarrow> auth_error + token_data" where
  "extract_item env td d =
     (case d of
        Tenant v \<Rightarrow> Inr (td\<lparr>td_tenant_id := Some v\<rparr>)
      | MemberOf v \<Rightarrow> Inr (td\<lparr>td_member_of := td_member_of td @ [v]\<rparr>)
      | Role v \<Rightarrow>
          (case get_role_permissions (te_roles env) (td_cache td) v of
             Inl e \<Rightarrow> Inl e
           | Inr (rp, cache) \<Rightarrow>
               Inr (td\<lparr>td_role_permissions := rp_union (td_role_permissions td) rp, td_cache := cache\<rparr>))
      | Permission permission_id grant \<Rightarrow>
          (let rp = td_role_permissions td
           in if grant
              then (case bs_set (rp_enabled rp) (unat permission_id) of
                      None \<Rightarrow> Inl Panic
                    | Some b \<Rightarrow> Inr (td\<lparr>td_role_permissions := rp\<lparr>rp_enabled := b\<rparr>\<rparr>))
              else (case bs_set (rp_disabled rp) (unat permission_id) of
                      None \<Rightarrow> Inl Panic
                    | Some b \<Rightarrow> Inr (td\<lparr>td_role_permissions := rp\<lparr>rp_disabled := b\<rparr>\<rparr>)))
      | DiskQuota v \<Rightarrow> Inr (td\<lparr>td_quota := Some v\<rparr>)
      | ObjectQuota quota typ \<Rightarrow>
          (let i = unat (collection_to_u64 typ)
           in if i < length (td_object_quota td)
              then Inr (td\<lparr>td_object_quota := (td_object_quota td)[i := quota]\<rparr>)
              else Inl Panic)
      | Description v \<Rightarrow> Inr (td\<lparr>td_description := Some v\<rparr>)
      | PrimaryEmail v \<Rightarrow>
          Inr (td\<lparr>td_emails := (if td_emails td = [] then td_emails td @ [v] else v # td_emails td)\<rparr>)
      | EmailAlias v \<Rightarrow> Inr (td\<lparr>td_emails := td_emails td @ [v]\<rparr>)
      | Locale v \<Rightarrow> Inr (td\<lparr>td_locale := Some v\<rparr>)
      | _ \<Rightarrow> Inr td)"

fun extract_data :: "token_env \<Rightarrow> token_data \<Rightarrow> principal_data list \<Rightarrow> auth_error + token_data" where
  "extract_data env td [] = Inr td"
| "extract_data env td (d # ds) =
     (case extract_item env td d of Inl e \<Rightarrow> Inl e | Inr td' \<Rightarrow> extract_data env td' ds)"

definition token_data_init :: "token_env \<Rightarrow> role_cache \<Rightarrow> token_data" where
  "token_data_init env cache =
     \<lparr>td_role_permissions = rp_default (te_roles env), td_object_quota = te_max_objects env,
      td_description = None, td_tenant_id = None, td_quota = None, td_locale = None,
      td_member_of = [], td_emails = [], td_cache = cache\<rparr>"

text \<open>
  The permissions after the limits of the tenant, the tenant, and the role cache. Without the
  enterprise feature the block is compiled out.
\<close>

definition apply_tenant ::
  "token_env \<Rightarrow> token_data \<Rightarrow> auth_error + bitset \<times> tenant_info option \<times> role_cache" where
  "apply_tenant env td =
     (let permissions = rp_finalize (td_role_permissions td)
      in case (if te_enterprise_feature env then td_tenant_id td else None) of
           None \<Rightarrow> Inr (permissions, None, td_cache td)
         | Some tenant_id \<Rightarrow>
             if te_is_enterprise_edition env
             then (case get_role_permissions (te_roles env) (td_cache td) tenant_id of
                     Inl e \<Rightarrow> Inl e
                   | Inr (rp, cache) \<Rightarrow>
                       (case te_query env tenant_id of
                          Inl e \<Rightarrow> Inl e
                        | Inr None \<Rightarrow> Inl (TenantNotFound tenant_id)
                        | Inr (Some p) \<Rightarrow>
                            Inr (bs_intersection permissions (rp_enabled rp),
                                 Some \<lparr>ti_id = tenant_id,
                                       ti_quota = (case principal_quota p of Some q \<Rightarrow> q | None \<Rightarrow> 0)\<rparr>,
                                 cache)))
             else (case get_role_permissions (te_roles env) (td_cache td) ROLE_USER of
                     Inl e \<Rightarrow> Inl e
                   | Inr (rp, cache) \<Rightarrow> Inr (bs_intersection permissions (rp_enabled rp), None, cache)))"

fun group_emails :: "token_env \<Rightarrow> string list \<Rightarrow> u32 list \<Rightarrow> auth_error + string list" where
  "group_emails env emails [] = Inr emails"
| "group_emails env emails (group_id # gs) =
     (case te_query env group_id of
        Inl e \<Rightarrow> Inl e
      | Inr None \<Rightarrow> group_emails env emails gs
      | Inr (Some grp) \<Rightarrow>
          if pr_typ grp = Type_Group
          then group_emails env (emails @ into_email_addresses grp) gs
          else group_emails env emails gs)"

definition acl_item_collections :: "acl_item \<Rightarrow> collection bitmap" where
  "acl_item_collections item =
     (let acl = Bitmap (ai_permissions item);
          collection = ai_to_collection item;
          collections = (if bm_contains acl_to_u64 acl Acl_Read
                         then bm_insert collection_to_u64 bm_new collection else bm_new)
      in case (if bm_contains acl_to_u64 acl Acl_ReadItems then child_collection collection else None) of
           Some child_col \<Rightarrow> bm_insert collection_to_u64 collections child_col
         | None \<Rightarrow> collections)"

fun add_acl_items :: "access_token \<Rightarrow> u32 \<Rightarrow> acl_item list \<Rightarrow> auth_error + access_token" where
  "add_acl_items tok grant_account [] = Inr tok"
| "add_acl_items tok grant_account (item # items) =
     (if \<not> is_member tok (ai_to_account_id item)
      then if \<not> collection_is_valid (ai_to_collection item) then Inl (DataCorruption grant_account)
           else let collections = acl_item_collections item
                in if \<not> bm_is_empty collections
                   then (case vm_get_mut_or_insert_with (at_access_to tok) (ai_to_account_id item) (\<lambda>_. bm_new) of
                           (cols, wr) \<Rightarrow>
                             add_acl_items (tok\<lparr>at_access_to := wr (bm_union cols collections)\<rparr>) grant_account items)
                   else add_acl_items tok grant_account items
      else add_acl_items tok grant_account items)"

fun add_granted :: "token_env \<Rightarrow> access_token \<Rightarrow> u32 list \<Rightarrow> auth_error + access_token" where
  "add_granted env tok [] = Inr tok"
| "add_granted env tok (grant_account # gs) =
     (case te_acl_query env grant_account of
        Inl e \<Rightarrow> Inl e
      | Inr items \<Rightarrow>
          (case add_acl_items tok grant_account items of
             Inl e \<Rightarrow> Inl e
           | Inr tok' \<Rightarrow> add_granted env tok' gs))"

definition build_access_token_from_principal ::
  "token_env \<Rightarrow> role_cache \<Rightarrow> principal \<Rightarrow> u64 \<Rightarrow> auth_error + access_token \<times> role_cache" where
  "build_access_token_from_principal env cache p revision =
     (case extract_data env (token_data_init env cache) (pr_data p) of
        Inl e \<Rightarrow> Inl e
      | Inr td \<Rightarrow>
          (case apply_tenant env td of
             Inl e \<Rightarrow> Inl e
           | Inr (permissions, tenant, cache') \<Rightarrow>
               (case group_emails env (td_emails td) (td_member_of td) of
                  Inl e \<Rightarrow> Inl e
                | Inr emails \<Rightarrow>
                    (let tok = \<lparr>at_primary_id = pr_id p, at_member_of = td_member_of td,
                                at_access_to = vm_new, at_name = pr_name p,
                                at_description = td_description td, at_locale = td_locale td,
                                at_emails = emails,
                                at_quota = (case td_quota td of Some q \<Rightarrow> q | None \<Rightarrow> 0),
                                at_object_quota = td_object_quota td, at_permissions = permissions,
                                at_tenant = tenant, at_revision = revision\<rparr>
                     in case add_granted env tok (at_primary_id tok # at_member_of tok) of
                          Inl e \<Rightarrow> Inl e
                        | Inr tok' \<Rightarrow> Inr (tok', cache')))))"

subsection \<open>What a token gives access to\<close>

definition item_grants :: "acl_item \<Rightarrow> collection \<Rightarrow> bool" where
  "item_grants item c \<longleftrightarrow>
     (bm_contains acl_to_u64 (Bitmap (ai_permissions item)) Acl_Read \<and> ai_to_collection item = c)
     \<or> (bm_contains acl_to_u64 (Bitmap (ai_permissions item)) Acl_ReadItems
        \<and> child_collection (ai_to_collection item) = Some c)"

definition access_of :: "(u32, collection bitmap) vec_map \<Rightarrow> u32 \<Rightarrow> collection set" where
  "access_of m a = (case vm_get m a of Some b \<Rightarrow> coll.items b | None \<Rightarrow> {})"

lemma child_collection_valid: "child_collection c = Some d \<Longrightarrow> collection_is_valid d"
  by (cases c) (auto simp: collection_is_valid_def)

lemma items_acl_item_collections:
  assumes "collection_is_valid (ai_to_collection item)"
  shows "coll.items (acl_item_collections item) = {c. item_grants item c}"
    and "bm_inv collection_max (acl_item_collections item)"
  using assms child_collection_valid [of "ai_to_collection item"]
  by (auto simp: acl_item_collections_def item_grants_def Let_def split: option.splits)

lemma access_of_union:
  assumes "vm_unique m" "vm_get_mut_or_insert_with m k (\<lambda>_. bm_new) = (cols, wr)"
  shows "access_of (wr (bm_union cols b)) a = access_of m a \<union> (if a = k then coll.items b else {})"
    and "vm_unique (wr (bm_union cols b))"
proof -
  have cols: "cols = (case vm_get m k of Some v \<Rightarrow> v | None \<Rightarrow> bm_new)"
    using vecmap.entry_value [OF assms(1), of k "\<lambda>_. bm_new"] assms(2) by simp
  have "vm_get (wr (bm_union cols b)) = (vm_get m)(k \<mapsto> bm_union cols b)"
    using vecmap.entry_write [OF assms(1), of k "\<lambda>_. bm_new" "bm_union cols b"] assms(2) by simp
  then show "access_of (wr (bm_union cols b)) a = access_of m a \<union> (if a = k then coll.items b else {})"
    by (auto simp: access_of_def cols coll.items_union split: option.splits)
  show "vm_unique (wr (bm_union cols b))"
    using vecmap.invar_entry [OF assms(1), of k "\<lambda>_. bm_new" "bm_union cols b"] assms(2) by simp
qed

text \<open>The token keeps its identity while ACL entries are added.\<close>

abbreviation same_identity :: "access_token \<Rightarrow> access_token \<Rightarrow> bool" where
  "same_identity tok tok' \<equiv> tok'\<lparr>at_access_to := vm_new\<rparr> = tok\<lparr>at_access_to := vm_new\<rparr>"

lemma is_member_access_to [simp]: "is_member (tok\<lparr>at_access_to := m\<rparr>) = is_member tok"
  by (auto simp: is_member_def has_permission_def)

lemma add_acl_items_access:
  "add_acl_items tok g items = Inr tok' \<Longrightarrow> vm_unique (at_access_to tok) \<Longrightarrow>
     vm_unique (at_access_to tok') \<and> same_identity tok tok'
     \<and> (\<forall>a. access_of (at_access_to tok') a = access_of (at_access_to tok) a
          \<union> {c. \<not> is_member tok a \<and> (\<exists>item \<in> set items. ai_to_account_id item = a \<and> item_grants item c)})"
proof (induction tok g items rule: add_acl_items.induct)
  case (2 tok g item "items")
  show ?case
  proof (cases "is_member tok (ai_to_account_id item)")
    case True
    then show ?thesis using 2 by auto
  next
    case False
    then have valid: "collection_is_valid (ai_to_collection item)" using "2.prems" by (auto split: if_splits)
    note ic = items_acl_item_collections [OF valid]
    show ?thesis
    proof (cases "bm_is_empty (acl_item_collections item)")
      case True
      then have "\<not> item_grants item c" for c using coll.is_empty_iff [OF ic(2)] ic(1) by auto
      then show ?thesis using 2 False valid True by (auto simp: Let_def)
    next
      case nonempty: False
      obtain cols wr where e: "vm_get_mut_or_insert_with (at_access_to tok) (ai_to_account_id item) (\<lambda>_. bm_new)
          = (cols, wr)" by force
      let ?tok = "tok\<lparr>at_access_to := wr (bm_union cols (acl_item_collections item))\<rparr>"
      note u = access_of_union [OF "2.prems"(2) e, of "acl_item_collections item"]
      have "add_acl_items ?tok g items = Inr tok'"
        using "2.prems"(1) False valid nonempty e by (simp add: Let_def)
      with "2.IH"(1) [OF False _ refl nonempty e [symmetric]] valid u(2)
      have "vm_unique (at_access_to tok') \<and> same_identity ?tok tok'
        \<and> (\<forall>a. access_of (at_access_to tok') a = access_of (at_access_to ?tok) a
          \<union> {c. \<not> is_member ?tok a \<and> (\<exists>item \<in> set items. ai_to_account_id item = a \<and> item_grants item c)})"
        by simp
      then show ?thesis using u(1) ic(1) False by auto
    qed
  qed
qed simp

lemma add_granted_access:
  "add_granted env tok gs = Inr tok' \<Longrightarrow> vm_unique (at_access_to tok) \<Longrightarrow>
     vm_unique (at_access_to tok') \<and> same_identity tok tok'
     \<and> (\<forall>a. access_of (at_access_to tok') a = access_of (at_access_to tok) a
          \<union> {c. \<not> is_member tok a \<and> (\<exists>g \<in> set gs. \<exists>items. te_acl_query env g = Inr items
                \<and> (\<exists>item \<in> set items. ai_to_account_id item = a \<and> item_grants item c))})"
proof (induction env tok gs rule: add_granted.induct)
  case (2 env tok g gs)
  obtain "items" tok1 where q: "te_acl_query env g = Inr items" "add_acl_items tok g items = Inr tok1"
      "add_granted env tok1 gs = Inr tok'"
    using "2.prems"(1) by (auto split: sum.splits)
  note a1 = add_acl_items_access [OF q(2) "2.prems"(2)]
  then have m1: "is_member tok1 = is_member tok" by (metis is_member_access_to)
  note a2 = "2.IH" [OF q(1,2,3)]
  show ?case using a1 a2 m1 q(1) by (simp add: Un_assoc) blast
qed simp

lemma has_access_iff:
  assumes "vm_unique (at_access_to tok)" "collection_is_valid c"
  shows "has_access tok a c \<longleftrightarrow> is_member tok a \<or> c \<in> access_of (at_access_to tok) a"
proof -
  have "list_ex (\<lambda>(i, b). i = a \<and> bm_contains collection_to_u64 b c) (vm_iter (at_access_to tok))
      \<longleftrightarrow> (\<exists>b. (a, b) \<in> set (vm_iter (at_access_to tok)) \<and> bm_contains collection_to_u64 b c)"
    by (auto simp: list_ex_iff)
  also have "\<dots> \<longleftrightarrow> c \<in> access_of (at_access_to tok) a"
    using assms by (auto simp: vecmap.entries_lookup access_of_def bm_items_def split: option.splits)
  finally show ?thesis by (simp add: has_access_def)
qed

lemma build_access_token_access:
  assumes "build_access_token_from_principal env cache p revision = Inr (tok, cache')"
  shows "vm_unique (at_access_to tok) \<and> at_primary_id tok = pr_id p
    \<and> (\<forall>a. access_of (at_access_to tok) a
        = {c. \<not> is_member tok a \<and> (\<exists>g \<in> set (member_ids tok). \<exists>items. te_acl_query env g = Inr items
                \<and> (\<exists>item \<in> set items. ai_to_account_id item = a \<and> item_grants item c))})"
proof -
  obtain tok0 where t: "add_granted env tok0 (at_primary_id tok0 # at_member_of tok0) = Inr tok"
      "at_access_to tok0 = vm_new" "at_primary_id tok0 = pr_id p"
    using assms by (auto simp: build_access_token_from_principal_def Let_def split: sum.splits prod.splits)
  have u: "vm_unique (at_access_to tok0)" using vecmap.invar_empty by (simp add: t(2))
  have e: "access_of (at_access_to tok0) a = {}" for a
    by (simp add: t(2) access_of_def vecmap.lookup_empty)
  note a = add_granted_access [OF t(1) u]
  then have i: "tok\<lparr>at_access_to := vm_new\<rparr> = tok0\<lparr>at_access_to := vm_new\<rparr>" by simp
  then have "is_member tok = is_member tok0" by (metis is_member_access_to)
  moreover have "at_primary_id tok = at_primary_id tok0" "at_member_of tok = at_member_of tok0"
    using arg_cong [OF i, of at_primary_id] arg_cong [OF i, of at_member_of] by simp_all
  ultimately show ?thesis using a e t(3) by (simp add: member_ids_def)
qed

subsection \<open>Properties\<close>


text \<open>Account 1, a member of group 5, was granted read access to the mailboxes of account 9.\<close>

definition shared_mailboxes :: token_env where
  "shared_mailboxes =
     \<lparr>te_roles = cyclic_roles, te_max_objects = replicate 14 0, te_enterprise_feature = True,
      te_is_enterprise_edition = False, te_query = (\<lambda>_. Inr None),
      te_acl_query = (\<lambda>g. if g = 5 then Inr [\<lparr>ai_to_account_id = 9, ai_to_collection = Coll_Mailbox,
         ai_to_document_id = 0, ai_permissions = 8\<rparr>] else Inr [])\<rparr>"

definition member_of_group :: principal where
  "member_of_group = \<lparr>pr_id = 1, pr_typ = Type_Individual, pr_name = ''jane'', pr_data = [MemberOf 5, Role 3]\<rparr>"


end
