(* ===== verification/Sharing.thy ===== *)
theory Sharing
  imports Access
begin

text \<open>
  The sharing checks of \<open>crates/common/src/sharing\<close>: effective rights of a grant list, the
  DAV resource checks (\<open>resources.rs\<close>, with the resource types of \<open>common/src/lib.rs\<close>) and
  the cache invalidation that follows a change of grants or of principals (\<open>acl.rs\<close>,
  \<open>auth/access_token.rs\<close>, \<open>directory/src/backend/internal/manage.rs\<close>).
\<close>

subsection \<open>Effective rights\<close>

fun effective_acl_loop :: "access_token \<Rightarrow> acl bitmap \<Rightarrow> acl_grant list \<Rightarrow> acl bitmap" where
  "effective_acl_loop tok acl [] = acl"
| "effective_acl_loop tok acl (item # items) =
     effective_acl_loop tok (if is_member tok (ag_account_id item) then bm_union acl (ag_grants item) else acl) items"

definition effective_acl :: "access_token \<Rightarrow> acl_grant list \<Rightarrow> acl bitmap" where
  "effective_acl tok grants = effective_acl_loop tok bm_new grants"

subsection \<open>DAV resources\<close>

record dav_name =
  dn_name :: string
  dn_parent_id :: u32

datatype dav_metadata =
    DavFile string "u32 option" "u32 option" "acl_grant list"
  | DavCalendar string "acl_grant list"
  | DavCalendarEvent "dav_name list" int u32
  | DavCalendarEventNotification "dav_name list"
  | DavAddressBook string "acl_grant list"
  | DavContactCard "dav_name list"

record dav_resource =
  dr_document_id :: u32
  dr_data :: dav_metadata

record dav_path =
  dp_path :: string
  dp_parent_id :: "u32 option"
  dp_hierarchy_seq :: u32
  dp_resource_idx :: nat

text \<open>The set of paths is the list of its elements in iteration order.\<close>

record dav_resources =
  drs_paths :: "dav_path list"
  drs_resources :: "dav_resource list"

fun dav_acls :: "dav_metadata \<Rightarrow> acl_grant list option" where
  "dav_acls (DavFile _ _ _ acls) = Some acls"
| "dav_acls (DavCalendar _ acls) = Some acls"
| "dav_acls (DavAddressBook _ acls) = Some acls"
| "dav_acls _ = None"

fun dav_is_container :: "dav_metadata \<Rightarrow> bool" where
  "dav_is_container (DavFile _ sz _ _) = (sz = None)"
| "dav_is_container (DavCalendar _ _) = True"
| "dav_is_container (DavAddressBook _ _) = True"
| "dav_is_container (DavCalendarEventNotification names) = (names = [])"
| "dav_is_container _ = False"

definition grant_matches :: "access_token \<Rightarrow> acl bitmap \<Rightarrow> bool \<Rightarrow> acl_grant \<Rightarrow> bool" where
  "grant_matches tok check_acls match_any acl \<longleftrightarrow>
     is_member tok (ag_account_id acl)
     \<and> (let grants = bm_intersection (ag_grants acl) check_acls
        in grants = check_acls \<or> (match_any \<and> \<not> bm_is_empty grants))"

fun shared_containers_loop ::
  "access_token \<Rightarrow> acl bitmap \<Rightarrow> bool \<Rightarrow> u32 set \<Rightarrow> dav_resource list \<Rightarrow> u32 set" where
  "shared_containers_loop tok check_acls match_any ids [] = ids"
| "shared_containers_loop tok check_acls match_any ids (r # rs) =
     shared_containers_loop tok check_acls match_any
       (case dav_acls (dr_data r) of
          Some acls \<Rightarrow>
            foldl (\<lambda>ids acl. if grant_matches tok check_acls match_any acl
                              then insert (dr_document_id r) ids else ids) ids acls
        | None \<Rightarrow> ids) rs"

definition shared_containers :: "dav_resources \<Rightarrow> access_token \<Rightarrow> acl list \<Rightarrow> bool \<Rightarrow> u32 set" where
  "shared_containers drs tok check_acls match_any =
     shared_containers_loop tok (bm_from_vec acl_to_u64 acl_is_valid check_acls) match_any {} (drs_resources drs)"

fun shared_items_loop :: "dav_resource list \<Rightarrow> u32 set \<Rightarrow> u32 set \<Rightarrow> dav_path list \<Rightarrow> u32 set option" where
  "shared_items_loop rs shared ids [] = Some ids"
| "shared_items_loop rs shared ids (path # paths) =
     (case dp_parent_id path of
        Some parent_id \<Rightarrow>
          if parent_id \<in> shared
          then if dp_resource_idx path < length rs
               then shared_items_loop rs shared (insert (dr_document_id (rs ! dp_resource_idx path)) ids) paths
               else None
          else shared_items_loop rs shared ids paths
      | None \<Rightarrow> shared_items_loop rs shared ids paths)"

definition shared_items :: "dav_resources \<Rightarrow> access_token \<Rightarrow> acl list \<Rightarrow> bool \<Rightarrow> u32 set option" where
  "shared_items drs tok check_acls match_any =
     (let shared = shared_containers drs tok check_acls match_any
      in if shared \<noteq> {} then shared_items_loop (drs_resources drs) shared {} (drs_paths drs) else Some shared)"

text \<open>The inner loop returns at the first grant to a member account.\<close>

fun first_member_grant :: "access_token \<Rightarrow> acl bitmap \<Rightarrow> acl_grant list \<Rightarrow> bool" where
  "first_member_grant tok check_acls [] = False"
| "first_member_grant tok check_acls (acl # acls) =
     (if is_member tok (ag_account_id acl)
      then \<not> bm_is_empty (bm_intersection (ag_grants acl) check_acls)
      else first_member_grant tok check_acls acls)"

fun has_access_to_container_loop :: "access_token \<Rightarrow> u32 \<Rightarrow> acl bitmap \<Rightarrow> dav_resource list \<Rightarrow> bool" where
  "has_access_to_container_loop tok document_id check_acls [] = False"
| "has_access_to_container_loop tok document_id check_acls (r # rs) =
     (case (if dr_document_id r = document_id then dav_acls (dr_data r) else None) of
        Some acls \<Rightarrow> first_member_grant tok check_acls acls
      | None \<Rightarrow> has_access_to_container_loop tok document_id check_acls rs)"

definition has_access_to_container :: "dav_resources \<Rightarrow> access_token \<Rightarrow> u32 \<Rightarrow> acl bitmap \<Rightarrow> bool" where
  "has_access_to_container drs tok document_id check_acls =
     has_access_to_container_loop tok document_id check_acls (drs_resources drs)"

fun container_acl_loop :: "access_token \<Rightarrow> u32 \<Rightarrow> dav_resource list \<Rightarrow> acl bitmap" where
  "container_acl_loop tok document_id [] = bm_new"
| "container_acl_loop tok document_id (r # rs) =
     (case (if dr_document_id r = document_id then dav_acls (dr_data r) else None) of
        Some acls \<Rightarrow> effective_acl_loop tok bm_new acls
      | None \<Rightarrow> container_acl_loop tok document_id rs)"

definition container_acl :: "dav_resources \<Rightarrow> access_token \<Rightarrow> u32 \<Rightarrow> acl bitmap" where
  "container_acl drs tok document_id = container_acl_loop tok document_id (drs_resources drs)"

definition dav_document_ids :: "dav_resources \<Rightarrow> bool \<Rightarrow> u32 list" where
  "dav_document_ids drs is_container =
     List.map_filter (\<lambda>r. if dav_is_container (dr_data r) = is_container then Some (dr_document_id r) else None)
       (drs_resources drs)"

definition has_container_id :: "dav_resources \<Rightarrow> u32 \<Rightarrow> bool" where
  "has_container_id drs i \<longleftrightarrow>
     list_ex (\<lambda>r. dr_document_id r = i \<and> dav_is_container (dr_data r)) (drs_resources drs)"

definition has_item_id :: "dav_resources \<Rightarrow> u32 \<Rightarrow> bool" where
  "has_item_id drs i \<longleftrightarrow>
     list_ex (\<lambda>r. dr_document_id r = i \<and> \<not> dav_is_container (dr_data r)) (drs_resources drs)"

subsection \<open>Changed principals\<close>

datatype principal_field =
    PF_Name | PF_Type | PF_Quota | PF_UsedQuota | PF_Description | PF_Secrets | PF_Emails | PF_MemberOf
  | PF_Members | PF_Tenant | PF_Roles | PF_Lists | PF_EnabledPermissions | PF_DisabledPermissions
  | PF_Picture | PF_Urls | PF_ExternalMembers | PF_Locale | PF_BrandName | PF_BrandLogoUrl | PF_BrandTheme

record changed_principal =
  cp_typ :: principal_type
  cp_name_change :: bool
  cp_member_change :: bool

type_synonym changed_principals = "u32 \<Rightarrow> changed_principal option"

definition changed_principal_new :: "principal_type \<Rightarrow> changed_principal" where
  "changed_principal_new typ = \<lparr>cp_typ = typ, cp_name_change = False, cp_member_change = False\<rparr>"

definition entry_or_new :: "changed_principals \<Rightarrow> u32 \<Rightarrow> principal_type \<Rightarrow> changed_principal" where
  "entry_or_new m i typ = (case m i of Some c \<Rightarrow> c | None \<Rightarrow> changed_principal_new typ)"

definition update_member_change :: "changed_principal \<Rightarrow> bool \<Rightarrow> changed_principal" where
  "update_member_change c b = c\<lparr>cp_member_change := cp_member_change c \<or> b\<rparr>"

definition update_name_change :: "changed_principal \<Rightarrow> bool \<Rightarrow> changed_principal" where
  "update_name_change c b = c\<lparr>cp_name_change := cp_name_change c \<or> b\<rparr>"

definition add_change ::
  "changed_principals \<Rightarrow> u32 \<Rightarrow> principal_type \<Rightarrow> principal_field \<Rightarrow> changed_principals" where
  "add_change m principal_id typ field =
     (if ((typ \<in> {Type_Individual, Type_Group}
           \<and> field \<in> {PF_Name, PF_Quota, PF_Secrets, PF_Emails, PF_MemberOf, PF_Members, PF_Tenant, PF_Roles,
                       PF_EnabledPermissions, PF_DisabledPermissions})
          \<or> (typ \<in> {Type_Tenant, Type_Role, Type_ApiKey, Type_OauthClient}
             \<and> field \<in> {PF_MemberOf, PF_Members, PF_Secrets, PF_Tenant, PF_Roles,
                         PF_EnabledPermissions, PF_DisabledPermissions}))
         \<and> principal_id < ROLE_USER
      then m(principal_id \<mapsto>
             update_name_change
               (update_member_change (entry_or_new m principal_id typ)
                 (field \<in> {PF_EnabledPermissions, PF_DisabledPermissions} \<and> typ \<in> {Type_Role, Type_Tenant}))
               (field = PF_Name))
      else m)"

definition add_member_change ::
  "changed_principals \<Rightarrow> u32 \<Rightarrow> principal_type \<Rightarrow> u32 \<Rightarrow> principal_type \<Rightarrow> changed_principals" where
  "add_member_change m principal_id principal_typ member_id member_typ =
     (if principal_typ \<in> {Type_Group, Type_Role} \<and> member_typ \<in> {Type_Individual, Type_ApiKey, Type_OauthClient}
      then m(member_id \<mapsto> entry_or_new m member_id member_typ)
      else if principal_typ \<in> {Type_Individual, Type_ApiKey, Type_OauthClient} \<and> member_typ \<in> {Type_Group, Type_Role}
      then m(principal_id \<mapsto> entry_or_new m principal_id principal_typ)
      else if principal_typ \<in> {Type_Group, Type_Tenant, Type_Role}
              \<and> member_typ \<in> {Type_Individual, Type_Group, Type_Tenant, Type_Role}
      then let m1 = (if principal_id < ROLE_USER
                     then m(principal_id \<mapsto>
                            update_member_change (entry_or_new m principal_id principal_typ) (member_typ = Type_Role))
                     else m)
           in if member_id < ROLE_USER
              then m1(member_id \<mapsto>
                     update_member_change (entry_or_new m1 member_id member_typ) (principal_typ = Type_Role))
              else m1
      else m)"

definition add_deletion :: "changed_principals \<Rightarrow> u32 \<Rightarrow> principal_type \<Rightarrow> changed_principals" where
  "add_deletion m principal_id typ =
     (if typ \<in> {Type_Individual, Type_Group, Type_Tenant, Type_Role, Type_ApiKey, Type_OauthClient}
      then m(principal_id \<mapsto> entry_or_new m principal_id typ) else m)"

text \<open>
  \<open>grants_differ\<close> is the inner loop of \<open>refresh_acls\<close>: it compares with the first item
  of the same account and stands at \<open>true\<close> when there is none.
\<close>

fun grants_differ :: "acl_grant \<Rightarrow> acl_grant list \<Rightarrow> bool" where
  "grants_differ x [] = True"
| "grants_differ x (y # ys) =
     (if ag_account_id y = ag_account_id x then ag_grants y \<noteq> ag_grants x else grants_differ x ys)"

definition add_acl_change :: "changed_principals \<Rightarrow> acl_grant \<Rightarrow> changed_principals" where
  "add_acl_change m x = add_change m (ag_account_id x) Type_Individual PF_EnabledPermissions"

definition refresh_acls :: "acl_grant list \<Rightarrow> acl_grant list option \<Rightarrow> changed_principals" where
  "refresh_acls acl_changes current =
     (case current of
        Some acl_current \<Rightarrow>
          let m = foldl (\<lambda>m x. if grants_differ x acl_changes then add_acl_change m x else m) Map.empty acl_current
          in foldl (\<lambda>m x. if grants_differ x acl_current then add_acl_change m x else m) m acl_changes
      | None \<Rightarrow> foldl add_acl_change Map.empty acl_changes)"

subsection \<open>Cache invalidation\<close>

text \<open>
  The identifiers with an entry in each of the caches that are invalidated, and the messages that are
  broadcast to the cluster. The listing of a tenant's principals and of a principal's members are
  parameters; their errors are logged and skipped. \<open>changed\<close> lists the changed principals in the
  iteration order of the hash map.
\<close>

record server_caches =
  sc_files :: "u32 set"
  sc_contacts :: "u32 set"
  sc_events :: "u32 set"
  sc_scheduling :: "u32 set"
  sc_permissions :: "u32 set"
  sc_access_tokens :: "u32 set"

datatype broadcast = InvalidateAccessTokens "u32 set" | InvalidateGroupwareCache "u32 list"

record invalidation =
  iv_caches :: server_caches
  iv_changed_ids :: "u32 set"
  iv_changed_names :: "u32 list"
  iv_nested :: "u32 list"

definition invalidate_changed ::
  "(u32 \<Rightarrow> auth_error + u32 list) \<Rightarrow> invalidation \<Rightarrow> u32 \<times> changed_principal \<Rightarrow> invalidation" where
  "invalidate_changed list_principals iv x =
     (case x of (i, cp) \<Rightarrow>
        let iv1 = iv\<lparr>iv_changed_ids := insert i (iv_changed_ids iv)\<rparr>;
            c = iv_caches iv1;
            iv2 = (if cp_name_change cp
                   then iv1\<lparr>iv_caches := c\<lparr>sc_files := sc_files c - {i}, sc_contacts := sc_contacts c - {i},
                              sc_events := sc_events c - {i}, sc_scheduling := sc_scheduling c - {i}\<rparr>,
                            iv_changed_names := iv_changed_names iv1 @ [i]\<rparr>
                   else iv1)
        in if cp_member_change cp
           then if cp_typ cp = Type_Tenant
                then (case list_principals i of
                        Inr ids \<Rightarrow> iv2\<lparr>iv_changed_ids := foldl (\<lambda>s j. insert j s) (iv_changed_ids iv2) ids\<rparr>
                      | Inl e \<Rightarrow> iv2)
                else iv2\<lparr>iv_nested := iv_nested iv2 @ [i]\<rparr>
           else iv2)"

function nested_loop ::
  "(u32 \<Rightarrow> auth_error + u32 list) \<Rightarrow> u32 list \<Rightarrow> u32 list list \<Rightarrow> u32 set \<Rightarrow> u32 set" where
  "nested_loop get_members ids ids_stack changed_ids =
     (case ids of
        i # ids' \<Rightarrow>
          if i \<in> changed_ids then nested_loop get_members ids' ids_stack changed_ids
          else (case get_members i of
                  Inr members \<Rightarrow> nested_loop get_members members (ids' # ids_stack) (insert i changed_ids)
                | Inl e \<Rightarrow> nested_loop get_members ids' ids_stack (insert i changed_ids))
      | [] \<Rightarrow>
          (case ids_stack of
             prev_ids # ids_stack' \<Rightarrow> nested_loop get_members prev_ids ids_stack' changed_ids
           | [] \<Rightarrow> changed_ids))"
  by pat_completeness auto
termination
proof (relation "inv_image (less_than <*lex*> less_than)
    (\<lambda>(get_members, ids, stack, changed). (card (- changed), length ids + sum_list (map (Suc \<circ> length) stack)))")
qed (auto intro!: psubset_card_mono)

declare nested_loop.simps [simp del]

definition invalidate_principal_caches ::
  "(u32 \<Rightarrow> auth_error + u32 list) \<Rightarrow> (u32 \<Rightarrow> auth_error + u32 list) \<Rightarrow> server_caches
   \<Rightarrow> (u32 \<times> changed_principal) list \<Rightarrow> server_caches \<times> broadcast list" where
  "invalidate_principal_caches list_principals get_members caches changed =
     (let iv = foldl (invalidate_changed list_principals)
                 \<lparr>iv_caches = caches, iv_changed_ids = {}, iv_changed_names = [], iv_nested = []\<rparr> changed;
          changed_ids = (if iv_nested iv \<noteq> [] then nested_loop get_members (iv_nested iv) [] (iv_changed_ids iv)
                         else iv_changed_ids iv);
          c = iv_caches iv;
          (c', msgs) = (if changed_ids \<noteq> {}
                        then (c\<lparr>sc_permissions := sc_permissions c - changed_ids,
                                sc_access_tokens := sc_access_tokens c - changed_ids\<rparr>,
                              [InvalidateAccessTokens changed_ids])
                        else (c, []))
      in (c', msgs @ (if iv_changed_names iv \<noteq> [] then [InvalidateGroupwareCache (iv_changed_names iv)] else [])))"

subsection \<open>Rights in bitmaps\<close>

lemma contains_union:
  "bm_contains to_u64 (bm_union a b) x \<longleftrightarrow> bm_contains to_u64 a x \<or> bm_contains to_u64 b x"
  by (simp add: bm_contains_def bm_union_def and_one_shl bit_or_iff)

lemma contains_new [simp]: "\<not> bm_contains to_u64 bm_new x"
  by (simp add: bm_contains_def bm_new_def)

lemma is_empty_intersection:
  "\<not> bm_is_empty (bm_intersection a b) \<longleftrightarrow> (\<exists>n. bit (bits a) n \<and> bit (bits b) n)"
proof -
  have "n < 64" if "bit (bits a) n" for n using bit_imp_le_length [OF that] by simp
  then have "bm_is_empty (bm_intersection a b) \<longleftrightarrow> (\<forall>n. \<not> (bit (bits a) n \<and> bit (bits b) n))"
    unfolding bm_is_empty_def bm_intersection_def by (simp add: bit_eq_iff bit_and_iff) blast
  then show ?thesis by blast
qed

lemma bit_union: "bit (bits (bm_union a b)) n \<longleftrightarrow> bit (bits a) n \<or> bit (bits b) n"
  by (simp add: bm_union_def bit_or_iff)

lemma effective_acl_loop_bits:
  "bit (bits (effective_acl_loop tok acl gs)) n
     \<longleftrightarrow> bit (bits acl) n \<or> (\<exists>g \<in> set gs. is_member tok (ag_account_id g) \<and> bit (bits (ag_grants g)) n)"
  by (induction tok acl gs rule: effective_acl_loop.induct) (auto simp: bit_union)

lemma first_member_grant_sound:
  "first_member_grant tok check acls \<Longrightarrow>
     \<exists>n. bit (bits check) n \<and> (\<exists>g \<in> set acls. is_member tok (ag_account_id g) \<and> bit (bits (ag_grants g)) n)"
  by (induction tok check acls rule: first_member_grant.induct)
    (auto simp: is_empty_intersection split: if_splits)

lemma grant_matches_rights:
  fixes check defines "b \<equiv> bm_from_vec acl_to_u64 acl_is_valid check"
  shows "grant_matches tok b match_any g \<longleftrightarrow> is_member tok (ag_account_id g)
    \<and> (set check - {Acl_None} \<subseteq> acl.items (ag_grants g)
       \<or> match_any \<and> (set check - {Acl_None}) \<inter> acl.items (ag_grants g) \<noteq> {})"
proof -
  let ?i = "bm_intersection (ag_grants g) b"
  have b: "acl.items b = set check - {Acl_None}" "bm_inv acl_max b"
    using acl.items_from_vec [of check] by (auto simp: b_def acl_is_valid_def)
  have i: "bm_inv acl_max ?i"
    using b(2) by (auto simp: acl.inv_bits bm_intersection_def bit_and_iff)
  have "?i = b \<longleftrightarrow> acl.items ?i = acl.items b" using acl.items_inject [OF i b(2)] by auto
  moreover have "bm_is_empty ?i \<longleftrightarrow> acl.items ?i = {}" by (rule acl.is_empty_iff [OF i])
  ultimately show ?thesis using b(1) by (auto simp: grant_matches_def Let_def acl.items_intersection)
qed

lemma shared_containers_loop_mem:
  "d \<in> shared_containers_loop tok check match_any ids rs \<longleftrightarrow> d \<in> ids
     \<or> (\<exists>r \<in> set rs. dr_document_id r = d \<and> (\<exists>acls. dav_acls (dr_data r) = Some acls
          \<and> (\<exists>g \<in> set acls. grant_matches tok check match_any g)))"
proof (induction rs arbitrary: ids)
  case (Cons r rs)
  have "d \<in> foldl (\<lambda>ids acl. if grant_matches tok check match_any acl then insert (dr_document_id r) ids else ids) ids acls
      \<longleftrightarrow> d \<in> ids \<or> (dr_document_id r = d \<and> (\<exists>g \<in> set acls. grant_matches tok check match_any g))" for acls
    by (induction acls arbitrary: ids) auto
  then show ?case using Cons.IH by (auto split: option.splits)
qed simp

lemma container_acl_loop_sound:
  "has_access_to_container_loop tok d check rs \<Longrightarrow>
     \<not> bm_is_empty (bm_intersection (container_acl_loop tok d rs) check)"
proof (induction rs)
  case (Cons r rs)
  show ?case
  proof (cases "if dr_document_id r = d then dav_acls (dr_data r) else None")
    case None
    then show ?thesis using Cons by simp
  next
    case (Some acls)
    then have "first_member_grant tok check acls" using Cons.prems by simp
    from first_member_grant_sound [OF this] show ?thesis using Some
      by (auto simp: is_empty_intersection effective_acl_loop_bits)
  qed
qed simp

lemma nested_loop_known: "set ids \<union> (\<Union>is \<in> set stack. set is) \<subseteq> changed \<Longrightarrow>
    nested_loop get_members ids stack changed = changed"
proof (induction get_members ids stack changed rule: nested_loop.induct)
  case (1 get_members ids stack changed)
  then show ?case by (subst nested_loop.simps) (auto split: list.splits)
qed

text \<open>The principals that the first loop collects.\<close>

definition direct_changes :: "(u32 \<Rightarrow> auth_error + u32 list) \<Rightarrow> (u32 \<times> changed_principal) list \<Rightarrow> u32 set" where
  "direct_changes list_principals changed =
     fst ` set changed \<union> (\<Union>(i, cp) \<in> set changed.
       if cp_member_change cp \<and> cp_typ cp = Type_Tenant
       then (case list_principals i of Inr ids \<Rightarrow> set ids | Inl _ \<Rightarrow> {}) else {})"

lemma foldl_insert: "foldl (\<lambda>s j. insert j s) s xs = s \<union> set xs"
  by (induction xs arbitrary: s) auto

lemma invalidate_changed_fields:
  "iv_changed_ids (invalidate_changed lp iv x) = iv_changed_ids iv \<union> direct_changes lp [x]"
  "set (iv_nested (invalidate_changed lp iv x)) \<subseteq> set (iv_nested iv) \<union> {fst x}"
  "sc_access_tokens (iv_caches (invalidate_changed lp iv x)) = sc_access_tokens (iv_caches iv)"
  "sc_permissions (iv_caches (invalidate_changed lp iv x)) = sc_permissions (iv_caches iv)"
  by (auto simp: invalidate_changed_def direct_changes_def Let_def foldl_insert split: prod.splits sum.splits)

lemma invalidate_changed_fold:
  "iv_changed_ids (foldl (invalidate_changed lp) iv xs) = iv_changed_ids iv \<union> direct_changes lp xs
   \<and> set (iv_nested (foldl (invalidate_changed lp) iv xs)) \<subseteq> set (iv_nested iv) \<union> fst ` set xs
   \<and> sc_access_tokens (iv_caches (foldl (invalidate_changed lp) iv xs)) = sc_access_tokens (iv_caches iv)
   \<and> sc_permissions (iv_caches (foldl (invalidate_changed lp) iv xs)) = sc_permissions (iv_caches iv)"
proof (induction xs arbitrary: iv)
  case (Cons x xs)
  have "direct_changes lp (x # xs) = direct_changes lp [x] \<union> direct_changes lp xs"
    by (auto simp: direct_changes_def)
  then show ?case
    using Cons.IH [of "invalidate_changed lp iv x"] invalidate_changed_fields [of lp iv x] by auto
qed (simp add: direct_changes_def)

lemma add_acl_changes_dom:
  "foldl (\<lambda>m x. if P x then add_acl_change m x else m) m xs a \<noteq> None
     \<longleftrightarrow> m a \<noteq> None \<or> (a < ROLE_USER \<and> (\<exists>x \<in> set xs. P x \<and> ag_account_id x = a))"
  by (induction xs arbitrary: m) (auto simp: add_acl_change_def add_change_def)

definition grant_of :: "acl_grant list \<Rightarrow> u32 \<Rightarrow> acl bitmap option" where
  "grant_of gs a = map_of (map (\<lambda>g. (ag_account_id g, ag_grants g)) gs) a"

lemma grants_differ_iff: "grants_differ x ys \<longleftrightarrow> grant_of ys (ag_account_id x) \<noteq> Some (ag_grants x)"
  by (induction ys) (auto simp: grant_of_def)

lemma grant_of_mem:
  "distinct (map ag_account_id xs) \<Longrightarrow>
     (\<exists>x \<in> set xs. ag_account_id x = a \<and> ag_grants x = b) \<longleftrightarrow> grant_of xs a = Some b"
  by (induction xs) (force simp: grant_of_def image_iff)+

lemma changed_grants:
  "distinct (map ag_account_id xs) \<Longrightarrow>
     (\<exists>x \<in> set xs. grants_differ x ys \<and> ag_account_id x = a)
       \<longleftrightarrow> grant_of xs a \<noteq> None \<and> grant_of xs a \<noteq> grant_of ys a"
  unfolding grants_differ_iff using grant_of_mem [of xs a] by (metis not_None_eq)

subsection \<open>Properties\<close>

text \<open>
  C25: an account has a right on an object exactly when one of the grants of the object is for an
  account the token is a member of and contains the right.
\<close>

theorem effective_acl_grants:
  "bm_contains acl_to_u64 (effective_acl tok grants) right
     \<longleftrightarrow> (\<exists>g \<in> set grants. is_member tok (ag_account_id g) \<and> bm_contains acl_to_u64 (ag_grants g) right)"
  by (auto simp: bm_contains_def and_one_shl effective_acl_def effective_acl_loop_bits bm_new_def)

theorem effective_acl_grants_witness:
  "bm_contains acl_to_u64
     (effective_acl (undefined\<lparr>at_primary_id := 1\<rparr>) [\<lparr>ag_account_id = 1, ag_grants = Bitmap 1\<rparr>]) Acl_Read"
  using effective_acl_grants [of "undefined\<lparr>at_primary_id := 1\<rparr>" "[\<lparr>ag_account_id = 1, ag_grants = Bitmap 1\<rparr>]" Acl_Read]
  by (simp add: is_member_def bm_contains_def one_shl_def)

text \<open>
  C27: a container is listed as shared exactly when one grant to a member account holds all of the
  rights asked for, or, when any right is enough, one of them.
\<close>

theorem shared_containers_exact:
  "d \<in> shared_containers drs tok check match_any \<longleftrightarrow>
     (\<exists>r \<in> set (drs_resources drs). \<exists>acls. \<exists>g \<in> set acls.
        dr_document_id r = d \<and> dav_acls (dr_data r) = Some acls \<and> is_member tok (ag_account_id g)
        \<and> (set check - {Acl_None} \<subseteq> bm_items acl_to_u64 acl_is_valid (ag_grants g)
           \<or> match_any \<and> (set check - {Acl_None}) \<inter> bm_items acl_to_u64 acl_is_valid (ag_grants g) \<noteq> {}))"
  unfolding shared_containers_def shared_containers_loop_mem grant_matches_rights by blast

theorem shared_containers_exact_witness:
  "7 \<in> shared_containers \<lparr>drs_paths = [], drs_resources =
        [\<lparr>dr_document_id = 7, dr_data = DavCalendar ''c'' [\<lparr>ag_account_id = 1, ag_grants = Bitmap 3\<rparr>]\<rparr>]\<rparr>
      (undefined\<lparr>at_primary_id := 1\<rparr>) [Acl_Read, Acl_Modify] False"
  using shared_containers_exact [of 7 "\<lparr>drs_paths = [], drs_resources =
      [\<lparr>dr_document_id = 7, dr_data = DavCalendar ''c'' [\<lparr>ag_account_id = 1, ag_grants = Bitmap 3\<rparr>]\<rparr>]\<rparr>"
      "undefined\<lparr>at_primary_id := 1\<rparr>" "[Acl_Read, Acl_Modify]" False]
  by (simp add: is_member_def bm_items_def acl_is_valid_def bm_contains_def one_shl_def)

text \<open>
  C26: a container that \<open>has_access_to_container\<close> lets through has one of the rights asked for
  among the effective rights of \<open>container_acl\<close>. The converse fails: the check looks at the first
  grant to a member account only.
\<close>

theorem container_check_sound_not_complete:
  "(has_access_to_container drs tok d check \<longrightarrow>
      \<not> bm_is_empty (bm_intersection (container_acl drs tok d) check))
   \<and> (\<exists>drs' tok' d' check'. \<not> has_access_to_container drs' tok' d' check'
      \<and> \<not> bm_is_empty (bm_intersection (container_acl drs' tok' d') check'))"
proof
  show "has_access_to_container drs tok d check \<longrightarrow>
      \<not> bm_is_empty (bm_intersection (container_acl drs tok d) check)"
    using container_acl_loop_sound by (simp add: has_access_to_container_def container_acl_def)
  let ?drs = "\<lparr>drs_paths = [], drs_resources = [\<lparr>dr_document_id = 7, dr_data = DavCalendar ''c''
      [\<lparr>ag_account_id = 1, ag_grants = Bitmap 1\<rparr>, \<lparr>ag_account_id = 2, ag_grants = Bitmap 2\<rparr>]\<rparr>]\<rparr>"
  let ?tok = "undefined\<lparr>at_primary_id := 1, at_member_of := [2]\<rparr>"
  have "\<not> has_access_to_container ?drs ?tok 7 (Bitmap 2)
      \<and> \<not> bm_is_empty (bm_intersection (container_acl ?drs ?tok 7) (Bitmap 2))"
    by (simp add: has_access_to_container_def container_acl_def is_member_def bm_is_empty_def
        bm_intersection_def bm_union_def bm_new_def)
  then show "\<exists>drs' tok' d' check'. \<not> has_access_to_container drs' tok' d' check'
      \<and> \<not> bm_is_empty (bm_intersection (container_acl drs' tok' d') check')" by blast
qed

theorem container_check_sound_not_complete_witness:
  "\<not> bm_is_empty (bm_intersection
      (container_acl \<lparr>drs_paths = [], drs_resources =
         [\<lparr>dr_document_id = 7, dr_data = DavAddressBook ''b'' [\<lparr>ag_account_id = 1, ag_grants = Bitmap 1\<rparr>]\<rparr>]\<rparr>
         (undefined\<lparr>at_primary_id := 1\<rparr>) 7) (Bitmap 1))"
  using container_check_sound_not_complete [of "\<lparr>drs_paths = [], drs_resources =
      [\<lparr>dr_document_id = 7, dr_data = DavAddressBook ''b'' [\<lparr>ag_account_id = 1, ag_grants = Bitmap 1\<rparr>]\<rparr>]\<rparr>"
      "undefined\<lparr>at_primary_id := 1\<rparr>" 7 "Bitmap 1"]
  by (simp add: has_access_to_container_def is_member_def bm_is_empty_def bm_intersection_def)

text \<open>
  C28: a change of the grants of an object marks exactly the accounts whose grant differs before and
  after, accounts that appear and disappear included; the identifiers of built-in roles are never
  marked.
\<close>

theorem refresh_acls_marks_changed:
  assumes "distinct (map ag_account_id acl_changes)" "distinct (map ag_account_id acl_current)"
  shows "refresh_acls acl_changes (Some acl_current) a \<noteq> None
    \<longleftrightarrow> a < ROLE_USER \<and> grant_of acl_changes a \<noteq> grant_of acl_current a"
proof -
  have "refresh_acls acl_changes (Some acl_current) a \<noteq> None \<longleftrightarrow> a < ROLE_USER
      \<and> ((\<exists>x \<in> set acl_current. grants_differ x acl_changes \<and> ag_account_id x = a)
         \<or> (\<exists>x \<in> set acl_changes. grants_differ x acl_current \<and> ag_account_id x = a))"
    unfolding refresh_acls_def Let_def option.case add_acl_changes_dom by blast
  then show ?thesis
    unfolding changed_grants [OF assms(1)] changed_grants [OF assms(2)] by (metis option.exhaust)
qed

theorem refresh_acls_marks_changed_witness:
  "refresh_acls [\<lparr>ag_account_id = 4, ag_grants = Bitmap 1\<rparr>] (Some [\<lparr>ag_account_id = 4, ag_grants = Bitmap 3\<rparr>]) 4 \<noteq> None
   \<and> refresh_acls [\<lparr>ag_account_id = 4, ag_grants = Bitmap 1\<rparr>] (Some [\<lparr>ag_account_id = 4, ag_grants = Bitmap 3\<rparr>]) 5 = None"
  using refresh_acls_marks_changed [of "[\<lparr>ag_account_id = 4, ag_grants = Bitmap 1\<rparr>]" "[\<lparr>ag_account_id = 4, ag_grants = Bitmap 3\<rparr>]" 4]
    refresh_acls_marks_changed [of "[\<lparr>ag_account_id = 4, ag_grants = Bitmap 1\<rparr>]" "[\<lparr>ag_account_id = 4, ag_grants = Bitmap 3\<rparr>]" 5]
  by (simp add: grant_of_def ROLE_USER_def word_less_nat_alt)

text \<open>
  C29: invalidation drops the access tokens and role permissions of the changed principals and of
  the principals of changed tenants, and of no other principal: the walk over the members of changed
  roles and groups starts from identifiers that are already marked and so never adds any.
\<close>

theorem invalidation_skips_members:
  "let c' = fst (invalidate_principal_caches list_principals get_members caches changed)
   in sc_access_tokens c' = sc_access_tokens caches - direct_changes list_principals changed
      \<and> sc_permissions c' = sc_permissions caches - direct_changes list_principals changed"
proof -
  let ?start = "\<lparr>iv_caches = caches, iv_changed_ids = {}, iv_changed_names = [], iv_nested = []\<rparr>"
  let ?iv = "foldl (invalidate_changed list_principals) ?start changed"
  have f: "iv_changed_ids ?iv = direct_changes list_principals changed"
      "set (iv_nested ?iv) \<subseteq> direct_changes list_principals changed"
      "sc_access_tokens (iv_caches ?iv) = sc_access_tokens caches"
      "sc_permissions (iv_caches ?iv) = sc_permissions caches"
    using invalidate_changed_fold [of list_principals ?start changed] by (auto simp: direct_changes_def)
  have "nested_loop get_members (iv_nested ?iv) [] (iv_changed_ids ?iv) = iv_changed_ids ?iv"
    using f(1,2) by (intro nested_loop_known) simp
  then show ?thesis using f by (simp add: invalidate_principal_caches_def Let_def split: prod.splits)
qed

end
