(* ===== verification/Snowflake.thy ===== *)
theory Snowflake
  imports Prelude
begin

text \<open>
  Time-ordered identifiers, \<open>crates/utils/src/snowflake.rs\<close>. A point in time is the number of
  nanoseconds since the Unix epoch, negative before it; the reading of the clock and the random node
  id are arguments. The atomic counter of a generator is a field that each call advances, wrapping
  around as the machine integer does.
\<close>

subsection \<open>Identifiers\<close>

definition SEQUENCE_LEN :: nat where "SEQUENCE_LEN = 12"
definition NODE_ID_LEN :: nat where "NODE_ID_LEN = 9"

definition SEQUENCE_MASK :: u64 where "SEQUENCE_MASK = push_bit SEQUENCE_LEN 1 - 1"
definition NODE_ID_MASK :: u64 where "NODE_ID_MASK = push_bit NODE_ID_LEN 1 - 1"

definition DEFAULT_EPOCH :: u64 where "DEFAULT_EPOCH = 1632280000"

lemmas snowflake_consts = SEQUENCE_LEN_def NODE_ID_LEN_def SEQUENCE_MASK_def NODE_ID_MASK_def DEFAULT_EPOCH_def

text \<open>The default epoch, and the time elapsed since a point in time, which fails when it lies ahead.\<close>

definition epoch_time :: int where
  "epoch_time = uint DEFAULT_EPOCH * 1000000000"

definition elapsed :: "int \<Rightarrow> int \<Rightarrow> nat option" where
  "elapsed now since = (if since \<le> now then Some (nat (now - since)) else None)"

definition as_millis :: "nat \<Rightarrow> nat" where
  "as_millis ns = ns div 1000000"

definition checked_sub :: "nat \<Rightarrow> nat \<Rightarrow> nat option" where
  "checked_sub a b = (if b \<le> a then Some (a - b) else None)"

definition time_part :: "nat \<Rightarrow> u64" where
  "time_part ms = push_bit (SEQUENCE_LEN + NODE_ID_LEN) (of_nat ms)"

definition from_duration :: "int \<Rightarrow> nat \<Rightarrow> u64 option" where
  "from_duration now period =
     do {
       e \<leftarrow> elapsed now epoch_time;
       e \<leftarrow> checked_sub e period;
       Some (time_part (as_millis e))
     }"

definition from_timestamp :: "int \<Rightarrow> u64 \<Rightarrow> u64 option" where
  "from_timestamp now timestamp =
     do {
       n \<leftarrow> elapsed now 0;
       diff \<leftarrow> checked_sub (n div 1000000000) (unat timestamp);
       from_duration now (diff * 1000000000)
     }"

definition make_id :: "nat \<Rightarrow> u64 \<Rightarrow> u64 \<Rightarrow> u64" where
  "make_id ms sequence node_id = (time_part ms OR push_bit NODE_ID_LEN sequence) OR (node_id AND NODE_ID_MASK)"

definition from_sequence_and_node_id :: "int \<Rightarrow> u64 \<Rightarrow> u64 \<Rightarrow> u64 option \<Rightarrow> u64 option" where
  "from_sequence_and_node_id now random sequence node_id =
     (let node_id = (case node_id of Some n \<Rightarrow> n | None \<Rightarrow> random);
          sequence = sequence AND SEQUENCE_MASK
      in map_option (\<lambda>e. make_id (as_millis e) sequence node_id) (elapsed now epoch_time))"

definition to_timestamp :: "u64 \<Rightarrow> u64" where
  "to_timestamp i = drop_bit (SEQUENCE_LEN + NODE_ID_LEN) i div 1000 + DEFAULT_EPOCH"

subsection \<open>Generators\<close>

record snowflake =
  sf_epoch :: int
  sf_node_id :: u64
  sf_sequence :: u64

definition sf_with_node_id :: "u64 \<Rightarrow> snowflake" where
  "sf_with_node_id node_id = \<lparr>sf_epoch = epoch_time, sf_node_id = node_id, sf_sequence = 0\<rparr>"

definition sf_new :: "u64 \<Rightarrow> snowflake" where
  "sf_new random = sf_with_node_id random"

definition sf_clone :: "snowflake \<Rightarrow> snowflake" where
  "sf_clone g = g\<lparr>sf_sequence := 0\<rparr>"

definition past_id :: "int \<Rightarrow> nat \<Rightarrow> snowflake \<Rightarrow> u64 option" where
  "past_id now period g =
     do {
       e \<leftarrow> elapsed now (sf_epoch g);
       e \<leftarrow> checked_sub e period;
       Some (time_part (as_millis e))
     }"

definition sf_is_valid :: "int \<Rightarrow> snowflake \<Rightarrow> bool" where
  "sf_is_valid now g \<longleftrightarrow> elapsed now (sf_epoch g) \<noteq> None"

text \<open>The milliseconds since the epoch of the generator, zero before it.\<close>

definition sf_millis :: "int \<Rightarrow> snowflake \<Rightarrow> nat" where
  "sf_millis now g = (case map_option as_millis (elapsed now (sf_epoch g)) of Some ms \<Rightarrow> ms | None \<Rightarrow> 0)"

definition sf_generate :: "int \<Rightarrow> snowflake \<Rightarrow> u64 \<times> snowflake" where
  "sf_generate now g =
     (make_id (sf_millis now g) (sf_sequence g AND SEQUENCE_MASK) (sf_node_id g), g\<lparr>sf_sequence := sf_sequence g + 1\<rparr>)"

text \<open>The identifiers of successive calls, at the given clock readings.\<close>

fun generate_all :: "int list \<Rightarrow> snowflake \<Rightarrow> u64 list" where
  "generate_all [] g = []"
| "generate_all (now # nows) g = (case sf_generate now g of (i, g') \<Rightarrow> i # generate_all nows g')"

subsection \<open>The parts of an identifier\<close>

lemma unat_and_mask: "unat ((w :: u64) AND (push_bit k 1 - 1)) = unat w mod 2 ^ k" if "k < 64"
proof -
  have "push_bit k 1 - 1 = (mask k :: u64)" by (simp add: mask_eq_exp_minus_1 push_bit_eq_mult)
  then have "w AND (push_bit k 1 - 1) = take_bit k w" by (simp add: take_bit_eq_mask)
  moreover have "unat (take_bit k w) = unat w mod 2 ^ k" by (subst unsigned_take_bit_eq) (rule take_bit_eq_mod)
  ultimately show ?thesis by (simp only:)
qed

lemma unat_make_id:
  assumes "ms < 2 ^ 43" "unat sequence < 2 ^ 12"
  shows "unat (make_id ms sequence node_id) = ms * 2 ^ 21 + unat sequence * 2 ^ 9 + unat node_id mod 2 ^ 9"
proof -
  have "(ms * 2 ^ 21) mod 2 ^ 64 = ms * 2 ^ 21" using assms(1) by (intro mod_less) simp
  then have time: "unat (time_part ms) = ms * 2 ^ 21"
    using assms(1) by (simp add: time_part_def snowflake_consts unat_push_bit unat_of_nat_small)
  have seq: "unat (push_bit NODE_ID_LEN sequence) = unat sequence * 2 ^ 9"
    using assms(2) by (simp add: snowflake_consts unat_push_bit)
  have node: "unat (node_id AND NODE_ID_MASK) = unat node_id mod 2 ^ 9"
    using unat_and_mask [of 9 node_id] by (simp add: snowflake_consts)
  have "unat (make_id ms sequence node_id) = (ms * 2 ^ 21 OR unat sequence * 2 ^ 9) OR unat node_id mod 2 ^ 9"
    by (simp only: make_id_def unsigned_or_eq time seq node)
  also have "ms * 2 ^ 21 OR unat sequence * 2 ^ 9 = ms * 2 ^ 21 + unat sequence * 2 ^ 9"
    using assms(2) by (intro or_eq_add_nat) simp
  also have "\<dots> = (ms * 2 ^ 12 + unat sequence) * 2 ^ 9" by simp
  also have "\<dots> OR unat node_id mod 2 ^ 9 = \<dots> + unat node_id mod 2 ^ 9" by (intro or_eq_add_nat) simp
  finally show ?thesis by simp
qed

lemma parts_inject: "(s :: nat) < 4096 \<Longrightarrow> t < 4096 \<Longrightarrow>
    a * 2097152 + s * 512 + n = b * 2097152 + t * 512 + n \<longleftrightarrow> a = b \<and> s = t"
proof
  assume lt: "s < 4096" "t < 4096" and "a * 2097152 + s * 512 + n = b * 2097152 + t * 512 + n"
  then have eq: "a * 4096 + s = b * 4096 + t" by simp
  have "a = b" using arg_cong [OF eq, of "\<lambda>x. x div 4096"] lt by simp
  with eq show "a = b \<and> s = t" by simp
qed simp

lemma generate_all_nth:
  "i < length nows \<Longrightarrow> generate_all nows g ! i
     = make_id (sf_millis (nows ! i) g) ((sf_sequence g + of_nat i) AND SEQUENCE_MASK) (sf_node_id g)"
proof (induction nows arbitrary: g i)
  case (Cons now nows)
  have "sf_millis n (g\<lparr>sf_sequence := s\<rparr>) = sf_millis n g" for n s by (simp add: sf_millis_def)
  with Cons show ?case by (cases i) (simp_all add: sf_generate_def add.assoc)
qed simp

lemma length_generate_all [simp]: "length (generate_all nows g) = length nows"
  by (induction nows arbitrary: g) (simp_all add: sf_generate_def)

lemma unat_sequence: "unat ((s + of_nat i :: u64) AND SEQUENCE_MASK) = (unat s + i) mod 2 ^ 12"
proof -
  have "unat (s + of_nat i) mod 2 ^ 12 = (unat s + i) mod 2 ^ 12"
    by (simp add: unat_word_ariths unsigned_of_nat take_bit_eq_mod mod_mod_cancel mod_add_right_eq)
  then show ?thesis using unat_and_mask [of 12 "s + of_nat i"] by (simp add: snowflake_consts)
qed

subsection \<open>Properties\<close>

text \<open>
  C30: the identifiers that one generator hands out in successive calls, at whatever readings of the
  clock up to 2 to the 43 milliseconds after the epoch, also when its counter runs over: two of them are
  equal exactly when they were made in the same millisecond and a multiple of 4096 calls apart, an
  identifier made in a later millisecond is larger, and the timestamp of an identifier is the second in
  which it was made.
\<close>

theorem snowflake_ids_ordered:
  assumes "i < length nows" "j < length nows" "sf_millis (nows ! i) g < 2 ^ 43" "sf_millis (nows ! j) g < 2 ^ 43"
  shows "(generate_all nows g ! i = generate_all nows g ! j \<longleftrightarrow>
        sf_millis (nows ! i) g = sf_millis (nows ! j) g \<and> i mod 4096 = j mod 4096)
    \<and> (sf_millis (nows ! i) g < sf_millis (nows ! j) g \<longrightarrow> generate_all nows g ! i < generate_all nows g ! j)
    \<and> unat (to_timestamp (generate_all nows g ! i)) = sf_millis (nows ! i) g div 1000 + 1632280000"
proof -
  let ?s = "\<lambda>i. (unat (sf_sequence g) + i) mod 4096" and ?n = "unat (sf_node_id g) mod 512"
  have seq: "unat ((sf_sequence g + of_nat k) AND SEQUENCE_MASK) < 2 ^ 12" for k by (simp add: unat_sequence)
  have id: "unat (generate_all nows g ! k) = sf_millis (nows ! k) g * 2097152 + ?s k * 512 + ?n"
    if "k < length nows" "sf_millis (nows ! k) g < 2 ^ 43" for k
    using unat_make_id [OF that(2) seq] by (simp add: generate_all_nth [OF that(1)] unat_sequence)
  have bounds: "?n < 512" "?s k < 4096" for k by simp_all
  have "unat (generate_all nows g ! i) = unat (generate_all nows g ! j) \<longleftrightarrow> sf_millis (nows ! i) g = sf_millis (nows ! j) g \<and> ?s i = ?s j"
    unfolding id [OF assms(1,3)] id [OF assms(2,4)] by (rule parts_inject [OF bounds(2) bounds(2)])
  moreover have "?s i = ?s j \<longleftrightarrow> i mod 4096 = j mod 4096"
    by (simp add: nat_mod_eq_iff add.assoc)
  moreover have "unat (generate_all nows g ! i) < unat (generate_all nows g ! j)" if "sf_millis (nows ! i) g < sf_millis (nows ! j) g"
    unfolding id [OF assms(1,3)] id [OF assms(2,4)] using that bounds(1) bounds(2) [of i] by linarith
  moreover have "unat (to_timestamp (generate_all nows g ! i)) = sf_millis (nows ! i) g div 1000 + 1632280000"
  proof -
    have "unat (drop_bit 21 (generate_all nows g ! i)) = sf_millis (nows ! i) g"
      unfolding unat_drop_bit id [OF assms(1,3)] using bounds(1) bounds(2) [of i] by simp
    then show ?thesis using assms(3)
      by (simp add: to_timestamp_def snowflake_consts unat_word_ariths unat_div_distrib)
  qed
  ultimately show ?thesis by (simp add: word_unat_eq_iff word_less_nat_alt)
qed

theorem snowflake_ids_ordered_witness:
  "let ids = generate_all [epoch_time + 1000000, epoch_time + 1000000, epoch_time + 2000000] (sf_with_node_id 5)
   in ids ! 0 \<noteq> ids ! 1 \<and> ids ! 0 < ids ! 2"
  using snowflake_ids_ordered [of 0 "[epoch_time + 1000000, epoch_time + 1000000, epoch_time + 2000000]" 1 "sf_with_node_id 5"]
    snowflake_ids_ordered [of 0 "[epoch_time + 1000000, epoch_time + 1000000, epoch_time + 2000000]" 2 "sf_with_node_id 5"]
  by (simp add: Let_def sf_millis_def sf_with_node_id_def elapsed_def as_millis_def del: generate_all.simps)

end
