(* ===== verification/Topological.thy ===== *)
theory Topological
  imports Prelude
begin

text \<open>
  Sorting by dependencies, \<open>crates/utils/src/topological.rs\<close>. The hash maps are maps, with
  the order in which \<open>retain\<close> visits the nodes as an argument. The double-ended queue is a list
  whose head is its front.
\<close>

subsection \<open>The graph\<close>

record 'a topo =
  ts_edges :: "'a \<Rightarrow> 'a list option"
  ts_count :: "'a \<Rightarrow> nat option"

definition ts_with_capacity :: "'a topo" where
  "ts_with_capacity = \<lparr>ts_edges = Map.empty, ts_count = Map.empty\<rparr>"

definition or_insert :: "('a \<Rightarrow> 'b option) \<Rightarrow> 'a \<Rightarrow> 'b \<Rightarrow> 'a \<Rightarrow> 'b option" where
  "or_insert m k v = (case m k of Some _ \<Rightarrow> m | None \<Rightarrow> m(k \<mapsto> v))"

definition ts_insert :: "'a \<Rightarrow> 'a \<Rightarrow> 'a topo \<Rightarrow> 'a topo" where
  "ts_insert src dst g =
     (let count = or_insert (ts_count g) src 0;
          edges = or_insert (ts_edges g) src [];
          edges = edges(src \<mapsto> the (edges src) @ [dst]);
          count = or_insert count dst 0;
          count = count(dst \<mapsto> the (count dst) + 1)
      in \<lparr>ts_edges = edges, ts_count = count\<rparr>)"

subsection \<open>The iterator\<close>

record 'a topo_iter =
  it_edges :: "'a \<Rightarrow> 'a list option"
  it_count :: "'a \<Rightarrow> nat option"
  it_no_edges :: "'a list"

definition retain_step :: "('a \<Rightarrow> nat option) \<times> 'a list \<Rightarrow> 'a \<Rightarrow> ('a \<Rightarrow> nat option) \<times> 'a list" where
  "retain_step s node = (case s of (count, no_edges) \<Rightarrow>
     if count node = Some 0 then (count(node := None), no_edges @ [node]) else (count, no_edges))"

definition into_iterator :: "('a set \<Rightarrow> 'a list) \<Rightarrow> 'a topo \<Rightarrow> 'a topo_iter" where
  "into_iterator order g =
     (case foldl retain_step (ts_count g, []) (order (dom (ts_count g))) of
        (count, no_edges) \<Rightarrow> \<lparr>it_edges = ts_edges g, it_count = count, it_no_edges = no_edges\<rparr>)"

fun visit_neighbors :: "'a list \<Rightarrow> ('a \<Rightarrow> nat option) \<times> 'a list \<Rightarrow> ('a \<Rightarrow> nat option) \<times> 'a list" where
  "visit_neighbors [] s = s"
| "visit_neighbors (neighbor # neighbors) (count, no_edges) =
     visit_neighbors neighbors
       (case count neighbor of
          Some c \<Rightarrow> if c - 1 = 0 then (count(neighbor := None), neighbor # no_edges)
                    else (count(neighbor \<mapsto> c - 1), no_edges)
        | None \<Rightarrow> (count, no_edges))"

definition it_next :: "'a topo_iter \<Rightarrow> ('a \<times> 'a topo_iter) option" where
  "it_next it =
     (case rev (it_no_edges it) of
        [] \<Rightarrow> None
      | no_edge # rest \<Rightarrow>
          (case visit_neighbors (case it_edges it no_edge of Some edges \<Rightarrow> edges | None \<Rightarrow> []) (it_count it, rev rest) of
             (count, no_edges) \<Rightarrow> Some (no_edge, it\<lparr>it_count := count, it_no_edges := no_edges\<rparr>)))"

definition it_is_valid :: "'a topo_iter \<Rightarrow> bool" where
  "it_is_valid it \<longleftrightarrow> it_count it = Map.empty"

text \<open>Up to \<open>fuel\<close> nodes of the iterator.\<close>

fun it_collect :: "nat \<Rightarrow> 'a topo_iter \<Rightarrow> 'a list \<times> 'a topo_iter" where
  "it_collect 0 it = ([], it)"
| "it_collect (Suc fuel) it =
     (case it_next it of
        None \<Rightarrow> ([], it)
      | Some (x, it') \<Rightarrow> (case it_collect fuel it' of (xs, it'') \<Rightarrow> (x # xs, it'')))"

subsection \<open>Counts of the edges inserted\<close>

definition ts_of :: "('a \<times> 'a) list \<Rightarrow> 'a topo" where
  "ts_of es = foldl (\<lambda>g (src, dst). ts_insert src dst g) ts_with_capacity es"

definition nodes :: "('a \<times> 'a) list \<Rightarrow> 'a set" where
  "nodes es = fst ` set es \<union> snd ` set es"

text \<open>The edges into a node whose source has not been handed out.\<close>

definition pending :: "('a \<times> 'a) list \<Rightarrow> 'a set \<Rightarrow> 'a \<Rightarrow> nat" where
  "pending es done n = length (filter (\<lambda>(a, b). b = n \<and> a \<notin> done) es)"

definition targets :: "('a \<times> 'a) list \<Rightarrow> 'a \<Rightarrow> 'a list" where
  "targets es a = map snd (filter (\<lambda>(x, _). x = a) es)"

lemma ts_of_snoc: "ts_of (es @ [(a, b)]) = ts_insert a b (ts_of es)"
  by (simp add: ts_of_def)

lemma ts_insert_fields:
  "ts_count (ts_insert a b g) n =
     (let c = (case ts_count g n of Some c \<Rightarrow> c | None \<Rightarrow> 0)
      in if n = b then Some (c + 1) else if n = a then Some c else ts_count g n)"
  "ts_edges (ts_insert a b g) n =
     (if n = a then Some ((case ts_edges g a of Some l \<Rightarrow> l | None \<Rightarrow> []) @ [b]) else ts_edges g n)"
  by (auto simp: ts_insert_def Let_def or_insert_def split: option.split)

lemma pending_snoc: "pending (es @ [(a, b)]) d n = pending es d n + (if b = n \<and> a \<notin> d then 1 else 0)"
  by (simp add: pending_def)

lemma pending_outside: "n \<notin> nodes es \<Longrightarrow> pending es d n = 0"
  by (auto simp: pending_def nodes_def filter_empty_conv rev_image_eqI)

lemma nodes_snoc: "nodes (es @ [(a, b)]) = insert a (insert b (nodes es))"
  by (auto simp: nodes_def)

lemma ts_of_fields:
  "ts_count (ts_of es) n = (if n \<in> nodes es then Some (pending es {} n) else None)"
  "ts_edges (ts_of es) n = (if n \<in> fst ` set es then Some (targets es n) else None)"
proof (induction es rule: rev_induct)
  case (snoc e es)
  obtain a b where e: "e = (a, b)" by force
  {
    case 1
    show ?case using snoc(1) by (simp add: e ts_of_snoc ts_insert_fields pending_snoc pending_outside nodes_snoc)
  next
    case 2
    have "targets es a = []" if "a \<notin> fst ` set es"
      using that by (auto simp: targets_def filter_empty_conv rev_image_eqI)
    with snoc(2) show ?case
      by (auto simp: e ts_of_snoc ts_insert_fields targets_def)
  }
qed (simp_all add: ts_of_def ts_with_capacity_def nodes_def)

lemma pending_pos: "0 < pending es done n \<longleftrightarrow> (\<exists>a. (a, n) \<in> set es \<and> a \<notin> done)"
  by (auto simp: pending_def filter_empty_conv)

lemma pending_insert: "a \<notin> done \<Longrightarrow> pending es done n = pending es (insert a done) n + count_list (targets es a) n"
  by (induction es) (auto simp: pending_def targets_def)

subsection \<open>The invariant of the iterator\<close>

lemma visit_neighbors_effect:
  assumes "visit_neighbors ns (count, q) = (count', q')" "\<And>n. count n \<noteq> Some 0"
  shows "(\<forall>n. count' n = (case count n of Some c \<Rightarrow> if c \<le> count_list ns n then None else Some (c - count_list ns n) | None \<Rightarrow> None))
    \<and> set q' = set q \<union> {n. \<exists>c. count n = Some c \<and> c \<le> count_list ns n}
    \<and> (distinct q \<and> set q \<inter> dom count = {} \<longrightarrow> distinct q')"
  using assms
proof (induction ns arbitrary: count q)
  case Nil
  then show ?case by (auto split: option.split)
next
  case (Cons m ns)
  show ?case
  proof (cases "count m")
    case None
    then show ?thesis using Cons.IH [of count q] Cons.prems by (auto split: option.splits)
  next
    case (Some c)
    then have c: "0 < c" using Cons.prems(2) [of m] by (cases c) auto
    show ?thesis
    proof (cases "c = 1")
      case True
      let ?count = "count(m := None)"
      have visit: "visit_neighbors ns (?count, m # q) = (count', q')" using Cons.prems(1) Some True by simp
      have pos: "?count n \<noteq> Some 0" for n using Cons.prems(2) by simp
      have "distinct q'" if "distinct q" "set q \<inter> dom count = {}"
      proof -
        have "distinct (m # q)" "set (m # q) \<inter> dom ?count = {}" using that Some by (auto split: if_splits)
        with Cons.IH [OF visit pos] show ?thesis by blast
      qed
      moreover have "count' n = (case count n of
          Some c \<Rightarrow> if c \<le> count_list (m # ns) n then None else Some (c - count_list (m # ns) n) | None \<Rightarrow> None)" for n
        using Cons.IH [OF visit pos] Some True by (cases "n = m"; cases "count n") auto
      moreover have "set q' = set q \<union> {n. \<exists>c. count n = Some c \<and> c \<le> count_list (m # ns) n}"
        using Cons.IH [OF visit pos] Some True by (auto split: if_splits)
      ultimately show ?thesis by blast
    next
      case False
      let ?count = "count(m \<mapsto> c - 1)"
      have visit: "visit_neighbors ns (?count, q) = (count', q')" using Cons.prems(1) Some False c by simp
      have pos: "?count n \<noteq> Some 0" for n using Cons.prems(2) False c by simp
      have "distinct q'" if "distinct q" "set q \<inter> dom count = {}"
      proof -
        have "set q \<inter> dom ?count = {}" using that Some by (auto split: if_splits)
        with Cons.IH [OF visit pos] that(1) show ?thesis by blast
      qed
      moreover have "count' n = (case count n of
          Some c \<Rightarrow> if c \<le> count_list (m # ns) n then None else Some (c - count_list (m # ns) n) | None \<Rightarrow> None)" for n
        using Cons.IH [OF visit pos] Some False c by (cases "n = m"; cases "count n") auto
      moreover have "set q' = set q \<union> {n. \<exists>c. count n = Some c \<and> c \<le> count_list (m # ns) n}"
      proof -
        have "(\<exists>d. ?count n = Some d \<and> d \<le> count_list ns n) \<longleftrightarrow> (\<exists>d. count n = Some d \<and> d \<le> count_list (m # ns) n)" for n
          using Some c by (cases "n = m") auto
        then show ?thesis using Cons.IH [OF visit pos] by simp
      qed
      ultimately show ?thesis by blast
    qed
  qed
qed

definition topo_inv :: "('a \<times> 'a) list \<Rightarrow> 'a list \<Rightarrow> 'a topo_iter \<Rightarrow> bool" where
  "topo_inv es xs it \<longleftrightarrow>
     it_edges it = ts_edges (ts_of es) \<and> distinct (xs @ it_no_edges it)
   \<and> (\<forall>n. it_count it n = (if 0 < pending es (set xs) n then Some (pending es (set xs) n) else None))
   \<and> set xs \<union> set (it_no_edges it) = {n \<in> nodes es. pending es (set xs) n = 0}
   \<and> (\<forall>i < length xs. \<forall>a. (a, xs ! i) \<in> set es \<longrightarrow> a \<in> set (take i xs))"

lemma topo_inv_next:
  assumes "topo_inv es xs it" "it_next it = Some (x, it')"
  shows "topo_inv es (xs @ [x]) it'"
proof -
  obtain rest count q where q: "it_no_edges it = rest @ [x]"
    "visit_neighbors (case it_edges it x of Some l \<Rightarrow> l | None \<Rightarrow> []) (it_count it, rest) = (count, q)"
    "it' = it\<lparr>it_count := count, it_no_edges := q\<rparr>"
    using assms(2) by (auto simp: it_next_def rev_eq_Cons_iff split: list.splits prod.splits)
  have "(case it_edges it x of Some l \<Rightarrow> l | None \<Rightarrow> []) = targets es x"
    using assms(1) by (auto simp: topo_inv_def ts_of_fields targets_def filter_empty_conv rev_image_eqI)
  then have visit: "visit_neighbors (targets es x) (it_count it, rest) = (count, q)" using q(2) by simp
  have fresh: "x \<notin> set xs" "x \<notin> set rest" "distinct (xs @ rest)" using assms(1) q(1) by (auto simp: topo_inv_def)
  note old = pending_insert [OF fresh(1), of es]
  have cnt: "it_count it n = (if 0 < pending es (set xs) n then Some (pending es (set xs) n) else None)" for n
    using assms(1) by (simp add: topo_inv_def)
  then have effect: "\<forall>n. count n = (case it_count it n of Some c \<Rightarrow> if c \<le> count_list (targets es x) n then None
        else Some (c - count_list (targets es x) n) | None \<Rightarrow> None)"
    "set q = set rest \<union> {n. \<exists>c. it_count it n = Some c \<and> c \<le> count_list (targets es x) n}"
    "distinct rest \<and> set rest \<inter> dom (it_count it) = {} \<longrightarrow> distinct q"
    using visit_neighbors_effect [OF visit] by auto
  have zero: "set xs \<union> set rest \<union> {x} = {n \<in> nodes es. pending es (set xs) n = 0}"
    using assms(1) q(1) by (auto simp: topo_inv_def)
  have new: "{n. \<exists>c. it_count it n = Some c \<and> c \<le> count_list (targets es x) n}
      = {n. 0 < pending es (set xs) n \<and> pending es (insert x (set xs)) n = 0}"
    using old by (auto simp: cnt split: if_splits)
  have inside: "n \<in> nodes es" if "0 < pending es d n" for n d using pending_outside [of n es d] that by auto
  show ?thesis
    unfolding topo_inv_def
  proof (intro conjI allI impI)
    show "it_edges it' = ts_edges (ts_of es)" using assms(1) q(3) by (simp add: topo_inv_def)
    have "pending es (set xs) n = 0" if "n \<in> set rest" for n using zero that by blast
    then have "set rest \<inter> dom (it_count it) = {}" by (auto simp: cnt split: if_splits)
    then have "distinct q" using effect(3) fresh(3) by simp
    moreover have "set q \<inter> (set xs \<union> {x}) = {}" unfolding effect(2) new using fresh zero by auto
    ultimately show "distinct ((xs @ [x]) @ it_no_edges it')" using fresh q(3) by auto
    show "it_count it' n = (if 0 < pending es (set (xs @ [x])) n then Some (pending es (set (xs @ [x])) n) else None)" for n
      using effect(1) old [of n] by (auto simp: q(3) cnt)
    show "set (xs @ [x]) \<union> set (it_no_edges it') = {n \<in> nodes es. pending es (set (xs @ [x])) n = 0}"
    proof -
      have "n \<in> nodes es" if "0 < count_list (targets es x) n" for n using inside [of "set xs" n] old [of n] that by simp
      then show ?thesis unfolding q(3) using effect(2) new zero old inside by auto
    qed
    show "a \<in> set (take i (xs @ [x]))" if "i < length (xs @ [x])" "(a, (xs @ [x]) ! i) \<in> set es" for i a
    proof (cases "i < length xs")
      case True
      then show ?thesis using assms(1) that by (simp add: topo_inv_def nth_append)
    next
      case False
      then have "(a, x) \<in> set es" "i = length xs" using that by (auto simp: nth_append)
      moreover have "pending es (set xs) x = 0" using zero by blast
      ultimately show ?thesis using pending_pos [of es "set xs" x] by auto
    qed
  qed
qed

lemma into_iterator_inv:
  assumes "enumerates order"
  shows "topo_inv es [] (into_iterator order (ts_of es))"
proof -
  let ?count = "ts_count (ts_of es)"
  have dom: "dom ?count = nodes es" by (auto simp: ts_of_fields dom_def split: if_splits)
  have order: "set (order (nodes es)) = nodes es" "distinct (order (nodes es))"
    using assms by (simp_all add: enumerates_def nodes_def)
  have retain: "foldl retain_step (count, q) ns =
      (\<lambda>n. if n \<in> set ns \<and> count n = Some 0 then None else count n, q @ filter (\<lambda>n. count n = Some 0) ns)"
    if "distinct ns" for ns count q
    using that by (induction ns arbitrary: count q) (auto simp: retain_step_def fun_eq_iff intro!: filter_cong)
  have "pending es {} n = 0 \<longleftrightarrow> \<not> 0 < pending es {} n" for n by simp
  then show ?thesis
    using order pending_outside [of _ es "{}"]
    by (auto simp: topo_inv_def into_iterator_def dom retain ts_of_fields split: if_splits)
qed

lemma finite_nodes: "finite (nodes es)"
  by (simp add: nodes_def)

lemma topo_collect:
  assumes "topo_inv es xs it" "card (nodes es) \<le> length xs + fuel" "it_collect fuel it = (ys, it')"
  shows "topo_inv es (xs @ ys) it' \<and> it_no_edges it' = []"
  using assms
proof (induction fuel arbitrary: xs it ys)
  case 0
  have "distinct (xs @ it_no_edges it)" "set (xs @ it_no_edges it) \<subseteq> nodes es"
    using "0.prems"(1) by (auto simp: topo_inv_def)
  then have "length (xs @ it_no_edges it) \<le> card (nodes es)"
    by (metis card_mono distinct_card finite_nodes)
  with 0 show ?case by (cases "it_no_edges it'") auto
next
  case (Suc fuel)
  show ?case
  proof (cases "it_next it")
    case None
    then have "it_no_edges it = []" by (auto simp: it_next_def split: list.splits prod.splits)
    with None Suc.prems show ?thesis by simp
  next
    case (Some r)
    obtain x it1 where r: "r = (x, it1)" by force
    obtain zs where zs: "it_collect fuel it1 = (zs, it')" "ys = x # zs"
      using Suc.prems(3) Some r by (auto split: prod.splits)
    have "topo_inv es (xs @ [x]) it1" using topo_inv_next [OF Suc.prems(1)] Some r by simp
    from Suc.IH [OF this _ zs(1)] Suc.prems(2) zs(2) show ?thesis by simp
  qed
qed

lemma before_acyclic:
  assumes "distinct xs" "\<And>a b. (a, b) \<in> r \<Longrightarrow> \<exists>i j. i < j \<and> j < length xs \<and> xs ! i = a \<and> xs ! j = b"
  shows "acyclic r"
proof -
  have "\<exists>i j. i < j \<and> j < length xs \<and> xs ! i = a \<and> xs ! j = b" if "(a, b) \<in> r\<^sup>+" for a b
    using that
  proof induction
    case (step b c)
    then obtain i j k l where "i < j" "j < length xs" "xs ! i = a" "xs ! j = b" "k < l" "l < length xs" "xs ! k = b" "xs ! l = c"
      using assms(2) by metis
    moreover from this have "j = k" using nth_eq_iff_index_eq [OF assms(1), of j k] by simp
    ultimately show ?case by (metis less_trans)
  qed (rule assms(2))
  then show ?thesis using assms(1) by (metis acyclicI less_irrefl nth_eq_iff_index_eq order_less_trans)
qed

subsection \<open>Properties\<close>

text \<open>
  C19: the iterator ends after at most as many nodes as the graph has, in whatever order the hash map
  lists its nodes. It hands out no node twice and every node only after all nodes with an edge to it,
  and the iterator that is left is valid exactly when all nodes were handed out, which is exactly when
  the graph has no cycle.
\<close>

theorem topological_sort_correct:
  assumes "enumerates order" "card (nodes es) \<le> fuel" "it_collect fuel (into_iterator order (ts_of es)) = (xs, it)"
  shows "it_next it = None \<and> distinct xs \<and> set xs \<subseteq> nodes es
    \<and> (\<forall>i < length xs. \<forall>a. (a, xs ! i) \<in> set es \<longrightarrow> a \<in> set (take i xs))
    \<and> (it_is_valid it \<longleftrightarrow> set xs = nodes es) \<and> (it_is_valid it \<longleftrightarrow> acyclic (set es))"
proof -
  have inv: "topo_inv es xs it" and q: "it_no_edges it = []"
    using topo_collect [OF into_iterator_inv [OF assms(1)], of es fuel xs it] assms(2,3) by auto
  have out: "set xs = {n \<in> nodes es. pending es (set xs) n = 0}" and distinct: "distinct xs"
    and before: "\<forall>i < length xs. \<forall>a. (a, xs ! i) \<in> set es \<longrightarrow> a \<in> set (take i xs)"
    using inv q by (auto simp: topo_inv_def)
  have valid: "it_is_valid it \<longleftrightarrow> (\<forall>n. pending es (set xs) n = 0)"
    using inv by (auto simp: topo_inv_def it_is_valid_def fun_eq_iff)
  have all: "(\<forall>n. pending es (set xs) n = 0) \<longleftrightarrow> set xs = nodes es"
    using out pending_outside [of _ es "set xs"] by blast
  have "acyclic (set es)" if "set xs = nodes es"
  proof (rule before_acyclic [OF distinct])
    fix a b assume ab: "(a, b) \<in> set es"
    then have "b \<in> set xs" using that by (force simp: nodes_def)
    then obtain j where j: "j < length xs" "xs ! j = b" by (auto simp: in_set_conv_nth)
    with before ab have "a \<in> set (take j xs)" by blast
    then obtain i where "i < j" "xs ! i = a" using j(1) by (auto simp: in_set_conv_nth)
    with j show "\<exists>i j. i < j \<and> j < length xs \<and> xs ! i = a \<and> xs ! j = b" by blast
  qed
  moreover have "\<forall>n. pending es (set xs) n = 0" if "acyclic (set es)"
  proof (rule ccontr)
    assume "\<not> (\<forall>n. pending es (set xs) n = 0)"
    then obtain n where n: "0 < pending es (set xs) n" by auto
    have "wf (set es)" using that by (simp add: finite_acyclic_wf)
    then obtain z where "z \<in> {n. 0 < pending es (set xs) n}" and min: "\<And>y. (y, z) \<in> set es \<Longrightarrow> y \<notin> {n. 0 < pending es (set xs) n}"
      by (rule wfE_min [of _ n "{n. 0 < pending es (set xs) n}"]) (use n in simp_all)
    then have z: "0 < pending es (set xs) z" "\<And>y. (y, z) \<in> set es \<Longrightarrow> \<not> 0 < pending es (set xs) y" by simp_all
    then obtain y where y: "(y, z) \<in> set es" "y \<notin> set xs" by (auto simp: pending_pos)
    then have "y \<in> nodes es" by (force simp: nodes_def)
    moreover have "y \<notin> {n \<in> nodes es. pending es (set xs) n = 0}" using y(2) out by blast
    ultimately have "0 < pending es (set xs) y" by simp
    with z(2) [OF y(1)] show False by simp
  qed
  moreover have "set xs \<subseteq> nodes es" using out by blast
  moreover have "it_next it = None" using q by (simp add: it_next_def)
  ultimately show ?thesis using distinct before valid all by blast
qed

theorem topological_sort_correct_witness:
  "case it_collect 3 (into_iterator sorted_list_of_set (ts_of [(1 :: nat, 2), (2, 3), (1, 3)])) of (xs, it) \<Rightarrow>
     distinct xs \<and> set xs \<subseteq> {1, 2, 3} \<and> (it_is_valid it \<longleftrightarrow> acyclic {(1 :: nat, 2), (2, 3), (1, 3)})"
proof -
  let ?es = "[(1 :: nat, 2), (2, 3), (1, 3)]"
  obtain xs it where r: "it_collect 3 (into_iterator sorted_list_of_set (ts_of ?es)) = (xs, it)" by (rule prod.exhaust)
  have nodes: "nodes ?es = {1, 2, 3}" by (auto simp: nodes_def)
  then have "card (nodes ?es) \<le> 3" by simp
  note t = topological_sort_correct [OF enumerates_sorted this r]
  have es: "set ?es = {(1, 2), (2, 3), (1, 3)}" by simp
  show ?thesis unfolding r prod.case using t unfolding nodes es by blast
qed

end
