(* ===== verification/Glob.thy ===== *)
theory Glob
  imports Prelude
begin

text \<open>
  Glob patterns (crates/utils/src/glob.rs): compilation of a pattern, the matching loop with its one
  backtracking position, and the sets and maps of patterns. Characters are code points. The Unicode
  tables of the standard library are an argument. The matching loop is a partial function: that it
  returns is part of what is shown. The loop is compared with the declarative meaning of a pattern, that
  the value splits into one piece per element of the pattern.
\<close>

section \<open>The program\<close>

type_synonym code_point = nat

abbreviation star_ch :: code_point where "star_ch \<equiv> 42"
abbreviation question_ch :: code_point where "question_ch \<equiv> 63"
abbreviation backslash_ch :: code_point where "backslash_ch \<equiv> 92"

record unicode =
  is_uppercase :: "code_point \<Rightarrow> bool"
  char_to_lowercase :: "code_point \<Rightarrow> code_point list"
  str_to_lowercase :: "code_point list \<Rightarrow> code_point list"

datatype pattern_char =
    WildcardMany (pc_num: nat) (pc_match_pos: nat)
  | WildcardSingle (pc_match_pos: nat)
  | PChar (pc_char: code_point) (pc_match_pos: nat)

record glob_pattern =
  gp_pattern :: "pattern_char list"
  gp_to_lower :: bool

subsection \<open>Compilation\<close>

definition compile_char :: "unicode \<Rightarrow> bool \<Rightarrow> code_point \<Rightarrow> pattern_char list" where
  "compile_char uc to_lower c =
     (if to_lower \<and> is_uppercase uc c then map (\<lambda>l. PChar l 0) (char_to_lowercase uc c) else [PChar c 0])"

function compile_loop :: "unicode \<Rightarrow> bool \<Rightarrow> bool \<Rightarrow> code_point list \<Rightarrow> pattern_char list" where
  "compile_loop uc to_lower is_escaped [] = []"
| "compile_loop uc to_lower is_escaped (c # str) =
     (if c = star_ch \<and> \<not> is_escaped then
        WildcardMany (1 + length (takeWhile (\<lambda>x. x = star_ch) str)) 0
          # compile_loop uc to_lower is_escaped (dropWhile (\<lambda>x. x = star_ch) str)
      else if c = question_ch \<and> \<not> is_escaped then WildcardSingle 0 # compile_loop uc to_lower is_escaped str
      else if c = backslash_ch \<and> \<not> is_escaped then compile_loop uc to_lower True str
      else compile_char uc to_lower c @ compile_loop uc to_lower False str)"
  by pat_completeness auto
termination
  by (relation "measure (\<lambda>(_, _, _, str). length str)") (auto simp: le_imp_less_Suc length_dropWhile_le)

definition compile :: "unicode \<Rightarrow> code_point list \<Rightarrow> bool \<Rightarrow> glob_pattern" where
  "compile uc pattern to_lower = \<lparr>gp_pattern = compile_loop uc to_lower False pattern, gp_to_lower = to_lower\<rparr>"

record scan_state =
  sc_last_ch :: code_point
  sc_has_escape :: bool
  sc_is_glob :: bool

definition scan_char :: "scan_state \<Rightarrow> code_point \<Rightarrow> scan_state" where
  "scan_char s ch =
     (if ch = backslash_ch then s\<lparr>sc_has_escape := True\<rparr>
      else if (ch = star_ch \<or> ch = question_ch) \<and> sc_last_ch s \<noteq> backslash_ch then s\<lparr>sc_is_glob := True\<rparr>
      else s)\<lparr>sc_last_ch := ch\<rparr>"

definition scan_pattern :: "code_point list \<Rightarrow> scan_state" where
  "scan_pattern pattern = foldl scan_char \<lparr>sc_last_ch = 0, sc_has_escape = False, sc_is_glob = False\<rparr> pattern"

definition try_compile :: "unicode \<Rightarrow> code_point list \<Rightarrow> bool \<Rightarrow> code_point list + glob_pattern" where
  "try_compile uc pattern to_lower =
     (let s = scan_pattern pattern
      in if sc_is_glob s then Inr (compile uc pattern to_lower)
         else Inl (if sc_has_escape s then filter (\<lambda>c. c \<noteq> backslash_ch) pattern else pattern))"

subsection \<open>Matching\<close>

record match_state =
  m_px :: nat
  m_nx :: nat
  m_next_px :: nat
  m_next_nx :: nat

definition nth_opt :: "'a list \<Rightarrow> nat \<Rightarrow> 'a option" where
  "nth_opt xs i = (if i < length xs then Some (xs ! i) else None)"

text \<open>What the body of the loop does when the current element does not match: go back, or return false.\<close>

definition backtrack :: "code_point list \<Rightarrow> match_state \<Rightarrow> match_state option" where
  "backtrack v s =
     (if 0 < m_next_nx s \<and> m_next_nx s \<le> length v then Some (s\<lparr>m_px := m_next_px s, m_nx := m_next_nx s\<rparr>) else None)"

definition advance :: "match_state \<Rightarrow> match_state" where
  "advance s = s\<lparr>m_px := m_px s + 1, m_nx := m_nx s + 1\<rparr>"

definition match_step :: "pattern_char list \<Rightarrow> code_point list \<Rightarrow> match_state \<Rightarrow> match_state option" where
  "match_step p v s =
     (case nth_opt p (m_px s) of
        Some (PChar c _) \<Rightarrow> if nth_opt v (m_nx s) = Some c then Some (advance s) else backtrack v s
      | Some (WildcardSingle _) \<Rightarrow> if m_nx s < length v then Some (advance s) else backtrack v s
      | Some (WildcardMany _ _) \<Rightarrow> Some (s\<lparr>m_next_px := m_px s, m_next_nx := m_nx s + 1, m_px := m_px s + 1\<rparr>)
      | None \<Rightarrow> backtrack v s)"

partial_function (option) match_loop :: "pattern_char list \<Rightarrow> code_point list \<Rightarrow> match_state \<Rightarrow> bool option" where
  "match_loop p v s =
     (if m_px s < length p \<or> m_nx s < length v then
        (case match_step p v s of None \<Rightarrow> Some False | Some s' \<Rightarrow> match_loop p v s')
      else Some True)"

definition match_start :: match_state where
  "match_start = \<lparr>m_px = 0, m_nx = 0, m_next_px = 0, m_next_nx = 0\<rparr>"

definition glob_matches :: "unicode \<Rightarrow> glob_pattern \<Rightarrow> code_point list \<Rightarrow> bool option" where
  "glob_matches uc g v =
     match_loop (gp_pattern g) (if gp_to_lower g then str_to_lowercase uc v else v) match_start"

subsection \<open>Sets and maps of patterns\<close>

record glob_set =
  gs_entries :: "code_point list set"
  gs_patterns :: "glob_pattern list"

definition gs_new :: glob_set where
  "gs_new = \<lparr>gs_entries = {}, gs_patterns = []\<rparr>"

definition gs_insert :: "unicode \<Rightarrow> code_point list \<Rightarrow> glob_set \<Rightarrow> glob_set" where
  "gs_insert uc pattern s =
     (case try_compile uc pattern False of
        Inr g \<Rightarrow> s\<lparr>gs_patterns := gs_patterns s @ [g]\<rparr>
      | Inl entry \<Rightarrow> s\<lparr>gs_entries := insert entry (gs_entries s)\<rparr>)"

fun any_matches :: "unicode \<Rightarrow> code_point list \<Rightarrow> glob_pattern list \<Rightarrow> bool option" where
  "any_matches uc key [] = Some False"
| "any_matches uc key (g # gs) =
     Option.bind (glob_matches uc g key) (\<lambda>b. if b then Some True else any_matches uc key gs)"

definition gs_contains :: "unicode \<Rightarrow> glob_set \<Rightarrow> code_point list \<Rightarrow> bool option" where
  "gs_contains uc s key = (if key \<in> gs_entries s then Some True else any_matches uc key (gs_patterns s))"

record 'v glob_map =
  gm_entries :: "code_point list \<Rightarrow> 'v option"
  gm_patterns :: "(glob_pattern \<times> 'v) list"

definition gm_new :: "'v glob_map" where
  "gm_new = \<lparr>gm_entries = (\<lambda>_. None), gm_patterns = []\<rparr>"

definition gm_insert :: "unicode \<Rightarrow> code_point list \<Rightarrow> 'v \<Rightarrow> 'v glob_map \<Rightarrow> 'v glob_map" where
  "gm_insert uc pattern x m =
     (case try_compile uc pattern False of
        Inr g \<Rightarrow> m\<lparr>gm_patterns := gm_patterns m @ [(g, x)]\<rparr>
      | Inl entry \<Rightarrow> m\<lparr>gm_entries := (gm_entries m)(entry := Some x)\<rparr>)"

fun find_match :: "unicode \<Rightarrow> code_point list \<Rightarrow> (glob_pattern \<times> 'v) list \<Rightarrow> 'v option option" where
  "find_match uc key [] = Some None"
| "find_match uc key ((g, x) # gs) =
     Option.bind (glob_matches uc g key) (\<lambda>b. if b then Some (Some x) else find_match uc key gs)"

text \<open>The outer option of a lookup is that of the matching loop.\<close>

definition gm_get :: "unicode \<Rightarrow> 'v glob_map \<Rightarrow> code_point list \<Rightarrow> 'v option option" where
  "gm_get uc m key =
     (case gm_entries m key of Some x \<Rightarrow> Some (Some x) | None \<Rightarrow> find_match uc key (gm_patterns m))"

section \<open>The meaning of a pattern\<close>

text \<open>A pattern accepts a value that splits into one piece per element.\<close>

fun admits :: "pattern_char \<Rightarrow> code_point list \<Rightarrow> bool" where
  "admits (WildcardMany _ _) s \<longleftrightarrow> True"
| "admits (WildcardSingle _) s \<longleftrightarrow> length s = 1"
| "admits (PChar c _) s \<longleftrightarrow> s = [c]"

definition accepts :: "pattern_char list \<Rightarrow> code_point list \<Rightarrow> bool" where
  "accepts p v \<longleftrightarrow> (\<exists>pieces. list_all2 admits p pieces \<and> v = concat pieces)"

definition is_many :: "pattern_char \<Rightarrow> bool" where
  "is_many e \<longleftrightarrow> (\<forall>s. admits e s)"

lemma accepts_Nil [simp]: "accepts [] v \<longleftrightarrow> v = []"
  by (auto simp: accepts_def)

lemma accepts_Cons: "accepts (e # p) v \<longleftrightarrow> (\<exists>k \<le> length v. admits e (take k v) \<and> accepts p (drop k v))"
proof
  assume "accepts (e # p) v"
  then obtain s pieces where "admits e s" "list_all2 admits p pieces" "v = s @ concat pieces"
    by (auto simp: accepts_def list_all2_Cons1)
  then show "\<exists>k \<le> length v. admits e (take k v) \<and> accepts p (drop k v)"
    by (intro exI [of _ "length s"]) (auto simp: accepts_def)
next
  assume "\<exists>k \<le> length v. admits e (take k v) \<and> accepts p (drop k v)"
  then obtain k pieces where "admits e (take k v)" "list_all2 admits p pieces" "drop k v = concat pieces"
    by (auto simp: accepts_def)
  then show "accepts (e # p) v"
    unfolding accepts_def by (intro exI [of _ "take k v # pieces"]) (simp flip: \<open>drop k v = concat pieces\<close>)
qed

lemma is_many_simps [simp]: "is_many (WildcardMany n m)" "\<not> is_many (WildcardSingle m)" "\<not> is_many (PChar c m)"
  by (auto simp: is_many_def intro: exI [of _ "[]"])

lemma not_many_length: "\<not> is_many e \<Longrightarrow> admits e s \<Longrightarrow> length s = 1"
  by (cases e) auto

lemma accepts_one:
  assumes "\<not> is_many e"
  shows "accepts (e # p) v \<longleftrightarrow> v \<noteq> [] \<and> admits e [hd v] \<and> accepts p (tl v)"
proof (cases v)
  case Nil
  then show ?thesis using assms by (auto simp: accepts_Cons dest: not_many_length)
next
  case (Cons c w)
  have "k = 1" if "admits e (take k v)" "k \<le> length v" for k using not_many_length [OF assms that(1)] that(2) by simp
  moreover have "1 \<le> length v" by (simp add: Cons)
  ultimately have "accepts (e # p) v \<longleftrightarrow> admits e (take 1 v) \<and> accepts p (drop 1 v)" unfolding accepts_Cons by metis
  then show ?thesis by (simp add: Cons)
qed

lemma accepts_many:
  assumes "is_many e"
  shows "accepts (e # p) v \<longleftrightarrow> (\<exists>k \<le> length v. accepts p (drop k v))"
  using assms by (simp add: accepts_Cons is_many_def)

lemma accepts_many_step:
  assumes "is_many e"
  shows "accepts (e # p) v \<longleftrightarrow> accepts p v \<or> v \<noteq> [] \<and> accepts (e # p) (tl v)"
  unfolding accepts_many [OF assms]
proof (cases v)
  case (Cons c w)
  have "(\<exists>k \<le> Suc n. P k) \<longleftrightarrow> P 0 \<or> (\<exists>k \<le> n. P (Suc k))" for P n
    by (metis Suc_le_mono not0_implies_Suc zero_le)
  then show "(\<exists>k \<le> length v. accepts p (drop k v)) \<longleftrightarrow> accepts p v \<or> v \<noteq> [] \<and> (\<exists>k \<le> length (tl v). accepts p (drop k (tl v)))"
    by (simp add: Cons)
qed simp

lemma accepts_many_suffix:
  assumes "is_many e" "accepts (e # p) (drop j v)" "i \<le> j"
  shows "accepts (e # p) (drop i v)"
proof -
  from assms(1,2) obtain k where k: "k \<le> length (drop j v)" "accepts p (drop k (drop j v))" by (auto simp: accepts_many)
  show ?thesis unfolding accepts_many [OF assms(1)]
  proof (cases "j \<le> length v")
    case True
    with k assms(3) show "\<exists>k \<le> length (drop i v). accepts p (drop k (drop i v))"
      by (intro exI [of _ "k + (j - i)"]) (auto simp: add.commute)
  next
    case False
    with k assms(3) show "\<exists>k \<le> length (drop i v). accepts p (drop k (drop i v))"
      by (intro exI [of _ "length (drop i v)"]) auto
  qed
qed

lemma accepts_segment:
  assumes "\<forall>e \<in> set seg. \<not> is_many e" "accepts (seg @ p) v"
  shows "length seg \<le> length v \<and> accepts p (drop (length seg) v)"
  using assms
proof (induction seg arbitrary: v)
  case (Cons e seg)
  then have "v \<noteq> []" "accepts (seg @ p) (tl v)" by (simp_all add: accepts_one)
  with Cons.IH [of "tl v"] Cons.prems(1) show ?case by (cases v) auto
qed simp

section \<open>The matching loop\<close>

text \<open>
  The state of the loop: the positions are within the pattern and the value, the last many-wildcard is
  remembered with the position behind the piece tried for it, either it is about to be tried again, or
  the elements since are all of length one, and the pattern accepts the value exactly when the rest of it
  accepts the rest of the value or the last many-wildcard accepts with a longer piece.
\<close>

definition retried :: "match_state \<Rightarrow> bool" where
  "retried s \<longleftrightarrow> 0 < m_next_nx s \<and> m_px s = m_next_px s \<and> m_nx s = m_next_nx s"

definition retry_accepts :: "pattern_char list \<Rightarrow> code_point list \<Rightarrow> match_state \<Rightarrow> bool" where
  "retry_accepts p v s \<longleftrightarrow> 0 < m_next_nx s \<and> m_next_nx s \<le> length v \<and> accepts (drop (m_next_px s) p) (drop (m_next_nx s) v)"

definition in_segment :: "pattern_char list \<Rightarrow> match_state \<Rightarrow> bool" where
  "in_segment p s \<longleftrightarrow> (\<exists>seg. drop (Suc (m_next_px s)) p = seg @ drop (m_px s) p \<and> (\<forall>e \<in> set seg. \<not> is_many e)
     \<and> m_px s = Suc (m_next_px s) + length seg \<and> Suc (m_nx s) = m_next_nx s + length seg)"

definition match_inv :: "pattern_char list \<Rightarrow> code_point list \<Rightarrow> match_state \<Rightarrow> bool" where
  "match_inv p v s \<longleftrightarrow> m_px s \<le> length p \<and> m_nx s \<le> length v
     \<and> (0 < m_next_nx s \<longrightarrow> m_next_px s < length p \<and> is_many (p ! m_next_px s) \<and> (retried s \<or> in_segment p s))
     \<and> (accepts p v \<longleftrightarrow> accepts (drop (m_px s) p) (drop (m_nx s) v) \<or> retry_accepts p v s)"

lemma match_start_inv: "match_inv p v match_start"
  by (simp add: match_inv_def match_start_def retry_accepts_def)

lemma nth_opt_Some: "nth_opt xs i = Some x \<longleftrightarrow> i < length xs \<and> xs ! i = x"
  by (simp add: nth_opt_def)

lemma nth_opt_None: "nth_opt xs i = None \<longleftrightarrow> length xs \<le> i"
  by (simp add: nth_opt_def)

text \<open>An element of length one that matches, and one that does not.\<close>

lemma advance_inv:
  assumes "match_inv p v s" "m_px s < length p" "m_nx s < length v" "\<not> is_many (p ! m_px s)" "admits (p ! m_px s) [v ! m_nx s]"
  shows "match_inv p v (advance s)"
proof -
  have p: "drop (m_px s) p = p ! m_px s # drop (Suc (m_px s)) p" using assms(2) by (simp add: Cons_nth_drop_Suc)
  have v: "drop (m_nx s) v = v ! m_nx s # drop (Suc (m_nx s)) v" using assms(3) by (simp add: Cons_nth_drop_Suc)
  have "accepts (drop (m_px s) p) (drop (m_nx s) v) \<longleftrightarrow> accepts (drop (Suc (m_px s)) p) (drop (Suc (m_nx s)) v)"
    unfolding p v accepts_one [OF assms(4)] using assms(5) by simp
  moreover have "in_segment p (advance s)" if "0 < m_next_nx s"
  proof -
    from assms(1) that have "is_many (p ! m_next_px s)" "retried s \<or> in_segment p s" by (auto simp: match_inv_def)
    with assms(4) have "in_segment p s" by (auto simp: retried_def)
    then obtain seg where "drop (Suc (m_next_px s)) p = seg @ drop (m_px s) p" "\<forall>e \<in> set seg. \<not> is_many e"
      "m_px s = Suc (m_next_px s) + length seg" "Suc (m_nx s) = m_next_nx s + length seg" unfolding in_segment_def by blast
    with assms(4) p show ?thesis
      unfolding in_segment_def by (intro exI [of _ "seg @ [p ! m_px s]"]) (simp add: advance_def)
  qed
  ultimately show ?thesis using assms(1,2,3) by (auto simp: match_inv_def advance_def retry_accepts_def Suc_le_eq)
qed

lemma backtrack_inv:
  assumes "match_inv p v s" "\<not> accepts (drop (m_px s) p) (drop (m_nx s) v)"
  shows "case backtrack v s of None \<Rightarrow> \<not> accepts p v | Some s' \<Rightarrow> match_inv p v s'"
  using assms by (auto simp: backtrack_def match_inv_def retry_accepts_def retried_def)

lemma many_inv:
  assumes inv: "match_inv p v s" and px: "m_px s < length p" and many: "is_many (p ! m_px s)"
  shows "match_inv p v (s\<lparr>m_next_px := m_px s, m_next_nx := m_nx s + 1, m_px := m_px s + 1\<rparr>)"
proof -
  have p: "drop (m_px s) p = p ! m_px s # drop (Suc (m_px s)) p" using px by (simp add: Cons_nth_drop_Suc)
  have old: "accepts (drop (m_px s) p) (drop (m_nx s) v)" if r: "retry_accepts p v s"
  proof (cases "retried s")
    case True
    then show ?thesis using r by (simp add: retry_accepts_def retried_def)
  next
    case False
    with inv r obtain seg where seg: "drop (Suc (m_next_px s)) p = seg @ drop (m_px s) p" "\<forall>e \<in> set seg. \<not> is_many e"
      "Suc (m_nx s) = m_next_nx s + length seg" and next_px: "m_next_px s < length p" "is_many (p ! m_next_px s)"
      by (auto simp: match_inv_def retry_accepts_def in_segment_def)
    have "drop (m_next_px s) p = p ! m_next_px s # seg @ drop (m_px s) p"
      using seg(1) next_px(1) by (simp add: Cons_nth_drop_Suc [symmetric])
    with r next_px(2) obtain k where k: "k \<le> length (drop (m_next_nx s) v)" "accepts (seg @ drop (m_px s) p) (drop k (drop (m_next_nx s) v))"
      by (auto simp: retry_accepts_def accepts_many)
    then have "accepts (drop (m_px s) p) (drop (length seg + (k + m_next_nx s)) v)"
      using accepts_segment [OF seg(2) k(2)] by simp
    then show ?thesis unfolding p by (rule accepts_many_suffix [OF many]) (use seg(3) in simp)
  qed
  have "accepts (drop (m_px s) p) (drop (m_nx s) v)
      \<longleftrightarrow> accepts (drop (Suc (m_px s)) p) (drop (m_nx s) v) \<or> Suc (m_nx s) \<le> length v \<and> accepts (drop (m_px s) p) (drop (Suc (m_nx s)) v)"
    unfolding p using accepts_many_step [OF many, of "drop (Suc (m_px s)) p" "drop (m_nx s) v"]
    by (auto simp: tl_drop drop_Suc)
  with inv old px many show ?thesis
    by (auto simp: match_inv_def retry_accepts_def in_segment_def Suc_le_eq)
qed

lemma match_step_inv:
  assumes inv: "match_inv p v s" and more: "m_px s < length p \<or> m_nx s < length v"
  shows "case match_step p v s of None \<Rightarrow> \<not> accepts p v | Some s' \<Rightarrow> match_inv p v s'"
proof (cases "m_px s < length p")
  case False
  with inv more have "\<not> accepts (drop (m_px s) p) (drop (m_nx s) v)" by simp
  from backtrack_inv [OF inv this] False show ?thesis by (simp add: match_step_def nth_opt_def)
next
  case px: True
  then have p: "drop (m_px s) p = p ! m_px s # drop (Suc (m_px s)) p" by (simp add: Cons_nth_drop_Suc)
  have stuck: "case backtrack v s of None \<Rightarrow> \<not> accepts p v | Some s' \<Rightarrow> match_inv p v s'"
    if "\<not> is_many (p ! m_px s)" "\<not> (m_nx s < length v \<and> admits (p ! m_px s) [v ! m_nx s])"
    using that by (intro backtrack_inv [OF inv]) (auto simp: p accepts_one hd_drop_conv_nth)
  show ?thesis
  proof (cases "p ! m_px s")
    case (WildcardMany n k)
    with many_inv [OF inv px] px show ?thesis by (simp add: match_step_def nth_opt_def)
  next
    case (WildcardSingle k)
    with advance_inv [OF inv px] stuck px show ?thesis by (simp add: match_step_def nth_opt_def)
  next
    case (PChar c k)
    with advance_inv [OF inv px] stuck px show ?thesis by (simp add: match_step_def nth_opt_def)
  qed
qed

text \<open>Every step brings the loop closer to its end.\<close>

definition match_rank :: "pattern_char list \<Rightarrow> code_point list \<Rightarrow> match_state \<Rightarrow> nat \<times> nat" where
  "match_rank p v s = (2 * (Suc (length v) - m_next_nx s) + (if retried s then 0 else 1), (length p - m_px s) + (length v - m_nx s))"

lemma match_step_cases:
  assumes "match_step p v s = Some s'"
  obtains (many) "m_px s < length p" and "is_many (p ! m_px s)" and "s' = s\<lparr>m_next_px := m_px s, m_next_nx := m_nx s + 1, m_px := m_px s + 1\<rparr>"
  | (advance) "m_px s < length p" and "\<not> is_many (p ! m_px s)" and "s' = advance s"
  | (mismatch) "\<not> (m_px s < length p \<and> is_many (p ! m_px s))" and "backtrack v s = Some s'"
proof (cases "nth_opt p (m_px s)")
  case None
  with assms mismatch show ?thesis by (simp add: match_step_def nth_opt_None)
next
  case (Some e)
  then have px: "m_px s < length p" "p ! m_px s = e" by (simp_all add: nth_opt_Some)
  show ?thesis
  proof (cases "is_many e")
    case True
    with assms Some have "s' = s\<lparr>m_next_px := m_px s, m_next_nx := m_nx s + 1, m_px := m_px s + 1\<rparr>"
      by (cases e) (simp_all add: match_step_def)
    with many px True show ?thesis by blast
  next
    case False
    with assms Some have "s' = advance s \<or> backtrack v s = Some s'"
      by (cases e) (auto simp: match_step_def split: if_splits)
    with advance mismatch px False show ?thesis by blast
  qed
qed

lemma match_step_rank:
  assumes inv: "match_inv p v s" and "match_step p v s = Some s'"
  shows "(match_rank p v s', match_rank p v s) \<in> less_than <*lex*> less_than"
  using assms(2)
proof (cases rule: match_step_cases)
  case many
  have "retried s \<and> m_next_nx s = m_nx s \<or> \<not> retried s \<and> m_next_nx s \<le> Suc (m_nx s)"
    using inv by (auto simp: match_inv_def retried_def in_segment_def)
  moreover have "m_nx s \<le> length v" using inv by (simp add: match_inv_def)
  moreover have "\<not> retried s'" "m_next_nx s' = Suc (m_nx s)" "m_px s' = Suc (m_px s)" "m_nx s' = m_nx s"
    by (simp_all add: many(3) retried_def)
  ultimately show ?thesis using many(1) by (elim disjE conjE) (simp_all add: match_rank_def, arith+)
next
  case advance
  with inv have "\<not> retried s" "\<not> retried (advance s)"
    by (auto simp: match_inv_def retried_def in_segment_def advance_def)
  with advance show ?thesis by (auto simp: match_rank_def advance_def)
next
  case mismatch
  with inv have "\<not> retried s" by (auto simp: match_inv_def retried_def)
  moreover from mismatch(2) have "retried s'" "m_next_nx s' = m_next_nx s" by (auto simp: backtrack_def retried_def split: if_splits)
  ultimately show ?thesis by (simp add: match_rank_def)
qed

lemma match_loop_correct:
  assumes "match_inv p v s"
  shows "match_loop p v s = Some (accepts p v)"
  using assms
proof (induction "match_rank p v s" arbitrary: s rule: wf_induct_rule [OF wf_lex_prod [OF wf_less_than wf_less_than]])
  case 1
  show ?case
  proof (cases "m_px s < length p \<or> m_nx s < length v")
    case False
    with 1(2) have "accepts p v" by (simp add: match_inv_def)
    with False show ?thesis by (subst match_loop.simps) simp
  next
    case True
    from match_step_inv [OF 1(2) this] True 1(1) [OF match_step_rank [OF 1(2)]] show ?thesis
      by (subst match_loop.simps) (auto split: option.splits)
  qed
qed

section \<open>Sets of patterns\<close>

lemma glob_matches_accepts:
  "glob_matches uc g v = Some (accepts (gp_pattern g) (if gp_to_lower g then str_to_lowercase uc v else v))"
  unfolding glob_matches_def by (rule match_loop_correct [OF match_start_inv])

lemma any_matches_accepts: "any_matches uc key gs = Some (\<exists>g \<in> set gs. accepts (gp_pattern g) (if gp_to_lower g then str_to_lowercase uc key else key))"
  by (induction gs) (simp_all add: glob_matches_accepts)

text \<open>Patterns in which no backslash follows a backslash.\<close>

fun simply_escaped :: "code_point list \<Rightarrow> bool" where
  "simply_escaped (c # d # str) \<longleftrightarrow> \<not> (c = backslash_ch \<and> d = backslash_ch) \<and> simply_escaped (d # str)"
| "simply_escaped _ \<longleftrightarrow> True"

lemma scan_keeps_glob: "sc_is_glob s \<Longrightarrow> sc_is_glob (foldl scan_char s str)"
  by (induction str arbitrary: s) (auto simp: scan_char_def)

lemma accepts_literal: "accepts (map (\<lambda>c. PChar c 0) str) v \<longleftrightarrow> v = str"
proof (induction str arbitrary: v)
  case (Cons c str)
  then show ?case by (cases v) (auto simp: accepts_one)
qed simp

lemma compile_of_literal:
  assumes "\<not> sc_is_glob (foldl scan_char s str)" "simply_escaped (sc_last_ch s # str)"
  shows "compile_loop uc False (sc_last_ch s = backslash_ch) str = map (\<lambda>c. PChar c 0) (filter (\<lambda>c. c \<noteq> backslash_ch) str)"
  using assms
proof (induction str arbitrary: s)
  case (Cons c str)
  have rest: "\<not> sc_is_glob (foldl scan_char (scan_char s c) str)" using Cons.prems(1) by simp
  then have "\<not> sc_is_glob (scan_char s c)" using scan_keeps_glob by blast
  then have literal: "c = star_ch \<or> c = question_ch \<Longrightarrow> sc_last_ch s = backslash_ch" by (auto simp: scan_char_def split: if_splits)
  have last: "sc_last_ch (scan_char s c) = c" by (simp add: scan_char_def)
  have escape: "c = backslash_ch \<Longrightarrow> sc_last_ch s \<noteq> backslash_ch" and "simply_escaped (c # str)" using Cons.prems(2) by auto
  with Cons.IH [OF rest] have IH: "compile_loop uc False (c = backslash_ch) str = map (\<lambda>c. PChar c 0) (filter (\<lambda>c. c \<noteq> backslash_ch) str)"
    by (simp add: last)
  show ?case
  proof (cases "c = backslash_ch")
    case True
    with escape IH show ?thesis by simp
  next
    case False
    with literal IH show ?thesis by (auto simp: compile_char_def)
  qed
qed simp

lemma scan_has_escape: "sc_has_escape (foldl scan_char s str) \<longleftrightarrow> sc_has_escape s \<or> backslash_ch \<in> set str"
  by (induction str arbitrary: s) (auto simp: scan_char_def)

lemma try_compile_accepts:
  assumes "simply_escaped pattern"
  shows "case try_compile uc pattern False of
      Inr g \<Rightarrow> g = compile uc pattern False
    | Inl entry \<Rightarrow> \<forall>v. accepts (gp_pattern (compile uc pattern False)) v \<longleftrightarrow> v = entry"
proof -
  let ?s = "\<lparr>sc_last_ch = 0, sc_has_escape = False, sc_is_glob = False\<rparr>"
  have "simply_escaped (0 # pattern)" using assms by (cases pattern) auto
  with compile_of_literal [of ?s pattern uc] have "gp_pattern (compile uc pattern False) = map (\<lambda>c. PChar c 0) (filter (\<lambda>c. c \<noteq> backslash_ch) pattern)"
    if "\<not> sc_is_glob (scan_pattern pattern)" using that by (simp add: scan_pattern_def compile_def)
  moreover have "filter (\<lambda>c. c \<noteq> backslash_ch) pattern = pattern" if "backslash_ch \<notin> set pattern"
    using that by (auto simp: filter_id_conv)
  ultimately show ?thesis
    using scan_has_escape [of ?s pattern] by (auto simp: try_compile_def Let_def accepts_literal scan_pattern_def)
qed

definition gs_of :: "unicode \<Rightarrow> code_point list list \<Rightarrow> glob_set" where
  "gs_of uc patterns = foldl (\<lambda>s p. gs_insert uc p s) gs_new patterns"

lemma gs_of_snoc: "gs_of uc (ps @ [p]) = gs_insert uc p (gs_of uc ps)"
  by (simp add: gs_of_def)

lemma gs_contains_insert:
  assumes "simply_escaped p" "gs_contains uc s key = Some b" "\<forall>g \<in> set (gs_patterns s). \<not> gp_to_lower g"
  shows "gs_contains uc (gs_insert uc p s) key = Some (b \<or> accepts (gp_pattern (compile uc p False)) key)"
  using assms(2,3) try_compile_accepts [OF assms(1), of uc]
  by (auto simp: gs_contains_def gs_insert_def any_matches_accepts compile_def split: sum.splits if_splits)

lemma gs_insert_patterns:
  assumes "\<forall>g \<in> set (gs_patterns s). \<not> gp_to_lower g"
  shows "\<forall>g \<in> set (gs_patterns (gs_insert uc p s)). \<not> gp_to_lower g"
  using assms by (auto simp: gs_insert_def try_compile_def Let_def compile_def split: sum.splits if_splits)

lemma gs_of_patterns: "\<forall>g \<in> set (gs_patterns (gs_of uc ps)). \<not> gp_to_lower g"
  by (induction ps rule: rev_induct) (simp_all add: gs_of_snoc gs_insert_patterns, simp add: gs_of_def gs_new_def)

section \<open>Properties\<close>

text \<open>
  C20: the matching loop returns for every pattern and value, and what it returns is the declarative
  meaning: the value, in lower case when the pattern asks for it, splits into one piece for each element
  of the pattern, the character itself, any one character, or any characters at all. So remembering only
  the last many-wildcard is enough.
\<close>

theorem glob_matches_correct:
  "glob_matches uc g v =
     Some (\<exists>pieces. list_all2 admits (gp_pattern g) pieces
             \<and> (if gp_to_lower g then str_to_lowercase uc v else v) = concat pieces)"
  unfolding glob_matches_accepts accepts_def ..

text \<open>
  C31: a set of patterns, none of which has two backslashes in a row, contains a key exactly when one of
  the patterns accepts it; it makes no difference that patterns without wildcards are kept as plain
  strings.
\<close>

theorem glob_set_contains:
  assumes "list_all simply_escaped patterns"
  shows "gs_contains uc (gs_of uc patterns) key = Some (\<exists>p \<in> set patterns. accepts (gp_pattern (compile uc p False)) key)"
  using assms
proof (induction patterns rule: rev_induct)
  case Nil
  show ?case by (simp add: gs_of_def gs_new_def gs_contains_def)
next
  case (snoc p ps)
  then show ?case unfolding gs_of_snoc by (subst gs_contains_insert [OF _ _ gs_of_patterns]) auto
qed

text \<open>The patterns are \<open>*.rs\<close> and \<open>a\*\<close>, the key is \<open>a*\<close>.\<close>

definition ascii_only :: unicode where
  "ascii_only = \<lparr>is_uppercase = (\<lambda>c. 65 \<le> c \<and> c \<le> 90), char_to_lowercase = (\<lambda>c. [c + 32]),
     str_to_lowercase = map (\<lambda>c. if 65 \<le> c \<and> c \<le> 90 then c + 32 else c)\<rparr>"

theorem glob_set_contains_witness:
  "gs_contains ascii_only (gs_of ascii_only [[42, 46, 114, 115], [97, 92, 42]]) [97, 42] = Some True"
proof -
  have "accepts (gp_pattern (compile ascii_only [97, 92, 42] False)) [97, 42]"
    by (simp add: compile_def compile_char_def accepts_one)
  then show ?thesis
    using glob_set_contains [of "[[42, 46, 114, 115], [97, 92, 42]]" ascii_only "[97, 42]"] by simp
qed

end
