(* ===== verification/BigEndian.thy ===== *)
theory BigEndian
  imports Leb128 "HOL-Library.List_Lexorder"
begin

text \<open>
  Big-endian integers in store keys and values: the writer \<open>KeySerializer\<close> and the reader
  \<open>DeserializeBigEndian\<close> of \<open>crates/store/src/write/key.rs\<close>. Stores order their keys by
  the lexicographic order of the bytes, which is the order of \<open>HOL-Library.List_Lexorder\<close>; the
  facts collected in \<open>be\<close> carry it over to the integers inside a key.
\<close>

named_theorems be \<open>big-endian integers inside byte strings\<close>

subsection \<open>Conversions\<close>

text \<open>\<open>to_be_bytes\<close> and \<open>from_be_bytes\<close> of the Rust integers, at any width.\<close>

definition to_be_bytes :: "'a::len word \<Rightarrow> bytes" where
  "to_be_bytes w = map (\<lambda>i. ucast (drop_bit (8 * i) w)) (rev [0..<LENGTH('a) div 8])"

definition from_be_bytes :: "bytes \<Rightarrow> 'a::len word" where
  "from_be_bytes bs = foldl (\<lambda>acc b. push_bit 8 acc OR ucast b) 0 bs"

text \<open>The number that a byte string spells in base 256.\<close>

fun be_val :: "bytes \<Rightarrow> nat" where
  "be_val [] = 0"
| "be_val (b # bs) = unat b * 256 ^ length bs + be_val bs"

lemma be_val_less: "be_val bs < 256 ^ length bs"
proof (induction bs)
  case (Cons b bs)
  have "unat b < 256" using unat_less_exp [of b] by simp
  then have "Suc (unat b) * 256 ^ length bs \<le> 256 * 256 ^ length bs" by (intro mult_right_mono) auto
  then have "unat b * 256 ^ length bs + 256 ^ length bs \<le> 256 * 256 ^ length bs" by simp
  with Cons show ?case unfolding be_val.simps list.size power_Suc add_0_right add_Suc_right
    by linarith
qed simp

lemma be_val_append: "be_val (xs @ ys) = be_val xs * 256 ^ length ys + be_val ys"
  by (induction xs) (simp_all add: power_add algebra_simps)

lemma be_val_shifts:
  fixes w :: "'a::len word"
  shows "be_val (map (\<lambda>i. ucast (drop_bit (8 * i) w)) (rev [0..<n])) = unat w mod 256 ^ n"
proof (induction n)
  case (Suc n)
  have b: "unat (ucast (drop_bit (8 * n) w) :: u8) = unat w div 256 ^ n mod 256"
    by (simp add: unat_drop_bit unsigned_ucast_eq take_bit_eq_mod power_mult)
  have "unat w mod 256 ^ Suc n = (unat w div 256 ^ n mod 256) * 256 ^ n + unat w mod 256 ^ n"
    using mod_mult2_eq [of "unat w" "256 ^ n" 256] by (simp add: mult.commute)
  then show ?case by (simp add: Suc b del: power_Suc)
qed simp

lemma be_val_to_be_bytes: "8 * (LENGTH('a) div 8) = LENGTH('a) \<Longrightarrow> be_val (to_be_bytes (w :: 'a::len word)) = unat w"
proof -
  assume len: "8 * (LENGTH('a) div 8) = LENGTH('a)"
  have "unat w < 256 ^ (LENGTH('a) div 8)"
    using unat_less_exp [of w] power_mult [of "2 :: nat" 8 "LENGTH('a) div 8"] unfolding len by simp
  then show ?thesis by (simp add: to_be_bytes_def be_val_shifts)
qed

lemma shift_in_byte: "push_bit 8 (acc :: 'a::len word) OR ucast (b :: u8) = acc * 256 + ucast b"
proof -
  have "push_bit 8 acc + ucast b = push_bit 8 acc OR ucast b"
    by (rule disjunctive_add) (auto simp: bit_simps)
  then show ?thesis by (simp add: push_bit_eq_mult)
qed

lemma from_be_bytes_val: "from_be_bytes bs = (of_nat (be_val bs) :: 'a::len word)"
proof -
  have "foldl (\<lambda>acc b. push_bit 8 acc OR ucast b) (acc :: 'a word) bs
      = acc * 256 ^ length bs + of_nat (be_val bs)" for acc
    by (induction bs arbitrary: acc) (simp_all add: shift_in_byte algebra_simps)
  then show ?thesis by (simp add: from_be_bytes_def)
qed

lemma be_length [simp]:
  "length (to_be_bytes (w2 :: u16)) = 2" "length (to_be_bytes (w4 :: u32)) = 4"
  "length (to_be_bytes (w8 :: u64)) = 8"
  by (simp_all add: to_be_bytes_def)

lemma be_roundtrip [simp]:
  "from_be_bytes (to_be_bytes (w2 :: u16)) = w2" "from_be_bytes (to_be_bytes (w4 :: u32)) = w4"
  "from_be_bytes (to_be_bytes (w8 :: u64)) = w8"
  by (simp_all add: from_be_bytes_val be_val_to_be_bytes)

lemma be_inject [simp]:
  "to_be_bytes (x2 :: u16) = to_be_bytes y2 \<longleftrightarrow> x2 = y2"
  "to_be_bytes (x4 :: u32) = to_be_bytes y4 \<longleftrightarrow> x4 = y4"
  "to_be_bytes (x8 :: u64) = to_be_bytes y8 \<longleftrightarrow> x8 = y8"
  using be_roundtrip by metis+

subsection \<open>Order\<close>

lemma less_iff_be_val: "length xs = length ys \<Longrightarrow> xs < ys \<longleftrightarrow> be_val xs < be_val ys"
proof (induction xs ys rule: list_induct2)
  case (Cons x xs y ys)
  note bounds = be_val_less [of xs] be_val_less [of ys]
  have far: "a * 256 ^ length ys + be_val u < b * 256 ^ length ys + be_val v"
    if "a < b" "length u = length ys" for a b u v
  proof -
    have "Suc a * 256 ^ length ys \<le> b * 256 ^ length ys" using that by (intro mult_right_mono) auto
    with be_val_less [of u] that show ?thesis by simp
  qed
  show ?case
  proof (cases "unat x" "unat y" rule: linorder_cases)
    case less
    then show ?thesis using far [OF less, of xs ys] Cons.hyps by (simp add: word_less_nat_alt)
  next
    case equal
    then have "x = y" by (simp only: word_unat_eq_iff)
    then show ?thesis using Cons by simp
  next
    case greater
    then have "x \<noteq> y" by auto
    then show ?thesis using far [OF greater, of ys xs] greater Cons.hyps by (simp add: word_less_nat_alt)
  qed
qed simp

lemma be_less [be]:
  "to_be_bytes (x2 :: u16) < to_be_bytes y2 \<longleftrightarrow> x2 < y2"
  "to_be_bytes (x4 :: u32) < to_be_bytes y4 \<longleftrightarrow> x4 < y4"
  "to_be_bytes (x8 :: u64) < to_be_bytes y8 \<longleftrightarrow> x8 < y8"
  by (simp_all add: less_iff_be_val be_val_to_be_bytes word_less_nat_alt)

lemma append_less_append [be]:
  "length xs = length ys \<Longrightarrow> xs @ us < ys @ vs \<longleftrightarrow> xs < ys \<or> xs = ys \<and> us < (vs :: bytes)"
  by (induction xs ys rule: list_induct2) auto

lemma to_be_from_be: "length bs = 8 \<Longrightarrow> to_be_bytes (from_be_bytes bs :: u64) = bs"
proof -
  assume len: "length bs = 8"
  let ?w = "from_be_bytes bs :: u64"
  have "unat ?w = be_val bs"
    unfolding from_be_bytes_val using be_val_less [of bs] len by (intro unat_of_nat_small) simp
  then have "be_val (to_be_bytes ?w) = be_val bs" by (simp add: be_val_to_be_bytes)
  then have "\<not> to_be_bytes ?w < bs" "\<not> bs < to_be_bytes ?w" by (simp_all add: less_iff_be_val len)
  then show "to_be_bytes ?w = bs" by (simp add: antisym_conv3)
qed

lemma pair_be: "to_be_bytes (push_bit 32 (ucast (a :: u32)) OR ucast (b :: u32) :: u64) = to_be_bytes a @ to_be_bytes b"
proof -
  have "(push_bit 32 (ucast a) :: u64) + ucast b = push_bit 32 (ucast a) OR ucast b"
    by (rule disjunctive_add) (auto simp: bit_simps dest: bit_imp_le_length)
  moreover have "(from_be_bytes (to_be_bytes a @ to_be_bytes b) :: u64) = push_bit 32 (ucast a) + ucast b"
    by (simp add: from_be_bytes_val be_val_append be_val_to_be_bytes push_bit_eq_mult)
  ultimately show ?thesis using to_be_from_be [of "to_be_bytes a @ to_be_bytes b"] by simp
qed

subsection \<open>Writing keys\<close>

text \<open>
  The serialiser is its buffer. A chain \<open>serializer.write(a).write(b)\<close> is the list of its writes
  applied in order. \<open>write_u8\<close>, \<open>write_slice\<close> and \<open>write_be\<close> are the instances of
  \<open>KeySerialize\<close>.
\<close>

type_synonym key_serializer = bytes

definition ks_new :: key_serializer where
  "ks_new = []"

definition write_u8 :: "u8 \<Rightarrow> key_serializer \<Rightarrow> key_serializer" where
  "write_u8 v buf = buf @ [v]"

definition write_slice :: "bytes \<Rightarrow> key_serializer \<Rightarrow> key_serializer" where
  "write_slice v buf = buf @ v"

definition write_be :: "'a::len word \<Rightarrow> key_serializer \<Rightarrow> key_serializer" where
  "write_be v buf = buf @ to_be_bytes v"

definition write_leb128 :: "'a::len word \<Rightarrow> key_serializer \<Rightarrow> key_serializer" where
  "write_leb128 v buf = push_leb128 buf v"

definition ks_chain :: "key_serializer \<Rightarrow> (key_serializer \<Rightarrow> key_serializer) list \<Rightarrow> key_serializer" where
  "ks_chain buf ws = fold (\<lambda>wr b. wr b) ws buf"

lemma ks_chain_simps [simp]:
  "ks_chain buf [] = buf"
  "ks_chain buf (write_u8 v # ws) = ks_chain (buf @ [v]) ws"
  "ks_chain buf (write_slice s # ws) = ks_chain (buf @ s) ws"
  "ks_chain buf (write_be w # ws) = ks_chain (buf @ to_be_bytes w) ws"
  "ks_chain buf (write_leb128 l # ws) = ks_chain (buf @ to_leb128_bytes l) ws"
  by (simp_all add: ks_chain_def write_u8_def write_slice_def write_be_def write_leb128_def push_leb128_def)

subsection \<open>Reading keys\<close>

text \<open>
  \<open>self.get(index..end)\<close> with \<open>usize\<close> bounds: none when the range is out of order or out of
  bounds. Positions computed by subtraction wrap around, as they do in a release build.
\<close>

definition get_range :: "bytes \<Rightarrow> u64 \<Rightarrow> u64 \<Rightarrow> bytes option" where
  "get_range bs start end =
     (if start \<le> end \<and> unat end \<le> length bs
      then Some (take (unat end - unat start) (drop (unat start) bs)) else None)"

definition U64_LEN :: u64 where "U64_LEN = 8"
definition U32_LEN :: u64 where "U32_LEN = 4"
definition U16_LEN :: u64 where "U16_LEN = 2"

definition usize_len :: "'a list \<Rightarrow> u64" where
  "usize_len bs = of_nat (length bs)"

definition deserialize_be_u16 :: "bytes \<Rightarrow> u64 \<Rightarrow> u16 option" where
  "deserialize_be_u16 bs index = map_option from_be_bytes (get_range bs index (index + U16_LEN))"

definition deserialize_be_u32 :: "bytes \<Rightarrow> u64 \<Rightarrow> u32 option" where
  "deserialize_be_u32 bs index = map_option from_be_bytes (get_range bs index (index + U32_LEN))"

definition deserialize_be_u64 :: "bytes \<Rightarrow> u64 \<Rightarrow> u64 option" where
  "deserialize_be_u64 bs index = map_option from_be_bytes (get_range bs index (index + U64_LEN))"

lemmas len_defs = U64_LEN_def U32_LEN_def U16_LEN_def

lemma get_range_middle:
  assumes "length (xs @ ys @ zs) < 2 ^ 64" "s = of_nat (length xs)" "e = of_nat (length (xs @ ys))"
  shows "get_range (xs @ ys @ zs) s e = Some ys"
proof -
  have "unat s = length xs" "unat e = length xs + length ys"
    using assms by (simp_all add: unat_of_nat_small flip: of_nat_add)
  then show ?thesis by (simp add: get_range_def word_le_nat_alt)
qed

lemma get_range_out: "length bs < unat end \<or> end < start \<Longrightarrow> get_range bs start end = None"
  by (auto simp: get_range_def)

lemma deserialize_be_middle:
  assumes "length xs + length zs + 8 < 2 ^ 64" "index = of_nat (length xs)"
  shows "deserialize_be_u16 (xs @ to_be_bytes w2 @ zs) index = Some w2"
    and "deserialize_be_u32 (xs @ to_be_bytes w4 @ zs) index = Some w4"
    and "deserialize_be_u64 (xs @ to_be_bytes w8 @ zs) index = Some w8"
  using assms
  by (simp_all add: deserialize_be_u16_def deserialize_be_u32_def deserialize_be_u64_def
      get_range_middle len_defs)

end
