(* ===== verification/CheekyHash.thy ===== *)
theory CheekyHash
  imports BigEndian
begin

text \<open>
  The hash that keeps short inputs as they are, \<open>crates/utils/src/cheeky_hash.rs\<close>. A hash is an
  array of 16 bytes: the length of the input, capped at 255, and 15 bytes that are the input itself
  or two real hashes of it. The real hashes (\<open>xxh3_64\<close> and \<open>fingerprint64\<close>) are arguments.
\<close>

definition HASH_SIZE :: nat where "HASH_SIZE = 16"
definition HASH_PAYLOAD :: nat where "HASH_PAYLOAD = HASH_SIZE - 1"

datatype cheeky_hash = CheekyHash (ch_raw: bytes)

text \<open>Copying a slice over the bytes of an array that start at a position.\<close>

definition copy_at :: "nat \<Rightarrow> bytes \<Rightarrow> bytes \<Rightarrow> bytes" where
  "copy_at pos src dst = take pos dst @ src @ drop (pos + length src) dst"

definition ch_new :: "(bytes \<Rightarrow> u64) \<Rightarrow> (bytes \<Rightarrow> u64) \<Rightarrow> bytes \<Rightarrow> cheeky_hash" where
  "ch_new xxh3_64 fingerprint64 bs =
     (let hash = replicate HASH_SIZE 0 in
      if length bs \<le> HASH_PAYLOAD
      then CheekyHash (copy_at 1 bs (hash[0 := of_nat (length bs)]))
      else let h1 = to_be_bytes (xxh3_64 bs);
               h2 = to_be_bytes (fingerprint64 bs);
               hash = hash[0 := of_nat (min (length bs) 255)];
               hash = copy_at 1 h1 hash
           in CheekyHash (copy_at 9 (take 7 h2) hash))"

definition ch_deserialize :: "bytes \<Rightarrow> cheeky_hash option" where
  "ch_deserialize bs =
     (case bs of
        [] \<Rightarrow> None
      | len # _ \<Rightarrow>
          let hash_len = 1 + min (unat len) HASH_PAYLOAD;
              hash = (replicate HASH_SIZE 0)[0 := len]
          in if hash_len \<le> length bs
             then Some (CheekyHash (copy_at 1 (take (hash_len - 1) (drop 1 bs)) hash))
             else None)"

definition ch_len :: "cheeky_hash \<Rightarrow> nat" where
  "ch_len h = min (unat (ch_raw h ! 0)) HASH_PAYLOAD + 1"

definition ch_as_bytes :: "cheeky_hash \<Rightarrow> bytes" where
  "ch_as_bytes h = take (ch_len h) (ch_raw h)"

definition ch_payload :: "cheeky_hash \<Rightarrow> bytes" where
  "ch_payload h =
     (let len = unat (ch_raw h ! 0)
      in if len \<le> HASH_PAYLOAD then take len (drop 1 (ch_raw h)) else drop 1 (ch_raw h))"

definition ch_payload_len :: "cheeky_hash \<Rightarrow> u8" where
  "ch_payload_len h = ch_raw h ! 0"

subsection \<open>Well-formed hashes\<close>

text \<open>Arrays of the right size whose bytes behind the stored ones are zero.\<close>

definition ch_wf :: "cheeky_hash \<Rightarrow> bool" where
  "ch_wf h \<longleftrightarrow> length (ch_raw h) = HASH_SIZE \<and> drop (ch_len h) (ch_raw h) = replicate (HASH_SIZE - ch_len h) 0"

lemmas hash_sizes = HASH_SIZE_def HASH_PAYLOAD_def

lemma ch_len_bounds: "1 \<le> ch_len h" "ch_len h \<le> HASH_SIZE"
  by (simp_all add: ch_len_def hash_sizes)

lemma array_head: "(replicate 16 0)[0 := len] = len # replicate 15 (0 :: u8)"
  using replicate_Suc [of 15 "0 :: u8"] by simp

lemma copy_behind_head: "copy_at (Suc 0) src (len # dst) = len # src @ drop (length src) dst"
  by (simp add: copy_at_def)

lemma ch_new_raw:
  "ch_raw (ch_new x f bs) =
     (if length bs \<le> 15 then of_nat (length bs) # bs @ replicate (15 - length bs) 0
      else of_nat (min (length bs) 255) # to_be_bytes (x bs) @ take 7 (to_be_bytes (f bs)))"
proof -
  have "copy_at 9 src (len # h1 @ dst) = len # h1 @ src @ drop (length src) dst"
    if "length h1 = 8" for src len h1 and dst :: bytes
    using that by (simp add: copy_at_def drop_Cons')
  then show ?thesis
    by (simp add: ch_new_def Let_def array_head copy_behind_head HASH_PAYLOAD_def HASH_SIZE_def)
qed

lemma ch_new_head: "unat (ch_raw (ch_new x f bs) ! 0) = min (length bs) 255"
  by (auto simp: ch_new_raw unat_of_nat_small)

lemma ch_new_wf: "ch_wf (ch_new x f bs)"
  using ch_new_head [of x f bs]
  by (auto simp: ch_wf_def ch_len_def hash_sizes ch_new_raw min_def split: if_splits)

lemma ch_raw_split: "ch_wf h \<Longrightarrow> ch_raw h = ch_as_bytes h @ replicate (HASH_SIZE - ch_len h) 0"
  unfolding ch_as_bytes_def by (metis append_take_drop_id ch_wf_def)

lemma ch_as_bytes_length: "ch_wf h \<Longrightarrow> length (ch_as_bytes h) = ch_len h"
  using ch_len_bounds by (simp add: ch_as_bytes_def ch_wf_def)

lemma ch_as_bytes_inj: "ch_wf g \<Longrightarrow> ch_wf h \<Longrightarrow> ch_as_bytes g = ch_as_bytes h \<Longrightarrow> g = h"
  using ch_raw_split ch_as_bytes_length by (metis cheeky_hash.expand)

lemma ch_as_bytes_Cons: "ch_wf h \<Longrightarrow> ch_as_bytes h = ch_payload_len h # ch_payload h"
  by (cases h; cases "ch_raw h")
    (auto simp: ch_wf_def ch_as_bytes_def ch_len_def ch_payload_len_def ch_payload_def hash_sizes Let_def
      min_def)

lemma ch_payload_inj:
  "ch_wf g \<Longrightarrow> ch_wf h \<Longrightarrow> ch_payload g = ch_payload h \<Longrightarrow> ch_payload_len g = ch_payload_len h \<Longrightarrow> g = h"
  by (rule ch_as_bytes_inj) (simp_all add: ch_as_bytes_Cons)

text \<open>
  Reading back the stored bytes of a hash gives the hash, whatever follows them. Inputs of at
  most 15 bytes are kept as they are: two of them have the same hash only when they are equal, and a
  longer input never has the hash of one of them, whatever the two real hash functions are.
\<close>

theorem cheeky_hash_exact_when_short:
  "ch_deserialize (ch_as_bytes (ch_new x f bs) @ rest) = Some (ch_new x f bs)
   \<and> (length bs \<le> HASH_PAYLOAD \<longrightarrow> ch_payload (ch_new x f bs) = bs
       \<and> (ch_new x f cs = ch_new x f bs \<longleftrightarrow> cs = bs))"
proof (intro conjI impI)
  let ?h = "ch_new x f bs"
  note wf = ch_new_wf [of x f bs]
  have len: "ch_len ?h = 1 + min (unat (ch_payload_len ?h)) HASH_PAYLOAD"
    by (simp add: ch_len_def ch_payload_len_def)
  have "length (ch_payload ?h) = min (unat (ch_payload_len ?h)) HASH_PAYLOAD"
    using ch_as_bytes_length [OF wf] len by (simp add: ch_as_bytes_Cons [OF wf])
  then have "ch_deserialize (ch_as_bytes ?h @ rest)
      = Some (CheekyHash (ch_as_bytes ?h @ replicate (HASH_SIZE - ch_len ?h) 0))"
    using len by (simp add: ch_as_bytes_Cons [OF wf] ch_deserialize_def Let_def array_head
        copy_behind_head HASH_SIZE_def)
  then show "ch_deserialize (ch_as_bytes ?h @ rest) = Some ?h"
    using ch_raw_split [OF wf] by (metis cheeky_hash.collapse)
  assume short: "length bs \<le> HASH_PAYLOAD"
  then have payload: "ch_payload (ch_new x f ds) = ds" if "length ds \<le> HASH_PAYLOAD" for ds
    using that by (simp add: ch_payload_def ch_new_head) (simp add: ch_new_raw hash_sizes)
  from payload [OF short] show "ch_payload ?h = bs" .
  show "ch_new x f cs = ?h \<longleftrightarrow> cs = bs"
    using payload [OF short] payload [of cs] ch_new_head [of x f cs] ch_new_head [of x f bs] short
    by (auto simp: hash_sizes min_def split: if_splits)
qed

theorem cheeky_hash_exact_when_short_witness:
  "ch_deserialize (ch_as_bytes (ch_new (\<lambda>_. 1) (\<lambda>_. 2) [7, 8]) @ [9]) = Some (ch_new (\<lambda>_. 1) (\<lambda>_. 2) [7, 8])
   \<and> length [7 :: u8, 8] \<le> HASH_PAYLOAD \<and> ch_payload (ch_new (\<lambda>_. 1) (\<lambda>_. 2) [7, 8]) = [7, 8]"
  using cheeky_hash_exact_when_short [of "\<lambda>_. 1" "\<lambda>_. 2" "[7, 8]" "[9]" "[]"] by (simp add: hash_sizes)

end
