(* ===== verification/Keys.thy ===== *)
theory Keys
  imports CheekyHash MailTypes
begin

text \<open>
  The keys under which every part of the server keeps its data: the value classes of
  \<open>crates/store/src/write/mod.rs\<close> and their byte form in \<open>crates/store/src/write/key.rs\<close>. A key
  lives in a subspace of the store, named by one byte. Serialising the search index \<open>InMemory\<close>
  is unreachable code in the source; the model returns \<open>None\<close> there.
\<close>

subsection \<open>Subspaces\<close>

definition SUBSPACE_ACL :: u8 where "SUBSPACE_ACL = 0x61"
definition SUBSPACE_DIRECTORY :: u8 where "SUBSPACE_DIRECTORY = 0x64"
definition SUBSPACE_TASK_QUEUE :: u8 where "SUBSPACE_TASK_QUEUE = 0x66"
definition SUBSPACE_INDEXES :: u8 where "SUBSPACE_INDEXES = 0x69"
definition SUBSPACE_BLOB_EXTRA :: u8 where "SUBSPACE_BLOB_EXTRA = 0x6a"
definition SUBSPACE_BLOB_LINK :: u8 where "SUBSPACE_BLOB_LINK = 0x6b"
definition SUBSPACE_LOGS :: u8 where "SUBSPACE_LOGS = 0x6c"
definition SUBSPACE_COUNTER :: u8 where "SUBSPACE_COUNTER = 0x6e"
definition SUBSPACE_IN_MEMORY_VALUE :: u8 where "SUBSPACE_IN_MEMORY_VALUE = 0x6d"
definition SUBSPACE_IN_MEMORY_COUNTER :: u8 where "SUBSPACE_IN_MEMORY_COUNTER = 0x79"
definition SUBSPACE_PROPERTY :: u8 where "SUBSPACE_PROPERTY = 0x70"
definition SUBSPACE_SETTINGS :: u8 where "SUBSPACE_SETTINGS = 0x73"
definition SUBSPACE_QUEUE_MESSAGE :: u8 where "SUBSPACE_QUEUE_MESSAGE = 0x65"
definition SUBSPACE_QUEUE_EVENT :: u8 where "SUBSPACE_QUEUE_EVENT = 0x71"
definition SUBSPACE_QUOTA :: u8 where "SUBSPACE_QUOTA = 0x75"
definition SUBSPACE_REPORT_OUT :: u8 where "SUBSPACE_REPORT_OUT = 0x68"
definition SUBSPACE_REPORT_IN :: u8 where "SUBSPACE_REPORT_IN = 0x72"
definition SUBSPACE_TELEMETRY_SPAN :: u8 where "SUBSPACE_TELEMETRY_SPAN = 0x6f"
definition SUBSPACE_TELEMETRY_METRIC :: u8 where "SUBSPACE_TELEMETRY_METRIC = 0x78"
definition SUBSPACE_SEARCH_INDEX :: u8 where "SUBSPACE_SEARCH_INDEX = 0x7a"

lemmas subspace_defs =
  SUBSPACE_ACL_def SUBSPACE_DIRECTORY_def SUBSPACE_TASK_QUEUE_def SUBSPACE_INDEXES_def
  SUBSPACE_BLOB_EXTRA_def SUBSPACE_BLOB_LINK_def SUBSPACE_LOGS_def SUBSPACE_COUNTER_def
  SUBSPACE_IN_MEMORY_VALUE_def SUBSPACE_IN_MEMORY_COUNTER_def SUBSPACE_PROPERTY_def
  SUBSPACE_SETTINGS_def SUBSPACE_QUEUE_MESSAGE_def SUBSPACE_QUEUE_EVENT_def SUBSPACE_QUOTA_def
  SUBSPACE_REPORT_OUT_def SUBSPACE_REPORT_IN_def SUBSPACE_TELEMETRY_SPAN_def
  SUBSPACE_TELEMETRY_METRIC_def SUBSPACE_SEARCH_INDEX_def

definition WITH_SUBSPACE :: u32 where "WITH_SUBSPACE = 1"

subsection \<open>Value classes\<close>

datatype task_epoch = TaskEpoch (te_inner: u64)

datatype search_index = SI_Email | SI_Calendar | SI_Contacts | SI_File | SI_Tracing | SI_InMemory

datatype search_index_id = SIId_Account u32 u32 | SIId_Global u64

record search_index_field =
  sf_field_id :: u8
  sf_data :: bytes

datatype search_index_type =
    SIT_Term u8 cheeky_hash
  | SIT_Index search_index_field
  | SIT_Document

record search_index_class =
  sic_index :: search_index
  sic_id :: search_index_id
  sic_typ :: search_index_type

datatype index_property_class = IP_Hash u8 cheeky_hash | IP_Integer u8 u64

datatype task_queue_class =
    TQ_UpdateIndex task_epoch search_index bool
  | TQ_SendAlarm task_epoch u16 u16 bool
  | TQ_SendImip task_epoch bool
  | TQ_MergeThreads task_epoch

datatype in_memory_class = IM_Key bytes | IM_Counter bytes

datatype directory_class =
    Dir_NameToId bytes
  | Dir_EmailToId bytes
  | Dir_Index bytes u32
  | Dir_MemberOf u32 u32
  | Dir_Members u32 u32
  | Dir_Principal u32
  | Dir_UsedQuota u32

record queue_event =
  qe_due :: u64
  qe_queue_id :: u64
  qe_queue_name :: bytes

record report_event =
  re_due :: u64
  re_policy_hash :: u64
  re_seq_id :: u64
  re_domain :: bytes

datatype queue_class =
    Q_Message u64
  | Q_MessageEvent queue_event
  | Q_DmarcReportHeader report_event
  | Q_DmarcReportEvent report_event
  | Q_TlsReportHeader report_event
  | Q_TlsReportEvent report_event
  | Q_QuotaCount bytes
  | Q_QuotaSize bytes

datatype report_class = Report_Tls u64 u64 | Report_Dmarc u64 u64 | Report_Arf u64 u64

datatype telemetry_class = Tel_Span u64 | Tel_Metric u64 u64 u64

datatype blob_link = BL_Id u64 | BL_Document | BL_Temporary u64

datatype blob_op =
    Blob_Commit bytes
  | Blob_Link bytes blob_link
  | Blob_Quota bytes u64
  | Blob_Undelete bytes u64
  | Blob_SpamSample bytes u64

record any_class =
  any_subspace :: u8
  any_key :: bytes

datatype value_class =
    VC_Property u8
  | VC_IndexProperty index_property_class
  | VC_Acl u32
  | VC_InMemory in_memory_class
  | VC_TaskQueue task_queue_class
  | VC_Directory directory_class
  | VC_Blob blob_op
  | VC_Config bytes
  | VC_Queue queue_class
  | VC_Report report_class
  | VC_Telemetry telemetry_class
  | VC_SearchIndex search_index_class
  | VC_Any any_class
  | VC_ShareNotification u64 u32
  | VC_DocumentId
  | VC_ChangeId

record value_key =
  vk_account_id :: u32
  vk_collection :: u8
  vk_document_id :: u32
  vk_class :: value_class

record log_key =
  lk_account_id :: u32
  lk_collection :: u8
  lk_change_id :: u64

record index_key =
  ik_account_id :: u32
  ik_collection :: u8
  ik_document_id :: u32
  ik_field :: u8
  ik_key :: bytes

record index_key_prefix =
  ikp_account_id :: u32
  ikp_collection :: u8
  ikp_field :: u8

subsection \<open>Task epochs\<close>

definition EPOCH_OFFSET :: u64 where "EPOCH_OFFSET = 1632280000"

definition te_new :: "u64 \<Rightarrow> task_epoch" where
  "te_new timestamp =
     TaskEpoch (push_bit 32 (if timestamp < EPOCH_OFFSET then 0 else timestamp - EPOCH_OFFSET))"

definition te_with_attempt :: "task_epoch \<Rightarrow> u16 \<Rightarrow> task_epoch" where
  "te_with_attempt t attempt = TaskEpoch (te_inner t OR push_bit 16 (ucast attempt))"

definition te_with_sequence_id :: "task_epoch \<Rightarrow> u16 \<Rightarrow> task_epoch" where
  "te_with_sequence_id t sequence_id = TaskEpoch (te_inner t OR ucast sequence_id)"

definition te_due :: "task_epoch \<Rightarrow> u64" where
  "te_due t = drop_bit 32 (te_inner t) + EPOCH_OFFSET"

definition te_attempt :: "task_epoch \<Rightarrow> u16" where
  "te_attempt t = ucast (drop_bit 16 (te_inner t))"

definition te_sequence_id :: "task_epoch \<Rightarrow> u16" where
  "te_sequence_id t = ucast (te_inner t)"

subsection \<open>Search indexes\<close>

fun si_to_u8 :: "search_index \<Rightarrow> u8 option" where
  "si_to_u8 SI_Email = Some 0"
| "si_to_u8 SI_Calendar = Some 1"
| "si_to_u8 SI_Contacts = Some 2"
| "si_to_u8 SI_File = Some 3"
| "si_to_u8 SI_Tracing = Some 4"
| "si_to_u8 SI_InMemory = None"

definition si_try_from_u8 :: "u8 \<Rightarrow> search_index option" where
  "si_try_from_u8 v =
     (if v = 0 then Some SI_Email else if v = 1 then Some SI_Calendar
      else if v = 2 then Some SI_Contacts else if v = 3 then Some SI_File
      else if v = 4 then Some SI_Tracing else None)"

fun si_name :: "search_index \<Rightarrow> string" where
  "si_name SI_Email = ''email''"
| "si_name SI_Calendar = ''calendar''"
| "si_name SI_Contacts = ''contacts''"
| "si_name SI_File = ''file''"
| "si_name SI_Tracing = ''tracing''"
| "si_name SI_InMemory = ''in_memory''"

definition si_try_from_str :: "string \<Rightarrow> search_index option" where
  "si_try_from_str v =
     (if v = ''email'' then Some SI_Email else if v = ''calendar'' then Some SI_Calendar
      else if v = ''contacts'' then Some SI_Contacts else if v = ''file'' then Some SI_File
      else if v = ''tracing'' then Some SI_Tracing else None)"

subsection \<open>The subspace of a class\<close>

fun blob_op_subspace :: "blob_op \<Rightarrow> u8" where
  "blob_op_subspace (Blob_Commit _) = SUBSPACE_BLOB_LINK"
| "blob_op_subspace (Blob_Link _ _) = SUBSPACE_BLOB_LINK"
| "blob_op_subspace _ = SUBSPACE_BLOB_EXTRA"

fun queue_subspace :: "queue_class \<Rightarrow> u8" where
  "queue_subspace (Q_Message _) = SUBSPACE_QUEUE_MESSAGE"
| "queue_subspace (Q_MessageEvent _) = SUBSPACE_QUEUE_EVENT"
| "queue_subspace (Q_QuotaCount _) = SUBSPACE_QUOTA"
| "queue_subspace (Q_QuotaSize _) = SUBSPACE_QUOTA"
| "queue_subspace _ = SUBSPACE_REPORT_OUT"

fun vc_subspace :: "value_class \<Rightarrow> u8 \<Rightarrow> u8" where
  "vc_subspace (VC_Property field) collection =
     (if field = 84 \<and> collection = 1 then SUBSPACE_COUNTER else SUBSPACE_PROPERTY)"
| "vc_subspace (VC_IndexProperty _) _ = SUBSPACE_PROPERTY"
| "vc_subspace (VC_Acl _) _ = SUBSPACE_ACL"
| "vc_subspace (VC_TaskQueue _) _ = SUBSPACE_TASK_QUEUE"
| "vc_subspace (VC_Blob op) _ = blob_op_subspace op"
| "vc_subspace (VC_Config _) _ = SUBSPACE_SETTINGS"
| "vc_subspace (VC_InMemory (IM_Key _)) _ = SUBSPACE_IN_MEMORY_VALUE"
| "vc_subspace (VC_InMemory (IM_Counter _)) _ = SUBSPACE_IN_MEMORY_COUNTER"
| "vc_subspace (VC_Directory (Dir_UsedQuota _)) _ = SUBSPACE_QUOTA"
| "vc_subspace (VC_Directory _) _ = SUBSPACE_DIRECTORY"
| "vc_subspace (VC_Queue queue) _ = queue_subspace queue"
| "vc_subspace (VC_Report _) _ = SUBSPACE_REPORT_IN"
| "vc_subspace (VC_Telemetry (Tel_Span _)) _ = SUBSPACE_TELEMETRY_SPAN"
| "vc_subspace (VC_Telemetry (Tel_Metric _ _ _)) _ = SUBSPACE_TELEMETRY_METRIC"
| "vc_subspace VC_DocumentId _ = SUBSPACE_COUNTER"
| "vc_subspace VC_ChangeId _ = SUBSPACE_COUNTER"
| "vc_subspace (VC_ShareNotification _ _) _ = SUBSPACE_LOGS"
| "vc_subspace (VC_SearchIndex _) _ = SUBSPACE_SEARCH_INDEX"
| "vc_subspace (VC_Any any) _ = any_subspace any"

fun vc_is_counter :: "value_class \<Rightarrow> u8 \<Rightarrow> bool" where
  "vc_is_counter (VC_Directory (Dir_UsedQuota _)) _ = True"
| "vc_is_counter (VC_InMemory (IM_Counter _)) _ = True"
| "vc_is_counter (VC_Queue (Q_QuotaCount _)) _ = True"
| "vc_is_counter (VC_Queue (Q_QuotaSize _)) _ = True"
| "vc_is_counter VC_DocumentId _ = True"
| "vc_is_counter VC_ChangeId _ = True"
| "vc_is_counter (VC_Property field) collection = (field = 84 \<and> collection = 1)"
| "vc_is_counter _ _ = False"

subsection \<open>The bytes of a key\<close>

fun task_key :: "task_queue_class \<Rightarrow> u32 \<Rightarrow> u32 \<Rightarrow> key_serializer \<Rightarrow> bytes option" where
  "task_key (TQ_UpdateIndex due index is_insert) account_id document_id ser =
     map_option (\<lambda>i. ks_chain ser [write_be (te_inner due), write_be account_id,
        write_u8 (if is_insert then 7 else 8), write_be document_id, write_u8 i]) (si_to_u8 index)"
| "task_key (TQ_SendAlarm due event_id alarm_id is_email_alert) account_id document_id ser =
     Some (ks_chain ser [write_be (te_inner due), write_be account_id,
        write_u8 (if is_email_alert then 3 else 6), write_be document_id, write_be event_id,
        write_be alarm_id])"
| "task_key (TQ_SendImip due is_payload) account_id document_id ser =
     Some (if \<not> is_payload
       then ks_chain ser [write_be (te_inner due), write_be account_id, write_u8 4, write_be document_id]
       else ks_chain ser [write_be (0xFFFFFFFFFFFFFFFF :: u64), write_be account_id, write_u8 5,
              write_be document_id, write_be (te_inner due)])"
| "task_key (TQ_MergeThreads due) account_id document_id ser =
     Some (ks_chain ser [write_be (te_inner due), write_be account_id, write_u8 9, write_be document_id])"

definition QUOTA_LINK :: u8 where "QUOTA_LINK = 0"
definition UNDELETE_LINK :: u8 where "UNDELETE_LINK = 1"
definition SPAM_SAMPLE_LINK :: u8 where "SPAM_SAMPLE_LINK = 2"

fun blob_op_key :: "blob_op \<Rightarrow> u32 \<Rightarrow> u8 \<Rightarrow> u32 \<Rightarrow> key_serializer \<Rightarrow> bytes" where
  "blob_op_key (Blob_Commit hash) account_id collection document_id ser =
     ks_chain ser [write_slice hash]"
| "blob_op_key (Blob_Link hash (BL_Id link_id)) account_id collection document_id ser =
     ks_chain ser [write_slice hash, write_be link_id]"
| "blob_op_key (Blob_Link hash BL_Document) account_id collection document_id ser =
     ks_chain ser [write_slice hash, write_be account_id, write_u8 collection, write_be document_id]"
| "blob_op_key (Blob_Link hash (BL_Temporary until)) account_id collection document_id ser =
     ks_chain ser [write_slice hash, write_be account_id, write_be until]"
| "blob_op_key (Blob_Quota hash until) account_id collection document_id ser =
     ks_chain ser [write_u8 QUOTA_LINK, write_be account_id, write_slice hash, write_be until]"
| "blob_op_key (Blob_Undelete hash until) account_id collection document_id ser =
     ks_chain ser [write_u8 UNDELETE_LINK, write_be account_id, write_slice hash, write_be until]"
| "blob_op_key (Blob_SpamSample hash until) account_id collection document_id ser =
     ks_chain ser [write_u8 SPAM_SAMPLE_LINK, write_be until, write_be account_id, write_slice hash]"

fun directory_key :: "directory_class \<Rightarrow> key_serializer \<Rightarrow> bytes" where
  "directory_key (Dir_NameToId name) ser = ks_chain ser [write_u8 0, write_slice name]"
| "directory_key (Dir_EmailToId email) ser = ks_chain ser [write_u8 1, write_slice email]"
| "directory_key (Dir_Principal uid) ser = ks_chain ser [write_u8 2, write_leb128 uid]"
| "directory_key (Dir_UsedQuota uid) ser = ks_chain ser [write_u8 4, write_leb128 uid]"
| "directory_key (Dir_MemberOf principal_id member_of) ser =
     ks_chain ser [write_u8 5, write_be principal_id, write_be member_of]"
| "directory_key (Dir_Members principal_id has_member) ser =
     ks_chain ser [write_u8 6, write_be principal_id, write_be has_member]"
| "directory_key (Dir_Index word principal_id) ser =
     ks_chain ser [write_u8 7, write_slice word, write_be principal_id]"

fun queue_key :: "queue_class \<Rightarrow> key_serializer \<Rightarrow> bytes" where
  "queue_key (Q_Message queue_id) ser = ks_chain ser [write_be queue_id]"
| "queue_key (Q_MessageEvent event) ser =
     ks_chain ser [write_be (qe_due event), write_be (qe_queue_id event), write_slice (qe_queue_name event)]"
| "queue_key (Q_DmarcReportHeader event) ser =
     ks_chain ser [write_u8 0, write_be (re_due event), write_slice (re_domain event),
       write_be (re_policy_hash event), write_be (re_seq_id event), write_u8 0]"
| "queue_key (Q_TlsReportHeader event) ser =
     ks_chain ser [write_u8 0, write_be (re_due event), write_slice (re_domain event),
       write_be (re_policy_hash event), write_be (re_seq_id event), write_u8 1]"
| "queue_key (Q_DmarcReportEvent event) ser =
     ks_chain ser [write_u8 1, write_be (re_due event), write_slice (re_domain event),
       write_be (re_policy_hash event), write_be (re_seq_id event)]"
| "queue_key (Q_TlsReportEvent event) ser =
     ks_chain ser [write_u8 2, write_be (re_due event), write_slice (re_domain event),
       write_be (re_policy_hash event), write_be (re_seq_id event)]"
| "queue_key (Q_QuotaCount key) ser = ks_chain ser [write_u8 0, write_slice key]"
| "queue_key (Q_QuotaSize key) ser = ks_chain ser [write_u8 1, write_slice key]"

fun report_key :: "report_class \<Rightarrow> key_serializer \<Rightarrow> bytes" where
  "report_key (Report_Tls rid expires) ser = ks_chain ser [write_u8 0, write_be expires, write_be rid]"
| "report_key (Report_Dmarc rid expires) ser = ks_chain ser [write_u8 1, write_be expires, write_be rid]"
| "report_key (Report_Arf rid expires) ser = ks_chain ser [write_u8 2, write_be expires, write_be rid]"

fun telemetry_key :: "telemetry_class \<Rightarrow> key_serializer \<Rightarrow> bytes" where
  "telemetry_key (Tel_Span span_id) ser = ks_chain ser [write_be span_id]"
| "telemetry_key (Tel_Metric timestamp metric_id node_id) ser =
     ks_chain ser [write_be timestamp, write_leb128 metric_id, write_leb128 node_id]"

fun search_index_id_key :: "search_index_id \<Rightarrow> (key_serializer \<Rightarrow> key_serializer) list \<Rightarrow> u8 \<Rightarrow> key_serializer \<Rightarrow> bytes" where
  "search_index_id_key (SIId_Account account_id document_id) ws cls ser =
     ks_chain ser ([write_u8 cls, write_be account_id] @ ws @ [write_be document_id])"
| "search_index_id_key (SIId_Global gid) ws cls ser =
     ks_chain ser ([write_u8 cls] @ ws @ [write_be gid])"

definition search_index_key :: "search_index_class \<Rightarrow> key_serializer \<Rightarrow> bytes option" where
  "search_index_key index ser =
     map_option (\<lambda>cls. case sic_typ index of
         SIT_Term field hash \<Rightarrow>
           search_index_id_key (sic_id index)
             [write_slice (ch_payload hash), write_u8 (ch_payload_len hash), write_u8 field] cls ser
       | SIT_Index field \<Rightarrow>
           search_index_id_key (sic_id index)
             [write_u8 (sf_field_id field), write_slice (sf_data field)] (cls OR push_bit 6 1) ser
       | SIT_Document \<Rightarrow> search_index_id_key (sic_id index) [] (cls OR push_bit 6 2) ser)
       (si_to_u8 (sic_index index))"

definition vc_serializer :: "value_class \<Rightarrow> u8 \<Rightarrow> u32 \<Rightarrow> key_serializer" where
  "vc_serializer cls collection flags =
     (if flags AND WITH_SUBSPACE \<noteq> 0 then ks_chain ks_new [write_u8 (vc_subspace cls collection)]
      else ks_new)"

definition vc_serialize :: "value_class \<Rightarrow> u32 \<Rightarrow> u8 \<Rightarrow> u32 \<Rightarrow> u32 \<Rightarrow> bytes option" where
  "vc_serialize cls account_id collection document_id flags =
     (let ser = vc_serializer cls collection flags in
      case cls of
        VC_Property property \<Rightarrow> Some (ks_chain ser
          [write_be account_id, write_u8 collection, write_u8 property, write_be document_id])
      | VC_IndexProperty (IP_Hash property hash) \<Rightarrow> Some (ks_chain ser
          [write_be account_id, write_u8 collection, write_u8 property, write_slice (ch_as_bytes hash),
           write_be document_id])
      | VC_IndexProperty (IP_Integer property value) \<Rightarrow> Some (ks_chain ser
          [write_be account_id, write_u8 collection, write_u8 property, write_be value, write_be document_id])
      | VC_Acl grant_account_id \<Rightarrow> Some (ks_chain ser
          [write_be grant_account_id, write_be account_id, write_u8 collection, write_be document_id])
      | VC_TaskQueue task \<Rightarrow> task_key task account_id document_id ser
      | VC_Blob op \<Rightarrow> Some (blob_op_key op account_id collection document_id ser)
      | VC_Config key \<Rightarrow> Some (ks_chain ser [write_slice key])
      | VC_InMemory (IM_Key key) \<Rightarrow> Some (ks_chain ser [write_slice key])
      | VC_InMemory (IM_Counter key) \<Rightarrow> Some (ks_chain ser [write_slice key])
      | VC_Directory directory \<Rightarrow> Some (directory_key directory ser)
      | VC_Queue queue \<Rightarrow> Some (queue_key queue ser)
      | VC_Report report \<Rightarrow> Some (report_key report ser)
      | VC_Telemetry telemetry \<Rightarrow> Some (telemetry_key telemetry ser)
      | VC_DocumentId \<Rightarrow> Some (ks_chain ser [write_be account_id, write_u8 collection])
      | VC_ChangeId \<Rightarrow> Some (ks_chain ser [write_be account_id])
      | VC_ShareNotification notification_id notify_account_id \<Rightarrow> Some (ks_chain ser
          [write_be notify_account_id, write_u8 (sync_collection_to_u8 Sync_ShareNotification),
           write_be notification_id])
      | VC_SearchIndex index \<Rightarrow> search_index_key index ser
      | VC_Any any \<Rightarrow> Some (ks_chain ser [write_slice (any_key any)]))"

definition value_key_serialize :: "value_key \<Rightarrow> u32 \<Rightarrow> bytes option" where
  "value_key_serialize k flags =
     vc_serialize (vk_class k) (vk_account_id k) (vk_collection k) (vk_document_id k) flags"

definition value_key_subspace :: "value_key \<Rightarrow> u8" where
  "value_key_subspace k = vc_subspace (vk_class k) (vk_collection k)"

definition subspace_serializer :: "u8 \<Rightarrow> u32 \<Rightarrow> key_serializer" where
  "subspace_serializer subspace flags =
     (if flags AND WITH_SUBSPACE \<noteq> 0 then ks_chain ks_new [write_u8 subspace] else ks_new)"

definition log_key_serialize :: "log_key \<Rightarrow> u32 \<Rightarrow> bytes" where
  "log_key_serialize k flags =
     ks_chain (subspace_serializer SUBSPACE_LOGS flags)
       [write_be (lk_account_id k), write_u8 (lk_collection k), write_be (lk_change_id k)]"

definition index_key_prefix_serialize :: "index_key_prefix \<Rightarrow> u32 \<Rightarrow> bytes" where
  "index_key_prefix_serialize k flags =
     ks_chain (subspace_serializer SUBSPACE_INDEXES flags)
       [write_be (ikp_account_id k), write_u8 (ikp_collection k), write_u8 (ikp_field k)]"

definition index_key_serialize :: "index_key \<Rightarrow> u32 \<Rightarrow> bytes" where
  "index_key_serialize k flags =
     ks_chain (subspace_serializer SUBSPACE_INDEXES flags)
       [write_be (ik_account_id k), write_u8 (ik_collection k), write_u8 (ik_field k),
        write_slice (ik_key k), write_be (ik_document_id k)]"

definition any_key_serialize :: "any_class \<Rightarrow> u32 \<Rightarrow> bytes" where
  "any_key_serialize k flags =
     ks_chain (subspace_serializer (any_subspace k) flags) [write_slice (any_key k)]"

subsection \<open>Sizes\<close>

text \<open>
  The size the code reserves for a key and adds to the size of a batch. It is an estimate, not the
  length of the serialised key.
\<close>

fun directory_size :: "directory_class \<Rightarrow> nat" where
  "directory_size (Dir_NameToId v) = length v"
| "directory_size (Dir_EmailToId v) = length v"
| "directory_size (Dir_Principal _) = 4"
| "directory_size (Dir_UsedQuota _) = 4"
| "directory_size (Dir_Members _ _) = 4 * 2"
| "directory_size (Dir_MemberOf _ _) = 4 * 2"
| "directory_size (Dir_Index word _) = length word + 4"

fun blob_op_size :: "blob_op \<Rightarrow> nat" where
  "blob_op_size (Blob_Commit _) = 32"
| "blob_op_size (Blob_Link _ (BL_Id _)) = 32 + 8"
| "blob_op_size (Blob_Link _ BL_Document) = 32 + (4 * 2 + 1)"
| "blob_op_size (Blob_Link _ (BL_Temporary _)) = 32 + (4 + 8)"
| "blob_op_size (Blob_Quota _ _) = 32 + 4 + 8 + 1"
| "blob_op_size (Blob_Undelete _ _) = 32 + 4 + 8 + 1"
| "blob_op_size (Blob_SpamSample _ _) = 32 + 4 + 2"

fun task_size :: "task_queue_class \<Rightarrow> nat" where
  "task_size (TQ_UpdateIndex _ _ _) = 8 * 2 + 2"
| "task_size (TQ_SendAlarm _ _ _ _) = 8 + 4 * 3 + 1"
| "task_size (TQ_MergeThreads _) = 8 + 4 * 3 + 1"
| "task_size (TQ_SendImip _ is_payload) = (if is_payload then 8 * 2 + 4 * 2 + 1 else 8 + 4 * 2 + 1)"

fun queue_size :: "queue_class \<Rightarrow> nat" where
  "queue_size (Q_Message _) = 8"
| "queue_size (Q_MessageEvent _) = 8 * 3"
| "queue_size (Q_DmarcReportEvent event) = length (re_domain event) + 8 * 3"
| "queue_size (Q_TlsReportEvent event) = length (re_domain event) + 8 * 3"
| "queue_size (Q_DmarcReportHeader event) = length (re_domain event) + 8 * 3 + 1"
| "queue_size (Q_TlsReportHeader event) = length (re_domain event) + 8 * 3 + 1"
| "queue_size (Q_QuotaCount v) = length v"
| "queue_size (Q_QuotaSize v) = length v"

fun search_index_size :: "search_index_id \<Rightarrow> search_index_type \<Rightarrow> nat" where
  "search_index_size sid (SIT_Term _ hash) = 8 + ch_len hash + 2"
| "search_index_size sid (SIT_Index field) = 1 + length (sf_data field) + 8"
| "search_index_size (SIId_Account _ _) SIT_Document = 1 + 4 * 2"
| "search_index_size (SIId_Global _) SIT_Document = 1 + 8"

fun vc_serialized_size :: "value_class \<Rightarrow> nat" where
  "vc_serialized_size (VC_Property _) = 4 * 2 + 3"
| "vc_serialized_size (VC_IndexProperty (IP_Hash _ hash)) = 4 * 2 + 3 + ch_len hash"
| "vc_serialized_size (VC_IndexProperty (IP_Integer _ _)) = 4 * 2 + 3 + 8"
| "vc_serialized_size (VC_Acl _) = 4 * 3 + 2"
| "vc_serialized_size (VC_InMemory (IM_Counter v)) = length v"
| "vc_serialized_size (VC_InMemory (IM_Key v)) = length v"
| "vc_serialized_size (VC_Config v) = length v"
| "vc_serialized_size (VC_Directory d) = directory_size d"
| "vc_serialized_size (VC_Blob op) = blob_op_size op"
| "vc_serialized_size (VC_TaskQueue e) = task_size e"
| "vc_serialized_size (VC_Queue q) = queue_size q"
| "vc_serialized_size (VC_Report _) = 8 * 2 + 1"
| "vc_serialized_size (VC_Telemetry (Tel_Span _)) = 8 + 1"
| "vc_serialized_size (VC_Telemetry (Tel_Metric _ _ _)) = 8 * 2 + 1"
| "vc_serialized_size VC_DocumentId = 4 + 1"
| "vc_serialized_size VC_ChangeId = 4"
| "vc_serialized_size (VC_ShareNotification _ _) = 4 + 8 + 1"
| "vc_serialized_size (VC_SearchIndex v) = search_index_size (sic_id v) (sic_typ v)"
| "vc_serialized_size (VC_Any v) = length (any_key v)"

subsection \<open>Report events\<close>

text \<open>\<open>std::str::from_utf8\<close>: which byte strings are UTF-8.\<close>

definition utf8_cont :: "u8 \<Rightarrow> bool" where
  "utf8_cont b \<longleftrightarrow> 0x80 \<le> b \<and> b \<le> 0xBF"

fun utf8_valid :: "bytes \<Rightarrow> bool" where
  "utf8_valid [] = True"
| "utf8_valid (a # bs) =
     (if a \<le> 0x7F then utf8_valid bs
      else case bs of
        [] \<Rightarrow> False
      | b # bs2 \<Rightarrow>
          if 0xC2 \<le> a \<and> a \<le> 0xDF then utf8_cont b \<and> utf8_valid bs2
          else case bs2 of
            [] \<Rightarrow> False
          | c # bs3 \<Rightarrow>
              if 0xE0 \<le> a \<and> a \<le> 0xEF
              then utf8_cont b \<and> (a = 0xE0 \<longrightarrow> 0xA0 \<le> b) \<and> (a = 0xED \<longrightarrow> b \<le> 0x9F)
                \<and> utf8_cont c \<and> utf8_valid bs3
              else case bs3 of
                [] \<Rightarrow> False
              | d # bs4 \<Rightarrow>
                  0xF0 \<le> a \<and> a \<le> 0xF4 \<and> utf8_cont b \<and> (a = 0xF0 \<longrightarrow> 0x90 \<le> b)
                  \<and> (a = 0xF4 \<longrightarrow> b \<le> 0x8F) \<and> utf8_cont c \<and> utf8_cont d \<and> utf8_valid bs4)"

definition report_event_deserialize :: "bytes \<Rightarrow> report_event option" where
  "report_event_deserialize key =
     do {
       due \<leftarrow> deserialize_be_u64 key 1;
       policy_hash \<leftarrow> deserialize_be_u64 key (usize_len key - (U64_LEN * 2 + 1));
       seq_id \<leftarrow> deserialize_be_u64 key (usize_len key - (U64_LEN + 1));
       domain \<leftarrow> get_range key (U64_LEN + 1) (usize_len key - (U64_LEN * 2 + 1));
       if utf8_valid domain
       then Some \<lparr>re_due = due, re_policy_hash = policy_hash, re_seq_id = seq_id, re_domain = domain\<rparr>
       else None
     }"

subsection \<open>Constructors of value keys\<close>

definition FIELD_ARCHIVE :: u8 where "FIELD_ARCHIVE = 50"

definition vk_property :: "u32 \<Rightarrow> u8 \<Rightarrow> u32 \<Rightarrow> u8 \<Rightarrow> value_key" where
  "vk_property account_id collection document_id field =
     \<lparr>vk_account_id = account_id, vk_collection = collection, vk_document_id = document_id,
      vk_class = VC_Property field\<rparr>"

definition vk_archive :: "u32 \<Rightarrow> u8 \<Rightarrow> u32 \<Rightarrow> value_key" where
  "vk_archive account_id collection document_id =
     \<lparr>vk_account_id = account_id, vk_collection = collection, vk_document_id = document_id,
      vk_class = VC_Property FIELD_ARCHIVE\<rparr>"

definition vk_with_document_id :: "value_key \<Rightarrow> u32 \<Rightarrow> value_key" where
  "vk_with_document_id k document_id = k\<lparr>vk_document_id := document_id\<rparr>"

definition vk_is_counter :: "value_key \<Rightarrow> bool" where
  "vk_is_counter k = vc_is_counter (vk_class k) (vk_collection k)"

definition vk_from_class :: "value_class \<Rightarrow> value_key" where
  "vk_from_class cls = \<lparr>vk_account_id = 0, vk_collection = 0, vk_document_id = 0, vk_class = cls\<rparr>"

subsection \<open>Keys identify their classes\<close>

text \<open>Which of account, collection and document a class puts into its key.\<close>

fun vc_fields :: "value_class \<Rightarrow> bool \<times> bool \<times> bool" where
  "vc_fields (VC_Property _) = (True, True, True)"
| "vc_fields (VC_IndexProperty _) = (True, True, True)"
| "vc_fields (VC_Acl _) = (True, True, True)"
| "vc_fields (VC_TaskQueue _) = (True, False, True)"
| "vc_fields (VC_Blob (Blob_Commit _)) = (False, False, False)"
| "vc_fields (VC_Blob (Blob_Link _ (BL_Id _))) = (False, False, False)"
| "vc_fields (VC_Blob (Blob_Link _ BL_Document)) = (True, True, True)"
| "vc_fields (VC_Blob _) = (True, False, False)"
| "vc_fields VC_DocumentId = (True, True, False)"
| "vc_fields VC_ChangeId = (True, False, False)"
| "vc_fields _ = (False, False, False)"

definition vk_same :: "value_key \<Rightarrow> value_key \<Rightarrow> bool" where
  "vk_same k1 k2 \<longleftrightarrow> vk_class k1 = vk_class k2
     \<and> (case vc_fields (vk_class k1) of (a, c, d) \<Rightarrow>
          (a \<longrightarrow> vk_account_id k1 = vk_account_id k2) \<and> (c \<longrightarrow> vk_collection k1 = vk_collection k2)
          \<and> (d \<longrightarrow> vk_document_id k1 = vk_document_id k2))"

fun blob_op_hash :: "blob_op \<Rightarrow> bytes" where
  "blob_op_hash (Blob_Commit hash) = hash"
| "blob_op_hash (Blob_Link hash _) = hash"
| "blob_op_hash (Blob_Quota hash _) = hash"
| "blob_op_hash (Blob_Undelete hash _) = hash"
| "blob_op_hash (Blob_SpamSample hash _) = hash"

text \<open>
  The keys that the code builds: hashes are arrays of their fixed size, a field of a collection
  (\<open>hash_field\<close>) is indexed by hash or by integer but not both, global search identifiers are for
  traces and account ones for everything else, and no key is given as raw bytes.
\<close>

fun vc_wf :: "(u8 \<Rightarrow> u8 \<Rightarrow> bool) \<Rightarrow> u8 \<Rightarrow> value_class \<Rightarrow> bool" where
  "vc_wf hash_field c (VC_IndexProperty (IP_Hash p h)) = (ch_wf h \<and> hash_field c p)"
| "vc_wf hash_field c (VC_IndexProperty (IP_Integer p _)) = (\<not> hash_field c p)"
| "vc_wf hash_field c (VC_Blob op) = (length (blob_op_hash op) = 32)"
| "vc_wf hash_field c (VC_SearchIndex s) =
     ((case sic_id s of SIId_Global _ \<Rightarrow> sic_index s = SI_Tracing | SIId_Account _ _ \<Rightarrow> sic_index s \<noteq> SI_Tracing)
      \<and> (case sic_typ s of SIT_Term _ h \<Rightarrow> ch_wf h | _ \<Rightarrow> True))"
| "vc_wf hash_field c (VC_Any _) = False"
| "vc_wf hash_field c _ = True"

lemma leb128_prefix:
  fixes v w :: "'a::len word"
  assumes "8 \<le> LENGTH('a)"
  shows "to_leb128_bytes v @ xs = to_leb128_bytes w @ ys \<longleftrightarrow> v = w \<and> xs = ys"
proof
  assume "to_leb128_bytes v @ xs = to_leb128_bytes w @ ys"
  moreover from this have "v = w"
    using from_leb128_loop_to_bytes [OF assms, of "LENGTH('a)" v xs]
      from_leb128_loop_to_bytes [OF assms, of "LENGTH('a)" w ys] by simp
  ultimately show "v = w \<and> xs = ys" by simp
qed simp

lemma leb128_inject [simp]: "8 \<le> LENGTH('a) \<Longrightarrow> to_leb128_bytes (v :: 'a::len word) = to_leb128_bytes w \<longleftrightarrow> v = w"
  using leb128_prefix [of v "[]" w "[]"] by simp

lemma ks_chain_append: "ks_chain buf (ws @ vs) = ks_chain (ks_chain buf ws) vs"
  by (simp add: ks_chain_def)

lemma same_length_append:
  assumes "length xs = length ys"
  shows "xs = ys @ zs \<longleftrightarrow> xs = ys \<and> zs = []" "ys @ zs = xs \<longleftrightarrow> ys = xs \<and> zs = []"
    "xs = zs @ ys \<longleftrightarrow> xs = ys \<and> zs = []" "zs @ ys = xs \<longleftrightarrow> ys = xs \<and> zs = []"
  using assms by (auto dest: arg_cong [where f = length])

lemma si_to_u8_inj: "si_to_u8 i = Some n \<Longrightarrow> si_to_u8 j = Some n \<Longrightarrow> i = j"
  by (cases i; cases j) auto

lemma te_inner_inj: "te_inner t = te_inner t' \<longleftrightarrow> t = t'"
  by (auto intro: task_epoch.expand)

lemma task_key_inj:
  assumes "task_key t a d ser = Some bs" "task_key t' a' d' ser = Some bs"
  shows "t = t' \<and> a = a' \<and> d = d'"
  using assms by (cases t; cases t') (auto simp: te_inner_inj split: if_splits dest: si_to_u8_inj)

lemma blob_op_key_inj:
  assumes "blob_op_key b a c d ser = blob_op_key b' a' c' d' ser" "blob_op_subspace b = blob_op_subspace b'"
    and wf: "length (blob_op_hash b) = 32" "length (blob_op_hash b') = 32"
  shows "b = b' \<and> (case vc_fields (VC_Blob b) of (ua, uc, ud) \<Rightarrow>
    (ua \<longrightarrow> a = a') \<and> (uc \<longrightarrow> c = c') \<and> (ud \<longrightarrow> d = d'))"
  using assms
  by (cases "(b, a, c, d, ser)" rule: blob_op_key.cases; cases "(b', a', c', d', ser)" rule: blob_op_key.cases)
    (auto simp: subspace_defs QUOTA_LINK_def UNDELETE_LINK_def SPAM_SAMPLE_LINK_def
      dest: arg_cong [where f = length])

lemma directory_key_inj: "directory_key d ser = directory_key d' ser \<Longrightarrow> d = d'"
  by (cases d; cases d') auto

lemma queue_key_inj:
  assumes "queue_key q ser = queue_key q' ser" "queue_subspace q = queue_subspace q'"
  shows "q = q'"
  using assms by (cases q; cases q') (auto simp: subspace_defs)

lemma report_key_inj: "report_key r ser = report_key r' ser \<Longrightarrow> r = r'"
  by (cases r; cases r') auto

lemma telemetry_key_inj:
  "telemetry_key t ser = telemetry_key t' ser
   \<Longrightarrow> vc_subspace (VC_Telemetry t) c = vc_subspace (VC_Telemetry t') c' \<Longrightarrow> t = t'"
  by (cases t; cases t') (auto simp: subspace_defs leb128_prefix)

text \<open>The first byte of a search index key holds the index and the kind of the entry.\<close>

fun sit_flag :: "search_index_type \<Rightarrow> u8" where
  "sit_flag (SIT_Term _ _) = 0"
| "sit_flag (SIT_Index _) = push_bit 6 1"
| "sit_flag SIT_Document = push_bit 6 2"

fun sit_writes :: "search_index_type \<Rightarrow> (key_serializer \<Rightarrow> key_serializer) list" where
  "sit_writes (SIT_Term field hash) =
     [write_slice (ch_payload hash), write_u8 (ch_payload_len hash), write_u8 field]"
| "sit_writes (SIT_Index field) = [write_u8 (sf_field_id field), write_slice (sf_data field)]"
| "sit_writes SIT_Document = []"

lemma search_index_key_Some:
  "search_index_key s ser = Some bs \<longleftrightarrow> (\<exists>i. si_to_u8 (sic_index s) = Some i
     \<and> bs = search_index_id_key (sic_id s) (sit_writes (sic_typ s)) (i OR sit_flag (sic_typ s)) ser)"
  by (cases "sic_typ s") (auto simp: search_index_key_def)

lemma flagged_index_inj:
  assumes "unat (i :: u8) < 5" "unat (j :: u8) < 5" "i OR sit_flag t = j OR sit_flag t'"
  shows "i = j \<and> sit_flag t = sit_flag t'"
proof -
  let ?F = "[0 :: u8, push_bit 6 1, push_bit 6 2]"
  have flags: "sit_flag u \<in> set ?F" for u by (cases u) simp_all
  have "list_all (\<lambda>l. list_all (\<lambda>f. list_all (\<lambda>g. i OR f = of_nat l OR g \<longrightarrow> i = of_nat l \<and> f = g) ?F) ?F) [0..<5]"
    by (rule small_word_cases [OF _ assms(1)]) code_simp
  then have "list_all (\<lambda>f. list_all (\<lambda>g. i OR f = of_nat (unat j) OR g \<longrightarrow> i = of_nat (unat j) \<and> f = g) ?F) ?F"
    using assms(2) unfolding list_all_iff by (metis atLeastLessThan_iff set_upt zero_le)
  then have "i OR f = j OR g \<longrightarrow> i = j \<and> f = g" if "f \<in> set ?F" "g \<in> set ?F" for f g
    using that unfolding list_all_iff by (simp only: of_nat_unat ucast_id) blast
  with flags assms(3) show ?thesis by blast
qed

lemma search_index_id_key_head: "\<exists>rest. search_index_id_key sid (sit_writes t) cls ser = ser @ cls # rest"
  by (cases sid; cases t) simp_all

lemma search_index_key_inj:
  assumes "search_index_key s ser = Some bs" "search_index_key s' ser = Some bs"
    and wf: "vc_wf hf c (VC_SearchIndex s)" "vc_wf hf c' (VC_SearchIndex s')"
  shows "s = s'"
proof -
  obtain i j where ij: "si_to_u8 (sic_index s) = Some i" "si_to_u8 (sic_index s') = Some j"
    and key: "search_index_id_key (sic_id s) (sit_writes (sic_typ s)) (i OR sit_flag (sic_typ s)) ser
        = search_index_id_key (sic_id s') (sit_writes (sic_typ s')) (j OR sit_flag (sic_typ s')) ser"
    using assms(1,2) by (auto simp: search_index_key_Some)
  have small: "unat i < 5" "unat j < 5"
    using ij by (cases "sic_index s"; cases "sic_index s'"; auto)+
  have "i OR sit_flag (sic_typ s) = j OR sit_flag (sic_typ s')"
    using key search_index_id_key_head [of "sic_id s" "sic_typ s" "i OR sit_flag (sic_typ s)" ser]
      search_index_id_key_head [of "sic_id s'" "sic_typ s'" "j OR sit_flag (sic_typ s')" ser] by auto
  from flagged_index_inj [OF small this] have "i = j" and flag: "sit_flag (sic_typ s) = sit_flag (sic_typ s')"
    by auto
  with ij have idx: "sic_index s = sic_index s'" by (auto dest: si_to_u8_inj)
  have "sic_id s = sic_id s' \<and> sic_typ s = sic_typ s'"
    using key flag wf idx
    by (cases "sic_typ s"; cases "sic_typ s'"; cases "sic_id s"; cases "sic_id s'")
      (auto intro: ch_payload_inj search_index_field.equality)
  with idx show ?thesis by (auto intro: search_index_class.equality)
qed

text \<open>
  Classes come in families that share no subspace with another family.
\<close>

fun vc_family :: "value_class \<Rightarrow> nat" where
  "vc_family (VC_Property _) = 0"
| "vc_family (VC_IndexProperty _) = 0"
| "vc_family VC_DocumentId = 0"
| "vc_family VC_ChangeId = 0"
| "vc_family (VC_Directory _) = 1"
| "vc_family (VC_Queue _) = 1"
| "vc_family (VC_Acl _) = 2"
| "vc_family (VC_InMemory _) = 3"
| "vc_family (VC_TaskQueue _) = 4"
| "vc_family (VC_Blob _) = 5"
| "vc_family (VC_Config _) = 6"
| "vc_family (VC_Report _) = 7"
| "vc_family (VC_Telemetry _) = 8"
| "vc_family (VC_SearchIndex _) = 9"
| "vc_family (VC_ShareNotification _ _) = 10"
| "vc_family (VC_Any _) = 11"

definition subspace_family :: "u8 \<Rightarrow> nat" where
  "subspace_family s =
     (if s \<in> {SUBSPACE_PROPERTY, SUBSPACE_COUNTER} then 0
      else if s \<in> {SUBSPACE_QUOTA, SUBSPACE_DIRECTORY, SUBSPACE_QUEUE_MESSAGE, SUBSPACE_QUEUE_EVENT,
        SUBSPACE_REPORT_OUT} then 1
      else if s = SUBSPACE_ACL then 2
      else if s \<in> {SUBSPACE_IN_MEMORY_VALUE, SUBSPACE_IN_MEMORY_COUNTER} then 3
      else if s = SUBSPACE_TASK_QUEUE then 4
      else if s \<in> {SUBSPACE_BLOB_LINK, SUBSPACE_BLOB_EXTRA} then 5
      else if s = SUBSPACE_SETTINGS then 6
      else if s = SUBSPACE_REPORT_IN then 7
      else if s \<in> {SUBSPACE_TELEMETRY_SPAN, SUBSPACE_TELEMETRY_METRIC} then 8
      else if s = SUBSPACE_SEARCH_INDEX then 9
      else 10)"

lemma vc_family_subspace: "vc_wf hf l c \<Longrightarrow> vc_family c = subspace_family (vc_subspace c l)"
proof -
  have "subspace_family (blob_op_subspace b) = 5" for b
    by (cases b) (simp_all add: subspace_family_def subspace_defs)
  moreover have "subspace_family (queue_subspace q) = 1" for q
    by (cases q) (simp_all add: subspace_family_def subspace_defs)
  ultimately show "vc_wf hf l c \<Longrightarrow> ?thesis"
    by (cases "(c, l)" rule: vc_subspace.cases) (simp_all add: subspace_family_def subspace_defs)
qed

lemma property_family_cases:
  assumes "vc_family c = 0"
  obtains p where "c = VC_Property p" | p h where "c = VC_IndexProperty (IP_Hash p h)"
    | p v where "c = VC_IndexProperty (IP_Integer p v)" | "c = VC_DocumentId" | "c = VC_ChangeId"
proof (cases c)
  case (VC_IndexProperty i)
  then show ?thesis using that by (cases i) simp_all
qed (use assms that in simp_all)

lemma property_family_inj:
  assumes "vc_family c1 = 0" "vc_family c2 = 0"
    and "vc_serialize c1 a1 l1 d1 flags = Some bs" "vc_serialize c2 a2 l2 d2 flags = Some bs"
    and "vc_serializer c1 l1 flags = vc_serializer c2 l2 flags"
    and "vc_wf hf l1 c1" "vc_wf hf l2 c2"
  shows "c1 = c2 \<and> a1 = a2 \<and> (case vc_fields c1 of (_, c, d) \<Rightarrow> (c \<longrightarrow> l1 = l2) \<and> (d \<longrightarrow> d1 = d2))"
proof -
  have ne: "ch_wf h \<Longrightarrow> ch_as_bytes h \<noteq> []" for h
    by (simp add: ch_as_bytes_Cons)
  have be_ne: "to_be_bytes (d :: u32) \<noteq> []" "to_be_bytes (v :: u64) \<noteq> []" for d v
    by (auto dest: arg_cong [where f = length])
  show ?thesis
    using assms(3-) ne
    by (cases rule: property_family_cases [OF assms(1)]; cases rule: property_family_cases [OF assms(2)])
      (auto simp: vc_serialize_def Let_def be_ne same_length_append dest: ch_as_bytes_inj)
qed

lemma directory_family_inj:
  assumes "vc_family c1 = 1" "vc_family c2 = 1"
    and "vc_serialize c1 a1 l1 d1 flags = Some bs" "vc_serialize c2 a2 l2 d2 flags = Some bs"
    and "vc_serializer c1 l1 flags = vc_serializer c2 l2 flags" "vc_subspace c1 l1 = vc_subspace c2 l2"
  shows "c1 = c2"
proof -
  have quota: "directory_key d ser \<noteq> queue_key q ser"
    if "vc_subspace (VC_Directory d) l = queue_subspace q" for d q ser l
    using that by (cases d; cases q) (auto simp: subspace_defs)
  show ?thesis
  proof (cases c1)
    case (VC_Directory d)
    then show ?thesis using assms quota [of d l1]
      by (cases c2) (auto simp: vc_serialize_def Let_def dest: directory_key_inj sym)
  next
    case (VC_Queue q)
    then show ?thesis using assms quota [of _ l2 q]
      by (cases c2) (auto simp: vc_serialize_def Let_def dest: queue_key_inj)
  qed (use assms(1) in simp_all)
qed

lemma other_families_inj:
  assumes "vc_family c1 = n" "vc_family c2 = n" "2 \<le> n"
    and "vc_serialize c1 a1 l1 d1 flags = Some bs" "vc_serialize c2 a2 l2 d2 flags = Some bs"
    and "vc_serializer c1 l1 flags = vc_serializer c2 l2 flags" "vc_subspace c1 l1 = vc_subspace c2 l2"
    and "vc_wf hf l1 c1" "vc_wf hf l2 c2"
  shows "c1 = c2 \<and> (case vc_fields c1 of (a, c, d) \<Rightarrow>
    (a \<longrightarrow> a1 = a2) \<and> (c \<longrightarrow> l1 = l2) \<and> (d \<longrightarrow> d1 = d2))"
proof (cases c1)
  case (VC_Blob b)
  then obtain b' where "c2 = VC_Blob b'" using assms(1,2) by (cases c2) auto
  with VC_Blob show ?thesis using assms blob_op_key_inj [of b a1 l1 d1 "vc_serializer c2 l2 flags" b' a2 l2 d2]
    by (simp add: vc_serialize_def Let_def split: prod.splits)
next
  case (VC_TaskQueue t)
  then obtain t' where "c2 = VC_TaskQueue t'" using assms(1,2) by (cases c2) auto
  with VC_TaskQueue show ?thesis using assms task_key_inj [of t a1 d1 _ bs t' a2 d2]
    by (simp add: vc_serialize_def Let_def)
next
  case (VC_InMemory m)
  then obtain m' where "c2 = VC_InMemory m'" using assms(1,2) by (cases c2) auto
  with VC_InMemory show ?thesis using assms(4-7)
    by (cases m; cases m') (auto simp: vc_serialize_def Let_def subspace_defs)
next
  case (VC_Telemetry t)
  then obtain t' where "c2 = VC_Telemetry t'" using assms(1,2) by (cases c2) auto
  with VC_Telemetry show ?thesis using assms telemetry_key_inj [of t "vc_serializer c2 l2 flags" t' l1 l2]
    by (simp add: vc_serialize_def Let_def)
next
  case (VC_SearchIndex x)
  then obtain y where "c2 = VC_SearchIndex y" using assms(1,2) by (cases c2) auto
  with VC_SearchIndex show ?thesis using assms search_index_key_inj [of x _ bs y hf l1 l2]
    by (simp add: vc_serialize_def Let_def)
next
  case (VC_Acl g)
  then obtain g' where "c2 = VC_Acl g'" using assms(1,2) by (cases c2) auto
  with VC_Acl show ?thesis using assms(4-6) by (auto simp: vc_serialize_def Let_def)
next
  case (VC_Config k)
  then obtain k' where "c2 = VC_Config k'" using assms(1,2) by (cases c2) auto
  with VC_Config show ?thesis using assms(4-6) by (auto simp: vc_serialize_def Let_def)
next
  case (VC_Report x)
  then obtain x' where "c2 = VC_Report x'" using assms(1,2) by (cases c2) auto
  with VC_Report show ?thesis using assms(4-6) report_key_inj [of x' _ x] by (auto simp: vc_serialize_def Let_def)
next
  case (VC_ShareNotification i u)
  then obtain i' u' where "c2 = VC_ShareNotification i' u'" using assms(1,2) by (cases c2) auto
  with VC_ShareNotification show ?thesis using assms(4-6) by (auto simp: vc_serialize_def Let_def)
qed (use assms(1,3,8) in simp_all)

lemma value_keys_same:
  assumes "value_key_serialize k1 flags = Some bs" "value_key_serialize k2 flags = Some bs"
    and "value_key_subspace k1 = value_key_subspace k2"
    and "vc_wf hash_field (vk_collection k1) (vk_class k1)"
    and "vc_wf hash_field (vk_collection k2) (vk_class k2)"
  shows "vk_same k1 k2"
proof -
  note defs = assms(1,2) [unfolded value_key_serialize_def] assms(3) [unfolded value_key_subspace_def]
  have ser: "vc_serializer (vk_class k1) (vk_collection k1) flags
      = vc_serializer (vk_class k2) (vk_collection k2) flags"
    using defs(3) by (simp add: vc_serializer_def)
  have fam: "vc_family (vk_class k1) = vc_family (vk_class k2)"
    using vc_family_subspace assms(4,5) defs(3) by metis
  consider "vc_family (vk_class k1) = 0" | "vc_family (vk_class k1) = 1" | "2 \<le> vc_family (vk_class k1)"
    by linarith
  then show ?thesis
  proof cases
    case 1
    with property_family_inj [OF _ _ defs(1,2) ser assms(4,5)] fam show ?thesis by (auto simp: vk_same_def)
  next
    case 2
    with directory_family_inj [OF _ _ defs(1,2) ser defs(3)] fam
    have "vk_class k1 = vk_class k2" by auto
    moreover have "vc_fields (vk_class k1) = (False, False, False)" using 2 by (cases "vk_class k1") simp_all
    ultimately show ?thesis by (simp add: vk_same_def)
  next
    case 3
    from other_families_inj [OF refl fam [symmetric] 3 defs(1,2) ser defs(3) assms(4,5)]
    show ?thesis by (auto simp: vk_same_def)
  qed
qed

text \<open>
  C8: within a subspace a serialised key determines what it is the key of: two keys with the same
  bytes have the same class and agree on the account, collection and document that the class puts
  into its key. This holds with and without the subspace byte in front.
\<close>

theorem value_keys_injective:
  assumes "value_key_serialize k1 flags = Some bs" "value_key_serialize k2 flags = Some bs"
    and "value_key_subspace k1 = value_key_subspace k2"
    and "vc_wf hash_field (vk_collection k1) (vk_class k1)"
    and "vc_wf hash_field (vk_collection k2) (vk_class k2)"
  shows "vk_same k1 k2"
  using assms by (rule value_keys_same)

theorem value_keys_injective_witness:
  "let k = vk_property 7 1 9 84 in
   value_key_serialize k 1 = value_key_serialize k 1 \<and> value_key_serialize k 1 \<noteq> None
   \<and> vc_wf (\<lambda>_ _. False) (vk_collection k) (vk_class k) \<and> vk_same k k"
proof -
  let ?k = "vk_property 7 1 9 84"
  have "\<exists>bs. value_key_serialize ?k 1 = Some bs"
    by (simp add: value_key_serialize_def vc_serialize_def Let_def vk_property_def)
  then obtain bs where bs: "value_key_serialize ?k 1 = Some bs" by blast
  have "vc_wf (\<lambda>_ _. False) (vk_collection ?k) (vk_class ?k)" by (simp add: vk_property_def)
  with value_keys_injective [OF bs bs refl, of "\<lambda>_ _. False"] bs show ?thesis by (simp add: Let_def)
qed

subsection \<open>Order of keys\<close>

lemma log_key_less:
  "log_key_serialize k1 flags < log_key_serialize k2 flags \<longleftrightarrow>
     lk_account_id k1 < lk_account_id k2 \<or> lk_account_id k1 = lk_account_id k2
       \<and> (lk_collection k1 < lk_collection k2 \<or> lk_collection k1 = lk_collection k2
         \<and> lk_change_id k1 < lk_change_id k2)"
  by (simp add: log_key_serialize_def subspace_serializer_def ks_new_def be)

lemma log_key_inject:
  "log_key_serialize k1 flags = log_key_serialize k2 flags \<longleftrightarrow> k1 = (k2 :: log_key)"
  by (auto simp: log_key_serialize_def intro: log_key.equality)

lemma log_key_between:
  fixes lo hi k :: log_key
  assumes "lk_account_id lo = a" "lk_collection lo = c" "lk_account_id hi = a" "lk_collection hi = c"
  shows "log_key_serialize lo flags \<le> log_key_serialize k flags
          \<and> log_key_serialize k flags \<le> log_key_serialize hi flags
        \<longleftrightarrow> lk_account_id k = a \<and> lk_collection k = c
          \<and> lk_change_id lo \<le> lk_change_id k \<and> lk_change_id k \<le> lk_change_id hi"
proof -
  have le: "log_key_serialize k1 flags \<le> log_key_serialize k2 flags \<longleftrightarrow>
      \<not> log_key_serialize k2 flags < log_key_serialize k1 flags" for k1 k2 :: log_key
    by (rule not_less [symmetric])
  show ?thesis
    unfolding le log_key_less assms not_less [symmetric]
    by (cases "lk_account_id k" a rule: linorder_cases; cases "lk_collection k" c rule: linorder_cases)
      (simp_all only: less_irrefl simp_thms not_less_iff_gr_or_eq less_imp_not_eq less_imp_not_eq2)
qed

text \<open>
  C18: a scan of the log between the keys of two change ids of one account and collection visits
  exactly the entries of that account and collection whose change id lies between them, whatever
  other accounts and collections the store holds; and it visits them in the order of their change
  ids.
\<close>

theorem log_scan_is_change_range:
  fixes lo hi k k' :: log_key
  assumes "lk_account_id lo = a" "lk_collection lo = c" "lk_account_id hi = a" "lk_collection hi = c"
  shows "(log_key_serialize lo flags \<le> log_key_serialize k flags
          \<and> log_key_serialize k flags \<le> log_key_serialize hi flags
        \<longleftrightarrow> lk_account_id k = a \<and> lk_collection k = c
          \<and> lk_change_id lo \<le> lk_change_id k \<and> lk_change_id k \<le> lk_change_id hi)
     \<and> (lk_account_id k = lk_account_id k' \<and> lk_collection k = lk_collection k' \<longrightarrow>
          (log_key_serialize k flags < log_key_serialize k' flags \<longleftrightarrow> lk_change_id k < lk_change_id k'))"
proof -
  have "lk_account_id k = lk_account_id k' \<and> lk_collection k = lk_collection k' \<longrightarrow>
      (log_key_serialize k flags < log_key_serialize k' flags \<longleftrightarrow> lk_change_id k < lk_change_id k')"
    unfolding log_key_less by (intro impI, elim conjE) (simp only: less_irrefl simp_thms)
  with log_key_between [OF assms] show ?thesis by (rule conjI)
qed

theorem log_scan_is_change_range_witness:
  "let key = (\<lambda>i. \<lparr>lk_account_id = 7, lk_collection = 1, lk_change_id = i\<rparr>) in
   log_key_serialize (key 3) 0 \<le> log_key_serialize (key 5) 0
   \<and> log_key_serialize (key 5) 0 \<le> log_key_serialize (key 9) 0
   \<and> log_key_serialize (key 5) 0 < log_key_serialize (key 256) 0"
  using log_scan_is_change_range [of "\<lparr>lk_account_id = 7, lk_collection = 1, lk_change_id = 3\<rparr>" 7 1
      "\<lparr>lk_account_id = 7, lk_collection = 1, lk_change_id = 9\<rparr>" 0
      "\<lparr>lk_account_id = 7, lk_collection = 1, lk_change_id = 5\<rparr>"
      "\<lparr>lk_account_id = 7, lk_collection = 1, lk_change_id = 256\<rparr>"]
  by (simp add: Let_def)

text \<open>
  The header key of an outgoing report gives back the report when it is read without its
  subspace byte, for DMARC and TLS reports alike.
\<close>

theorem report_header_roundtrip:
  assumes "utf8_valid (re_domain event)" "length (re_domain event) < 2 ^ 32"
    and "cls \<in> {Q_DmarcReportHeader event, Q_TlsReportHeader event}"
  shows "map_option report_event_deserialize (value_key_serialize (vk_from_class (VC_Queue cls)) 0)
       = Some (Some event)"
proof -
  define t :: u8 where "t = (if cls = Q_DmarcReportHeader event then 0 else 1)"
  let ?n = "length (re_domain event)"
  let ?mid = "re_domain event @ to_be_bytes (re_policy_hash event) @ to_be_bytes (re_seq_id event) @ [t]"
  have key: "value_key_serialize (vk_from_class (VC_Queue cls)) 0 = Some (0 # to_be_bytes (re_due event) @ ?mid)"
    using assms(3) by (auto simp: value_key_serialize_def vc_serialize_def vk_from_class_def Let_def
        vc_serializer_def ks_new_def t_def)
  let ?key = "0 # to_be_bytes (re_due event) @ ?mid"
  have n: "?n < 2 ^ 32" by (rule assms(2))
  have pos: "usize_len ?key - (U64_LEN * 2 + 1) = of_nat (9 + ?n)"
      "usize_len ?key - (U64_LEN + 1) = of_nat (17 + ?n)" "U64_LEN + 1 = (of_nat 9 :: u64)"
    by (simp_all add: usize_len_def len_defs)
  have "deserialize_be_u64 ([0] @ to_be_bytes (re_due event) @ ?mid) 1 = Some (re_due event)"
    using n by (intro deserialize_be_middle) simp_all
  moreover have "deserialize_be_u64 ((0 # to_be_bytes (re_due event) @ re_domain event)
      @ to_be_bytes (re_policy_hash event) @ to_be_bytes (re_seq_id event) @ [t]) (of_nat (9 + ?n))
      = Some (re_policy_hash event)"
    using n by (intro deserialize_be_middle) simp_all
  moreover have "deserialize_be_u64 ((0 # to_be_bytes (re_due event) @ re_domain event
      @ to_be_bytes (re_policy_hash event)) @ to_be_bytes (re_seq_id event) @ [t]) (of_nat (17 + ?n))
      = Some (re_seq_id event)"
    using n by (intro deserialize_be_middle) simp_all
  moreover have "get_range ((0 # to_be_bytes (re_due event)) @ re_domain event
      @ (to_be_bytes (re_policy_hash event) @ to_be_bytes (re_seq_id event) @ [t])) (of_nat 9) (of_nat (9 + ?n))
      = Some (re_domain event)"
    using n by (intro get_range_middle) simp_all
  ultimately have "report_event_deserialize ?key = Some event"
    using assms(1) unfolding report_event_deserialize_def pos(1,2) unfolding pos(3) by simp
  with key show ?thesis by simp
qed

theorem report_header_roundtrip_witness:
  "let event = \<lparr>re_due = 5, re_policy_hash = 6, re_seq_id = 7, re_domain = [0x61, 0xC3, 0xA9]\<rparr> in
   utf8_valid (re_domain event) \<and>
   map_option report_event_deserialize (value_key_serialize (vk_from_class (VC_Queue (Q_TlsReportHeader event))) 0)
     = Some (Some event)"
  using report_header_roundtrip [of "\<lparr>re_due = 5, re_policy_hash = 6, re_seq_id = 7,
      re_domain = [0x61, 0xC3, 0xA9]\<rparr>" "Q_TlsReportHeader \<lparr>re_due = 5, re_policy_hash = 6, re_seq_id = 7,
      re_domain = [0x61, 0xC3, 0xA9]\<rparr>"]
  by (simp add: Let_def utf8_cont_def)

subsection \<open>Counters and tasks\<close>

text \<open>
  A class is stored as a counter exactly when its key lies in one of the three subspaces for
  counters, raw keys apart.
\<close>

theorem counters_have_counter_subspaces:
  "(\<forall>any. cls \<noteq> VC_Any any) \<Longrightarrow> vc_is_counter cls collection
   \<longleftrightarrow> vc_subspace cls collection \<in> {SUBSPACE_COUNTER, SUBSPACE_QUOTA, SUBSPACE_IN_MEMORY_COUNTER}"
proof -
  have "blob_op_subspace b \<notin> {SUBSPACE_COUNTER, SUBSPACE_QUOTA, SUBSPACE_IN_MEMORY_COUNTER}" for b
    by (cases b) (simp_all add: subspace_defs)
  moreover have "vc_subspace (VC_Telemetry t) collection
      \<notin> {SUBSPACE_COUNTER, SUBSPACE_QUOTA, SUBSPACE_IN_MEMORY_COUNTER}" for t
    by (cases t) (simp_all add: subspace_defs)
  ultimately show "(\<forall>any. cls \<noteq> VC_Any any) \<Longrightarrow> ?thesis"
    by (cases "(cls, collection)" rule: vc_is_counter.cases) (simp_all add: subspace_defs)
qed

theorem counters_have_counter_subspaces_witness:
  "vc_is_counter VC_ChangeId 0
   \<and> vc_subspace VC_ChangeId 0 \<in> {SUBSPACE_COUNTER, SUBSPACE_QUOTA, SUBSPACE_IN_MEMORY_COUNTER}"
  using counters_have_counter_subspaces [of VC_ChangeId 0] by simp

text \<open>
  A task epoch gives back the due time, the attempt and the sequence number it was made of, for due
  times of the 136 years that follow the offset of the epoch.
\<close>

lemma task_epoch_parts:
  assumes "EPOCH_OFFSET \<le> timestamp" "timestamp - EPOCH_OFFSET < 2 ^ 32"
  shows "te_due (te_with_sequence_id (te_with_attempt (te_new timestamp) a) q) = timestamp"
    and "te_attempt (te_with_sequence_id (te_with_attempt (te_new timestamp) a) q) = a"
    and "te_sequence_id (te_with_sequence_id (te_with_attempt (te_new timestamp) a) q) = q"
proof -
  let ?d = "timestamp - EPOCH_OFFSET"
  have attempt: "(ucast (drop_bit 16 ((push_bit 32 x OR push_bit 16 (ucast a)) OR ucast q)) :: u16) = a"
    and sequence: "(ucast ((push_bit 32 x OR push_bit 16 (ucast a)) OR ucast q) :: u16) = q" for x :: u64
    by (rule bit_word_eqI, auto simp: bit_simps dest: bit_imp_le_length)+
  have due: "drop_bit 32 ((push_bit 32 x OR push_bit 16 (ucast a)) OR ucast q) = x" if "unat x < 2 ^ 32" for x :: u64
    by (rule bit_word_eqI) (auto simp: bit_simps dest: bit_small [OF that] bit_imp_le_length)
  have "unat ?d < 2 ^ 32" using assms(2) by (simp add: word_less_nat_alt)
  from due [OF this] show "te_due (te_with_sequence_id (te_with_attempt (te_new timestamp) a) q) = timestamp"
    using assms(1) by (simp add: not_less [symmetric] te_due_def te_with_sequence_id_def te_with_attempt_def te_new_def)
  show "te_attempt (te_with_sequence_id (te_with_attempt (te_new timestamp) a) q) = a"
    "te_sequence_id (te_with_sequence_id (te_with_attempt (te_new timestamp) a) q) = q"
    by (simp_all only: te_attempt_def te_sequence_id_def te_with_sequence_id_def
        te_with_attempt_def te_new_def task_epoch.sel attempt sequence)
qed

end
