(* ===== verification/ChangeLog.thy ===== *)
theory ChangeLog
  imports Keys BlobId VecMap
begin

text \<open>
  Recording changes, \<open>crates/store/src/write/log.rs\<close>: while a batch is built, the inserts, updates
  and deletes of items and containers are collected per collection, and written to the log as one
  entry. A hash set is modelled by the set of its elements; the order in which it iterates is an
  argument (\<open>order32\<close>, \<open>order64\<close>) that lists every element once.
\<close>

subsection \<open>Data\<close>

record changes =
  item_inserts :: "u64 set"
  item_updates :: "u64 set"
  item_deletes :: "u64 set"
  container_inserts :: "u32 set"
  container_updates :: "u32 set"
  container_deletes :: "u32 set"
  container_property_changes :: "u32 set"

definition changes_default :: changes where
  "changes_default = \<lparr>item_inserts = {}, item_updates = {}, item_deletes = {}, container_inserts = {},
     container_updates = {}, container_deletes = {}, container_property_changes = {}\<rparr>"

text \<open>Strings are their UTF-8 bytes.\<close>

datatype vanished_item = VI_Name bytes | VI_Id u64 | VI_IdPair u32 u32

record change_log_builder =
  clb_changes :: "(sync_collection, changes) vec_map"
  clb_vanished :: "(vanished_collection, vanished_item list) vec_map"

definition clb_default :: change_log_builder where
  "clb_default = \<lparr>clb_changes = vm_new, clb_vanished = vm_new\<rparr>"

subsection \<open>Operations\<close>

definition build_id :: "u32 option \<Rightarrow> u32 \<Rightarrow> u64" where
  "build_id prefix document_id =
     (case prefix of
        Some p \<Rightarrow> push_bit 32 (ucast p) OR ucast document_id
      | None \<Rightarrow> ucast document_id)"

text \<open>What each operation does to the changes of its collection.\<close>

definition changes_item_insert :: "u64 \<Rightarrow> changes \<Rightarrow> changes" where
  "changes_item_insert i c =
     (if i \<in> item_deletes c
      then c\<lparr>item_deletes := item_deletes c - {i}, item_updates := insert i (item_updates c)\<rparr>
      else c\<lparr>item_inserts := insert i (item_inserts c)\<rparr>)"

definition changes_item_update :: "u64 \<Rightarrow> changes \<Rightarrow> changes" where
  "changes_item_update i c = c\<lparr>item_updates := insert i (item_updates c)\<rparr>"

definition changes_item_delete :: "u64 \<Rightarrow> changes \<Rightarrow> changes" where
  "changes_item_delete i c =
     c\<lparr>item_updates := item_updates c - {i}, item_deletes := insert i (item_deletes c)\<rparr>"

definition changes_container_insert :: "u32 \<Rightarrow> changes \<Rightarrow> changes" where
  "changes_container_insert i c =
     (if i \<in> container_deletes c
      then c\<lparr>container_deletes := container_deletes c - {i}, container_updates := insert i (container_updates c)\<rparr>
      else c\<lparr>container_inserts := insert i (container_inserts c)\<rparr>)"

definition changes_container_update :: "u32 \<Rightarrow> changes \<Rightarrow> changes" where
  "changes_container_update i c = c\<lparr>container_updates := insert i (container_updates c)\<rparr>"

definition changes_container_property_update :: "u32 \<Rightarrow> changes \<Rightarrow> changes" where
  "changes_container_property_update i c =
     c\<lparr>container_property_changes := insert i (container_property_changes c)\<rparr>"

definition changes_container_delete :: "u32 \<Rightarrow> changes \<Rightarrow> changes" where
  "changes_container_delete i c =
     c\<lparr>container_updates := container_updates c - {i},
       container_property_changes := container_property_changes c - {i},
       container_deletes := insert i (container_deletes c)\<rparr>"

text \<open>\<open>get_mut_or_insert\<close> with the default value, and writing through the reference.\<close>

definition vm_modify :: "('k, 'v) vec_map \<Rightarrow> 'k \<Rightarrow> 'v \<Rightarrow> ('v \<Rightarrow> 'v) \<Rightarrow> ('k, 'v) vec_map" where
  "vm_modify m key dflt f =
     (case vm_get_mut_or_insert_with m key (\<lambda>_. dflt) of (v, write_back) \<Rightarrow> write_back (f v))"

definition clb_on_changes :: "sync_collection \<Rightarrow> (changes \<Rightarrow> changes) \<Rightarrow> change_log_builder \<Rightarrow> change_log_builder" where
  "clb_on_changes collection f b = b\<lparr>clb_changes := vm_modify (clb_changes b) collection changes_default f\<rparr>"

definition log_container_insert :: "sync_collection \<Rightarrow> u32 \<Rightarrow> change_log_builder \<Rightarrow> change_log_builder" where
  "log_container_insert collection document_id = clb_on_changes collection (changes_container_insert document_id)"

definition log_item_insert :: "sync_collection \<Rightarrow> u32 option \<Rightarrow> u32 \<Rightarrow> change_log_builder \<Rightarrow> change_log_builder" where
  "log_item_insert collection prefix document_id =
     clb_on_changes collection (changes_item_insert (build_id prefix document_id))"

definition log_container_update :: "sync_collection \<Rightarrow> u32 \<Rightarrow> change_log_builder \<Rightarrow> change_log_builder" where
  "log_container_update collection document_id = clb_on_changes collection (changes_container_update document_id)"

definition log_container_property_update :: "sync_collection \<Rightarrow> u32 \<Rightarrow> change_log_builder \<Rightarrow> change_log_builder" where
  "log_container_property_update collection document_id =
     clb_on_changes collection (changes_container_property_update document_id)"

definition log_item_update :: "sync_collection \<Rightarrow> u32 option \<Rightarrow> u32 \<Rightarrow> change_log_builder \<Rightarrow> change_log_builder" where
  "log_item_update collection prefix document_id =
     clb_on_changes collection (changes_item_update (build_id prefix document_id))"

definition log_container_delete :: "sync_collection \<Rightarrow> u32 \<Rightarrow> change_log_builder \<Rightarrow> change_log_builder" where
  "log_container_delete collection document_id = clb_on_changes collection (changes_container_delete document_id)"

definition log_item_delete :: "sync_collection \<Rightarrow> u32 option \<Rightarrow> u32 \<Rightarrow> change_log_builder \<Rightarrow> change_log_builder" where
  "log_item_delete collection prefix document_id =
     clb_on_changes collection (changes_item_delete (build_id prefix document_id))"

definition log_vanished_item :: "vanished_collection \<Rightarrow> vanished_item \<Rightarrow> change_log_builder \<Rightarrow> change_log_builder" where
  "log_vanished_item collection item b =
     b\<lparr>clb_vanished := vm_modify (clb_vanished b) collection [] (\<lambda>items. items @ [item])\<rparr>"

definition has_container_changes :: "changes \<Rightarrow> bool" where
  "has_container_changes c \<longleftrightarrow> container_inserts c \<noteq> {} \<or> container_updates c \<noteq> {}
     \<or> container_property_changes c \<noteq> {} \<or> container_deletes c \<noteq> {}"

definition has_item_changes :: "changes \<Rightarrow> bool" where
  "has_item_changes c \<longleftrightarrow> item_inserts c \<noteq> {} \<or> item_updates c \<noteq> {} \<or> item_deletes c \<noteq> {}"

subsection \<open>Serialisation\<close>

definition push_ids :: "'a::len word list \<Rightarrow> bytes \<Rightarrow> bytes" where
  "push_ids ids buf = foldl push_leb128 buf ids"

definition changes_serialize :: "(u32 set \<Rightarrow> u32 list) \<Rightarrow> (u64 set \<Rightarrow> u64 list) \<Rightarrow> changes \<Rightarrow> bytes" where
  "changes_serialize order32 order64 c =
     (let buf = [];
          buf = push_leb128 buf (of_nat (card (container_inserts c)) :: u64);
          buf = push_leb128 buf (of_nat (card (container_updates c)) :: u64);
          buf = push_leb128 buf (of_nat (card (container_property_changes c)) :: u64);
          buf = push_leb128 buf (of_nat (card (container_deletes c)) :: u64);
          buf = push_leb128 buf (of_nat (card (item_inserts c)) :: u64);
          buf = push_leb128 buf (of_nat (card (item_updates c)) :: u64);
          buf = push_leb128 buf (of_nat (card (item_deletes c)) :: u64);
          buf = foldl (\<lambda>buf ids. push_ids (order32 ids) buf) buf
            [container_inserts c, container_updates c, container_property_changes c, container_deletes c]
      in foldl (\<lambda>buf ids. push_ids (order64 ids) buf) buf [item_inserts c, item_updates c, item_deletes c])"

fun vanished_serialized_size :: "vanished_item \<Rightarrow> nat" where
  "vanished_serialized_size (VI_Name name) = length name + 1"
| "vanished_serialized_size (VI_Id _) = 8"
| "vanished_serialized_size (VI_IdPair _ _) = 8"

fun vanished_write :: "key_serializer \<Rightarrow> vanished_item \<Rightarrow> key_serializer" where
  "vanished_write buf (VI_Name name) = ks_chain buf [write_slice name, write_u8 0]"
| "vanished_write buf (VI_Id i) = ks_chain buf [write_slice (to_be_bytes i)]"
| "vanished_write buf (VI_IdPair a b) = ks_chain buf [write_slice (to_be_bytes a), write_slice (to_be_bytes b)]"

definition vanished_serialize :: "vanished_item list \<Rightarrow> bytes" where
  "vanished_serialize items = foldl vanished_write ks_new items"

definition vanished_from_pair :: "u32 \<Rightarrow> u32 \<Rightarrow> vanished_item" where
  "vanished_from_pair a b = VI_Id (push_bit 32 (ucast a) OR ucast b)"

subsection \<open>Recorded changes of a batch\<close>

text \<open>
  A batch is a sequence of events on the items of a collection. An event is valid when it inserts
  an item that is not there, or updates or deletes one that is.
\<close>

datatype 'i event = Inserted (ev_id: 'i) | Updated (ev_id: 'i) | Deleted (ev_id: 'i)

fun ev_valid :: "'i set \<Rightarrow> 'i event \<Rightarrow> bool" where
  "ev_valid present (Inserted i) = (i \<notin> present)"
| "ev_valid present (Updated i) = (i \<in> present)"
| "ev_valid present (Deleted i) = (i \<in> present)"

fun ev_apply :: "'i event \<Rightarrow> 'i set \<Rightarrow> 'i set" where
  "ev_apply (Inserted i) present = insert i present"
| "ev_apply (Updated i) present = present"
| "ev_apply (Deleted i) present = present - {i}"

fun evs_valid :: "'i set \<Rightarrow> 'i event list \<Rightarrow> bool" where
  "evs_valid present [] = True"
| "evs_valid present (e # es) = (ev_valid present e \<and> evs_valid (ev_apply e present) es)"

definition evs_apply :: "'i event list \<Rightarrow> 'i set \<Rightarrow> 'i set" where
  "evs_apply es present = fold ev_apply es present"

lemma evs_apply_simps [simp]:
  "evs_apply [] present = present" "evs_apply (e # es) present = evs_apply es (ev_apply e present)"
  "evs_apply (es @ fs) present = evs_apply fs (evs_apply es present)"
  by (simp_all add: evs_apply_def)

lemma evs_valid_append:
  "evs_valid present (es @ fs) \<longleftrightarrow> evs_valid present es \<and> evs_valid (evs_apply es present) fs"
  by (induction es arbitrary: present) auto

fun changes_item_event :: "u64 event \<Rightarrow> changes \<Rightarrow> changes" where
  "changes_item_event (Inserted i) = changes_item_insert i"
| "changes_item_event (Updated i) = changes_item_update i"
| "changes_item_event (Deleted i) = changes_item_delete i"

fun changes_container_event :: "u32 event \<Rightarrow> changes \<Rightarrow> changes" where
  "changes_container_event (Inserted i) = changes_container_insert i"
| "changes_container_event (Updated i) = changes_container_update i"
| "changes_container_event (Deleted i) = changes_container_delete i"

text \<open>
  What the three recorded sets tell of the state before and after the batch: replaying the inserts,
  then the updates, then the deletes is valid before the batch and leads to the state after it.
\<close>

definition batch_inv :: "'i set \<Rightarrow> 'i set \<Rightarrow> 'i set \<Rightarrow> 'i set \<Rightarrow> 'i set \<Rightarrow> bool" where
  "batch_inv before now ins upd del \<longleftrightarrow>
     ins \<inter> before = {} \<and> del \<inter> upd = {} \<and> upd \<subseteq> now \<and> del \<subseteq> before \<union> ins \<and> now = (before \<union> ins) - del"

lemma batch_inv_start: "batch_inv before before {} {} {}"
  by (simp add: batch_inv_def)

lemma batch_inv_steps:
  assumes "batch_inv before now ins upd del"
  shows "i \<notin> now \<Longrightarrow> i \<in> del \<Longrightarrow> batch_inv before (insert i now) ins (insert i upd) (del - {i})"
    and "i \<notin> now \<Longrightarrow> i \<notin> del \<Longrightarrow> batch_inv before (insert i now) (insert i ins) upd del"
    and "i \<in> now \<Longrightarrow> batch_inv before now ins (insert i upd) del"
    and "i \<in> now \<Longrightarrow> batch_inv before (now - {i}) ins (upd - {i}) (insert i del)"
  using assms by (auto simp: batch_inv_def)

text \<open>Item and container events leave each other's sets alone, so each kind has its own invariant.\<close>

definition items_inv :: "u64 set \<Rightarrow> u64 set \<Rightarrow> changes \<Rightarrow> bool" where
  "items_inv before now c = batch_inv before now (item_inserts c) (item_updates c) (item_deletes c)"

definition containers_inv :: "u32 set \<Rightarrow> u32 set \<Rightarrow> changes \<Rightarrow> bool" where
  "containers_inv before now c =
     batch_inv before now (container_inserts c) (container_updates c) (container_deletes c)"

lemma changes_item_event_inv:
  assumes "items_inv before now c" "ev_valid now e"
  shows "items_inv before (ev_apply e now) (changes_item_event e c)"
  using assms batch_inv_steps [of before now "item_inserts c" "item_updates c" "item_deletes c" "ev_id e"]
  by (cases e) (auto simp: items_inv_def changes_item_insert_def changes_item_update_def changes_item_delete_def)

lemma changes_container_event_inv:
  assumes "containers_inv before now c" "ev_valid now e"
  shows "containers_inv before (ev_apply e now) (changes_container_event e c)"
  using assms batch_inv_steps [of before now "container_inserts c" "container_updates c" "container_deletes c" "ev_id e"]
  by (cases e) (auto simp: containers_inv_def changes_container_insert_def changes_container_update_def
      changes_container_delete_def)

lemma changes_events_independent:
  "items_inv before now (changes_container_event f c) = items_inv before now c"
  "containers_inv before' now' (changes_item_event e c) = containers_inv before' now' c"
  "items_inv before now (changes_container_property_update d c) = items_inv before now c"
  "containers_inv before' now' (changes_container_property_update d c) = containers_inv before' now' c"
  by (cases e; cases f; simp add: items_inv_def containers_inv_def changes_container_insert_def
      changes_container_update_def changes_container_delete_def changes_container_property_update_def
      changes_item_insert_def changes_item_update_def changes_item_delete_def)+

end
