(* ===== verification/ChangeQuery.thy ===== *)
theory ChangeQuery
  imports ChangeLog
begin

text \<open>
  Reading the change log, \<open>crates/store/src/query/log.rs\<close>: the entries of the log since a change id
  are merged into one list of changes, in which a later change of an object replaces an earlier one.
  The store is a list of log keys and values; a scan visits the entries whose serialised keys lie
  between two bounds. The locale \<open>change_report\<close> states what merging promises for one kind of
  object; items and containers both interpret it.
\<close>

subsection \<open>Data\<close>

datatype change =
    InsertContainer u64
  | UpdateContainer u64
  | UpdateContainerProperty u64
  | DeleteContainer u64
  | InsertItem u64
  | UpdateItem u64
  | DeleteItem u64

record change_report =
  cr_changes :: "change list"
  cr_from_change_id :: u64
  cr_to_change_id :: u64
  cr_container_change_id :: "u64 option"
  cr_item_change_id :: "u64 option"
  cr_is_truncated :: bool

datatype log_query = Q_All | Q_Since u64 | Q_SinceInclusive u64 | Q_RangeInclusive u64 u64

datatype log_collection = LC_Sync sync_collection | LC_Vanished vanished_collection

fun log_collection_u8 :: "log_collection \<Rightarrow> u8" where
  "log_collection_u8 (LC_Sync col) = sync_collection_to_u8 col"
| "log_collection_u8 (LC_Vanished col) = vanished_to_u8 col"

definition change_report_default :: change_report where
  "change_report_default = \<lparr>cr_changes = [], cr_from_change_id = 0, cr_to_change_id = 0,
     cr_container_change_id = None, cr_item_change_id = None, cr_is_truncated = False\<rparr>"

fun change_item_id :: "change \<Rightarrow> u64 option" where
  "change_item_id (InsertItem i) = Some i"
| "change_item_id (UpdateItem i) = Some i"
| "change_item_id (DeleteItem i) = Some i"
| "change_item_id _ = None"

fun change_container_id :: "change \<Rightarrow> u64 option" where
  "change_container_id (InsertContainer i) = Some i"
| "change_container_id (UpdateContainer i) = Some i"
| "change_container_id (UpdateContainerProperty i) = Some i"
| "change_container_id (DeleteContainer i) = Some i"
| "change_container_id _ = None"

fun is_container_change :: "change \<Rightarrow> bool" where
  "is_container_change (InsertContainer _) = True"
| "is_container_change (UpdateContainer _) = True"
| "is_container_change (UpdateContainerProperty _) = True"
| "is_container_change (DeleteContainer _) = True"
| "is_container_change _ = False"

fun is_item_change :: "change \<Rightarrow> bool" where
  "is_item_change (InsertItem _) = True"
| "is_item_change (UpdateItem _) = True"
| "is_item_change (DeleteItem _) = True"
| "is_item_change _ = False"

definition total_container_changes :: "change list \<Rightarrow> nat" where
  "total_container_changes cs = length (filter is_container_change cs)"

definition total_item_changes :: "change list \<Rightarrow> nat" where
  "total_item_changes cs = length (filter is_item_change cs)"

subsection \<open>Merging one entry\<close>

text \<open>
  The inner loops look for the first change of the same object that one of their arms matches.
  \<open>change_pos\<close> is the index of the identifier among the updates and property changes.
\<close>

definition container_insert_step :: "u64 \<Rightarrow> change list \<Rightarrow> change list" where
  "container_insert_step i cs = cs @ [InsertContainer i]"

definition container_update_step :: "u64 \<Rightarrow> nat \<Rightarrow> u64 \<Rightarrow> change list \<Rightarrow> change list" where
  "container_update_step n_updates change_pos i cs =
     (let is_property_change = unat n_updates \<le> change_pos;
          updated = (\<lambda>is_property. if \<not> is_property then UpdateContainer i else UpdateContainerProperty i)
      in case position (\<lambda>c. c \<in> {InsertContainer i, UpdateContainer i, UpdateContainerProperty i}) cs of
           None \<Rightarrow> cs @ [updated is_property_change]
         | Some idx \<Rightarrow>
             if cs ! idx = InsertContainer i then cs
             else if cs ! idx = UpdateContainer i then remove_nth idx cs @ [updated False]
             else remove_nth idx cs @ [updated is_property_change])"

definition container_delete_step :: "u64 \<Rightarrow> change list \<Rightarrow> change list" where
  "container_delete_step i cs =
     (case position (\<lambda>c. c \<in> {InsertContainer i, UpdateContainer i}) cs of
        None \<Rightarrow> cs @ [DeleteContainer i]
      | Some idx \<Rightarrow>
          if cs ! idx = InsertContainer i then remove_nth idx cs
          else remove_nth idx cs @ [DeleteContainer i])"

definition item_insert_step :: "u64 \<Rightarrow> change list \<Rightarrow> change list" where
  "item_insert_step i cs = cs @ [InsertItem i]"

definition item_update_step :: "u64 \<Rightarrow> change list \<Rightarrow> change list" where
  "item_update_step i cs =
     (case position (\<lambda>c. c \<in> {InsertItem i, UpdateItem i}) cs of
        None \<Rightarrow> cs @ [UpdateItem i]
      | Some idx \<Rightarrow>
          if cs ! idx = InsertItem i then cs else remove_nth idx cs @ [UpdateItem i])"

definition item_delete_step :: "u64 \<Rightarrow> change list \<Rightarrow> change list" where
  "item_delete_step i cs =
     (case position (\<lambda>c. c \<in> {InsertItem i, UpdateItem i}) cs of
        None \<Rightarrow> cs @ [DeleteItem i]
      | Some idx \<Rightarrow>
          if cs ! idx = InsertItem i then remove_nth idx cs else remove_nth idx cs @ [DeleteItem i])"

text \<open>A loop that reads \<open>n\<close> identifiers and merges each.\<close>

definition next_id :: "bytes \<Rightarrow> u64 option \<times> bytes" where
  "next_id = next_leb128 slice_next shifts_u64"

fun for_ids :: "nat \<Rightarrow> nat \<Rightarrow> (nat \<Rightarrow> u64 \<Rightarrow> 's \<Rightarrow> 's) \<Rightarrow> 's \<Rightarrow> bytes \<Rightarrow> 's option \<times> bytes" where
  "for_ids pos 0 step s it = (Some s, it)"
| "for_ids pos (Suc n) step s it =
     it_bind next_id (\<lambda>i. for_ids (Suc pos) n step (step pos i s)) it"

definition changes_deserialize ::
  "change list \<Rightarrow> bytes \<Rightarrow> (change list \<times> bool \<times> bool) option \<times> bytes" where
  "changes_deserialize cs =
     it_bind next_id (\<lambda>n_container_inserts.
     it_bind next_id (\<lambda>n_container_updates.
     it_bind next_id (\<lambda>n_container_property_changes.
     it_bind next_id (\<lambda>n_container_deletes.
     it_bind next_id (\<lambda>n_item_inserts.
     it_bind next_id (\<lambda>n_item_updates.
     it_bind next_id (\<lambda>n_item_deletes.
       let has_container_changes = n_container_inserts + n_container_updates
             + n_container_property_changes + n_container_deletes > 0;
           has_item_changes = n_item_inserts + n_item_updates + n_item_deletes > 0
       in it_bind (for_ids 0 (unat n_container_inserts) (\<lambda>_. container_insert_step) cs) (\<lambda>cs.
          it_bind (for_ids 0 (unat (n_container_updates + n_container_property_changes))
            (container_update_step n_container_updates) cs) (\<lambda>cs.
          it_bind (for_ids 0 (unat n_container_deletes) (\<lambda>_. container_delete_step) cs) (\<lambda>cs.
          it_bind (for_ids 0 (unat n_item_inserts) (\<lambda>_. item_insert_step) cs) (\<lambda>cs.
          it_bind (for_ids 0 (unat n_item_updates) (\<lambda>_. item_update_step) cs) (\<lambda>cs.
          it_bind (for_ids 0 (unat n_item_deletes) (\<lambda>_. item_delete_step) cs) (\<lambda>cs it.
            (Some (cs, has_container_changes, has_item_changes), it))))))))))))))"

subsection \<open>Scanning the log\<close>

type_synonym log_store = "(log_key \<times> bytes) list"

definition iterate_log :: "log_store \<Rightarrow> log_key \<Rightarrow> log_key \<Rightarrow> (bytes \<times> bytes) list" where
  "iterate_log store from_key to_key =
     filter (\<lambda>(k, _). log_key_serialize from_key 0 \<le> k \<and> k \<le> log_key_serialize to_key 0)
       (map (\<lambda>(k, v). (log_key_serialize k 0, v)) store)"

fun query_bounds :: "log_query \<Rightarrow> bool \<times> u64 \<times> u64" where
  "query_bounds Q_All = (True, 0, 0xFFFFFFFFFFFFFFFF)"
| "query_bounds (Q_Since change_id) = (False, change_id, 0xFFFFFFFFFFFFFFFF)"
| "query_bounds (Q_SinceInclusive change_id) = (True, change_id, 0xFFFFFFFFFFFFFFFF)"
| "query_bounds (Q_RangeInclusive from_change_id to_change_id) = (True, from_change_id, to_change_id)"

definition changes_entry ::
  "bool \<Rightarrow> bool \<Rightarrow> u64 \<Rightarrow> change_report \<Rightarrow> bytes \<times> bytes \<Rightarrow> change_report option" where
  "changes_entry is_share_log is_inclusive from_change_id log kv =
     (case kv of (key, value) \<Rightarrow>
        do {
          change_id \<leftarrow> deserialize_be_u64 key (usize_len key - U64_LEN);
          if is_inclusive \<or> change_id \<noteq> from_change_id
          then if value = [] then Some (log\<lparr>cr_is_truncated := True\<rparr>)
               else let log = (if cr_changes log = [] then log\<lparr>cr_from_change_id := change_id\<rparr> else log);
                        log = log\<lparr>cr_to_change_id := change_id\<rparr>
                    in if \<not> is_share_log
                       then do {
                         (cs, has_container_changes, has_item_changes) \<leftarrow>
                           fst (changes_deserialize (cr_changes log) value);
                         let log = log\<lparr>cr_changes := cs\<rparr>;
                             log = (if has_container_changes
                                    then log\<lparr>cr_container_change_id := Some change_id\<rparr> else log);
                             log = (if has_item_changes
                                    then log\<lparr>cr_item_change_id := Some change_id\<rparr> else log)
                         in Some log
                       }
                       else Some (log\<lparr>cr_changes := cr_changes log @ [InsertItem change_id]\<rparr>)
          else Some (log\<lparr>cr_from_change_id := change_id, cr_to_change_id := change_id\<rparr>)
        })"

text \<open>Run a callback over the entries of a scan, stopping with \<open>None\<close> at the first error.\<close>

fun iterate_fold :: "('s \<Rightarrow> 'e \<Rightarrow> 's option) \<Rightarrow> 's \<Rightarrow> 'e list \<Rightarrow> 's option" where
  "iterate_fold f s [] = Some s"
| "iterate_fold f s (e # es) = (case f s e of Some s' \<Rightarrow> iterate_fold f s' es | None \<Rightarrow> None)"

definition store_changes :: "log_store \<Rightarrow> u32 \<Rightarrow> log_collection \<Rightarrow> log_query \<Rightarrow> change_report option" where
  "store_changes store account_id collection query =
     (let is_share_log = (collection = LC_Sync Sync_ShareNotification);
          coll = log_collection_u8 collection
      in case query_bounds query of (is_inclusive, from_change_id, to_change_id) \<Rightarrow>
           iterate_fold (changes_entry is_share_log is_inclusive from_change_id) change_report_default
             (iterate_log store
               \<lparr>lk_account_id = account_id, lk_collection = coll, lk_change_id = from_change_id\<rparr>
               \<lparr>lk_account_id = account_id, lk_collection = coll, lk_change_id = to_change_id\<rparr>))"

definition get_last_change_id :: "log_store \<Rightarrow> u32 \<Rightarrow> log_collection \<Rightarrow> u64 option option" where
  "get_last_change_id store account_id collection =
     (let coll = log_collection_u8 collection
      in case rev (iterate_log store
               \<lparr>lk_account_id = account_id, lk_collection = coll, lk_change_id = 0\<rparr>
               \<lparr>lk_account_id = account_id, lk_collection = coll, lk_change_id = 0xFFFFFFFFFFFFFFFF\<rparr>) of
           [] \<Rightarrow> Some None
         | (key, _) # _ \<Rightarrow> map_option Some (deserialize_be_u64 key (usize_len key - U64_LEN)))"

subsection \<open>Vanished items\<close>

definition vanished_u64 :: "bytes \<Rightarrow> u64 option \<times> bytes" where
  "vanished_u64 = it_bind (next_n slice_next 8) (\<lambda>num it. (Some (from_be_bytes num), it))"

definition vanished_pair :: "bytes \<Rightarrow> (u32 \<times> u32) option \<times> bytes" where
  "vanished_pair = it_bind (next_n slice_next 4) (\<lambda>num1.
     it_bind (next_n slice_next 4) (\<lambda>num2 it. (Some (from_be_bytes num1, from_be_bytes num2), it)))"

fun vanished_name_loop :: "bytes \<Rightarrow> bytes \<Rightarrow> bytes option \<times> bytes" where
  "vanished_name_loop name [] = (None, [])"
| "vanished_name_loop name (b # bs) = (if b \<noteq> 0 then vanished_name_loop (name @ [b]) bs else (Some name, bs))"

definition vanished_name :: "bytes \<Rightarrow> bytes option \<times> bytes" where
  "vanished_name = it_bind (vanished_name_loop []) (\<lambda>name it. (if utf8_valid name then Some name else None, it))"

text \<open>
  The loop that reads items until the iterator is exhausted. Each item takes at least one byte, so
  the length of the value bounds the number of rounds.
\<close>

fun vanished_items :: "nat \<Rightarrow> (bytes \<Rightarrow> 'v option \<times> bytes) \<Rightarrow> 'v list \<Rightarrow> bytes \<Rightarrow> 'v list option" where
  "vanished_items fuel rd acc [] = Some acc"
| "vanished_items 0 rd acc (b # bs) = None"
| "vanished_items (Suc fuel) rd acc (b # bs) =
     (case rd (b # bs) of
        (Some item, it) \<Rightarrow> vanished_items fuel rd (acc @ [item]) it
      | (None, _) \<Rightarrow> None)"

definition vanished_entry ::
  "(bytes \<Rightarrow> 'v option \<times> bytes) \<Rightarrow> bool \<Rightarrow> u64 \<Rightarrow> 'v list \<Rightarrow> bytes \<times> bytes \<Rightarrow> 'v list option" where
  "vanished_entry rd is_inclusive from_change_id vanished kv =
     (case kv of (key, value) \<Rightarrow>
        do {
          change_id \<leftarrow> deserialize_be_u64 key (usize_len key - U64_LEN);
          if is_inclusive \<or> change_id \<noteq> from_change_id
          then vanished_items (length value) rd vanished value
          else Some vanished
        })"

definition store_vanished ::
  "(bytes \<Rightarrow> 'v option \<times> bytes) \<Rightarrow> log_store \<Rightarrow> u32 \<Rightarrow> log_collection \<Rightarrow> log_query \<Rightarrow> 'v list option" where
  "store_vanished rd store account_id collection query =
     (let coll = log_collection_u8 collection
      in case query_bounds query of (is_inclusive, from_change_id, to_change_id) \<Rightarrow>
           iterate_fold (vanished_entry rd is_inclusive from_change_id) []
             (iterate_log store
               \<lparr>lk_account_id = account_id, lk_collection = coll, lk_change_id = from_change_id\<rparr>
               \<lparr>lk_account_id = account_id, lk_collection = coll, lk_change_id = to_change_id\<rparr>))"

subsection \<open>What merging promises\<close>

definition reported :: "('i \<Rightarrow> 'c) \<Rightarrow> 'c list \<Rightarrow> 'i set" where
  "reported C cs = {i. C i \<in> set cs}"

text \<open>
  The report of a history from \<open>before\<close> to \<open>now\<close>: applying the reported deletes and then the
  reported inserts to the one gives the other, an object that was there is reported as inserted only
  when it is also reported as deleted, updates are of objects that were there and are not reported
  otherwise, and every touched object that is there is reported.
\<close>

definition net_report ::
  "('i \<Rightarrow> 'c) \<Rightarrow> ('i \<Rightarrow> 'c) \<Rightarrow> ('i \<Rightarrow> 'c) \<Rightarrow> 'i set \<Rightarrow> 'i set \<Rightarrow> 'i set \<Rightarrow> 'c list \<Rightarrow> bool" where
  "net_report Ins Upd Del before now touched cs \<longleftrightarrow>
     now = (before - reported Del cs) \<union> reported Ins cs
     \<and> reported Del cs \<subseteq> before \<and> reported Ins cs \<inter> before \<subseteq> reported Del cs
     \<and> reported Upd cs \<subseteq> before \<and> reported Upd cs \<inter> (reported Ins cs \<union> reported Del cs) = {}
     \<and> touched \<inter> now \<subseteq> reported Ins cs \<union> reported Upd cs"

locale change_merge =
  fixes Ins Upd Del :: "'i \<Rightarrow> 'c"
    and ok :: "'c list \<Rightarrow> bool"
    and insert_step update_step delete_step :: "'i \<Rightarrow> 'c list \<Rightarrow> 'c list"
  assumes ok_Nil: "ok []"
    and not_both: "ok cs \<Longrightarrow> reported Ins cs \<inter> reported Upd cs = {}"
    and insert_step: "ok cs \<Longrightarrow> i \<notin> reported Ins cs \<Longrightarrow> i \<notin> reported Upd cs \<Longrightarrow>
      ok (insert_step i cs) \<and> reported Ins (insert_step i cs) = insert i (reported Ins cs)
      \<and> reported Upd (insert_step i cs) = reported Upd cs \<and> reported Del (insert_step i cs) = reported Del cs"
    and update_step: "ok cs \<Longrightarrow>
      ok (update_step i cs) \<and> reported Ins (update_step i cs) = reported Ins cs
      \<and> reported Upd (update_step i cs) = (if i \<in> reported Ins cs then reported Upd cs else insert i (reported Upd cs))
      \<and> reported Del (update_step i cs) = reported Del cs"
    and delete_step: "ok cs \<Longrightarrow> i \<in> reported Ins cs \<or> i \<notin> reported Del cs \<Longrightarrow>
      ok (delete_step i cs) \<and> reported Ins (delete_step i cs) = reported Ins cs - {i}
      \<and> reported Upd (delete_step i cs) = reported Upd cs - {i}
      \<and> reported Del (delete_step i cs) = (if i \<in> reported Ins cs then reported Del cs else insert i (reported Del cs))"
begin

definition net :: "'i set \<Rightarrow> 'i set \<Rightarrow> 'i set \<Rightarrow> 'c list \<Rightarrow> bool" where
  "net before now touched cs \<longleftrightarrow> ok cs \<and> net_report Ins Upd Del before now touched cs"

fun report_step :: "'i event \<Rightarrow> 'c list \<Rightarrow> 'c list" where
  "report_step (Inserted i) = insert_step i"
| "report_step (Updated i) = update_step i"
| "report_step (Deleted i) = delete_step i"

lemma net_Nil: "net before before {} []"
  by (simp add: net_def net_report_def ok_Nil reported_def)

lemma net_mono: "net before now touched cs \<Longrightarrow> touched' \<subseteq> touched \<Longrightarrow> net before now touched' cs"
  by (auto simp: net_def net_report_def)

lemma report_step_net:
  assumes "net before now touched cs" "ev_valid now e"
  shows "net before (ev_apply e now) (insert (ev_id e) touched) (report_step e cs)"
proof (cases e)
  case (Inserted i)
  then have "i \<notin> reported Ins cs" "i \<notin> reported Upd cs" using assms by (auto simp: net_def net_report_def)
  with assms Inserted insert_step [of cs i] show ?thesis by (auto simp: net_def net_report_def)
next
  case (Updated i)
  with assms update_step [of cs i] not_both [of cs] show ?thesis by (auto simp: net_def net_report_def split: if_splits)
next
  case (Deleted i)
  then have "i \<in> reported Ins cs \<or> i \<notin> reported Del cs" using assms by (auto simp: net_def net_report_def)
  with assms Deleted delete_step [of cs i] not_both [of cs] show ?thesis
    by (auto simp: net_def net_report_def split: if_splits)
qed

lemma report_net:
  assumes "net before now touched cs" "evs_valid now es"
  shows "net before (evs_apply es now) (touched \<union> ev_id ` set es) (fold report_step es cs)"
  using assms
proof (induction es arbitrary: now touched cs)
  case (Cons e es)
  from Cons.IH [OF report_step_net [OF Cons.prems(1)]] Cons.prems(2) show ?case by simp
qed simp

end

subsection \<open>Merging by the first match\<close>

text \<open>
  Both kinds of objects are merged the same way: an update looks for an earlier insert or update of
  the object, a delete for the same.
\<close>

definition merge_update :: "('i \<Rightarrow> 'c) \<Rightarrow> ('i \<Rightarrow> 'c) \<Rightarrow> 'i \<Rightarrow> 'c list \<Rightarrow> 'c list" where
  "merge_update Ins Upd i cs =
     (case position (\<lambda>c. c \<in> {Ins i, Upd i}) cs of
        None \<Rightarrow> cs @ [Upd i]
      | Some idx \<Rightarrow> if cs ! idx = Ins i then cs else remove_nth idx cs @ [Upd i])"

definition merge_delete :: "('i \<Rightarrow> 'c) \<Rightarrow> ('i \<Rightarrow> 'c) \<Rightarrow> ('i \<Rightarrow> 'c) \<Rightarrow> 'i \<Rightarrow> 'c list \<Rightarrow> 'c list" where
  "merge_delete Ins Upd Del i cs =
     (case position (\<lambda>c. c \<in> {Ins i, Upd i}) cs of
        None \<Rightarrow> cs @ [Del i]
      | Some idx \<Rightarrow> if cs ! idx = Ins i then remove_nth idx cs else remove_nth idx cs @ [Del i])"

lemma reported_simps [simp]:
  "reported C [] = {}" "reported C (xs @ ys) = reported C xs \<union> reported C ys"
  "reported C (x # xs) = {i. C i = x} \<union> reported C xs"
  by (auto simp: reported_def)

lemma reported_iff: "i \<in> reported C cs \<longleftrightarrow> C i \<in> set cs"
  by (simp add: reported_def)

lemma first_match_cases:
  obtains "a \<notin> set cs" "b \<notin> set cs" "position (\<lambda>c. c \<in> {a, b}) cs = None"
  | c xs ys where "c \<in> {a, b}" "cs = xs @ c # ys" "a \<notin> set xs" "b \<notin> set xs"
      "position (\<lambda>c. c \<in> {a, b}) cs = Some (length xs)" "cs ! length xs = c" "remove_nth (length xs) cs = xs @ ys"
proof (cases "position (\<lambda>c. c \<in> {a, b}) cs")
  case None
  with that(1) show ?thesis by (auto simp: position_None)
next
  case (Some idx)
  from position_split [OF this] obtain xs c ys where
    "cs = xs @ c # ys" "idx = length xs" "c \<in> {a, b}" "\<forall>x \<in> set xs. x \<notin> {a, b}" by metis
  with that(2) [of c xs ys] Some show ?thesis by (auto simp: remove_nth_append)
qed

locale object_changes =
  fixes Ins Upd Del :: "'i \<Rightarrow> 'c"
  assumes inject: "Ins i = Ins j \<longleftrightarrow> i = j" "Upd i = Upd j \<longleftrightarrow> i = j" "Del i = Del j \<longleftrightarrow> i = j"
    and kinds: "Ins i \<noteq> Upd j" "Ins i \<noteq> Del j" "Upd i \<noteq> Del j"
begin

definition entries :: "'c list \<Rightarrow> 'c list" where
  "entries cs = filter (\<lambda>c. c \<in> range Ins \<union> range Upd \<union> range Del) cs"

definition wf :: "'c list \<Rightarrow> bool" where
  "wf cs \<longleftrightarrow> distinct (entries cs) \<and> reported Ins cs \<inter> reported Upd cs = {}"

lemma entries_simps [simp]:
  "entries [] = []" "entries (xs @ ys) = entries xs @ entries ys"
  "entries (Ins i # xs) = Ins i # entries xs" "entries (Upd i # xs) = Upd i # entries xs"
  "entries (Del i # xs) = Del i # entries xs"
  by (auto simp: entries_def)

lemma in_entries [simp]:
  "Ins i \<in> set (entries cs) \<longleftrightarrow> Ins i \<in> set cs" "Upd i \<in> set (entries cs) \<longleftrightarrow> Upd i \<in> set cs"
  "Del i \<in> set (entries cs) \<longleftrightarrow> Del i \<in> set cs"
  by (auto simp: entries_def)

lemmas kind_simps = inject kinds kinds [symmetric] reported_iff wf_def

lemma merge_update_law:
  assumes "wf cs"
  shows "wf (merge_update Ins Upd i cs) \<and> reported Ins (merge_update Ins Upd i cs) = reported Ins cs
    \<and> reported Upd (merge_update Ins Upd i cs)
      = (if i \<in> reported Ins cs then reported Upd cs else insert i (reported Upd cs))
    \<and> reported Del (merge_update Ins Upd i cs) = reported Del cs"
proof (cases rule: first_match_cases [of "Ins i" cs "Upd i"])
  case 1
  then have "merge_update Ins Upd i cs = cs @ [Upd i]" by (simp add: merge_update_def)
  with 1 assms show ?thesis by (auto simp: kind_simps)
next
  case (2 c xs ys)
  show ?thesis
  proof (cases "c = Ins i")
    case True
    then have "merge_update Ins Upd i cs = cs" using 2 by (simp add: merge_update_def)
    with 2 True assms show ?thesis by (auto simp: kind_simps)
  next
    case False
    with 2 have c: "c = Upd i" by simp
    then have "merge_update Ins Upd i cs = xs @ ys @ [Upd i]" using 2 by (simp add: merge_update_def kinds [symmetric])
    with 2 c assms show ?thesis by (auto simp: kind_simps)
  qed
qed

lemma merge_delete_law:
  assumes "wf cs" "i \<in> reported Ins cs \<or> i \<notin> reported Del cs"
  shows "wf (merge_delete Ins Upd Del i cs) \<and> reported Ins (merge_delete Ins Upd Del i cs) = reported Ins cs - {i}
    \<and> reported Upd (merge_delete Ins Upd Del i cs) = reported Upd cs - {i}
    \<and> reported Del (merge_delete Ins Upd Del i cs)
      = (if i \<in> reported Ins cs then reported Del cs else insert i (reported Del cs))"
proof (cases rule: first_match_cases [of "Ins i" cs "Upd i"])
  case 1
  then have "merge_delete Ins Upd Del i cs = cs @ [Del i]" by (simp add: merge_delete_def)
  with 1 assms show ?thesis by (auto simp: kind_simps)
next
  case (2 c xs ys)
  show ?thesis
  proof (cases "c = Ins i")
    case True
    then have "merge_delete Ins Upd Del i cs = xs @ ys" using 2 by (simp add: merge_delete_def)
    with 2 True assms show ?thesis by (auto simp: kind_simps)
  next
    case False
    with 2 have c: "c = Upd i" by simp
    then have "merge_delete Ins Upd Del i cs = xs @ ys @ [Del i]" using 2 by (simp add: merge_delete_def kinds [symmetric])
    with 2 c assms show ?thesis by (auto simp: kind_simps)
  qed
qed

end

sublocale object_changes \<subseteq> change_merge Ins Upd Del wf "\<lambda>i cs. cs @ [Ins i]"
  "merge_update Ins Upd" "merge_delete Ins Upd Del"
  by unfold_locales (use merge_update_law merge_delete_law in \<open>auto simp: kind_simps\<close>)

interpretation items: object_changes InsertItem UpdateItem DeleteItem
  by unfold_locales simp_all

interpretation containers: object_changes InsertContainer UpdateContainer DeleteContainer
  by unfold_locales simp_all

lemma item_steps:
  "item_insert_step i cs = cs @ [InsertItem i]" "item_update_step = merge_update InsertItem UpdateItem"
  "item_delete_step = merge_delete InsertItem UpdateItem DeleteItem"
  by (simp_all add: item_insert_step_def item_update_step_def item_delete_step_def merge_update_def
      merge_delete_def fun_eq_iff)

lemma container_steps:
  "container_insert_step i cs = cs @ [InsertContainer i]"
  "container_delete_step = merge_delete InsertContainer UpdateContainer DeleteContainer"
  by (simp_all add: container_insert_step_def container_delete_step_def merge_delete_def fun_eq_iff)

lemma container_update_step_plain:
  assumes "pos < unat n" "reported UpdateContainerProperty cs = {}"
  shows "container_update_step n pos i cs = merge_update InsertContainer UpdateContainer i cs"
proof -
  have "position (\<lambda>c. c \<in> {InsertContainer i, UpdateContainer i, UpdateContainerProperty i}) cs
      = position (\<lambda>c. c \<in> {InsertContainer i, UpdateContainer i}) cs"
    using assms(2) by (induction cs) (auto simp: reported_def)
  then show ?thesis unfolding container_update_step_def merge_update_def Let_def
    using assms(1) by (simp only:) (simp split: option.split)
qed

subsection \<open>Reading back an entry\<close>

lemma leb128_widen: "to_leb128_bytes (ucast (v :: u32) :: u64) = to_leb128_bytes v"
proof (induction v rule: to_leb128_bytes.induct)
  case (1 v)
  have u: "unat (ucast v :: u64) = unat v" by (rule unat_ucast_small) (use unat_less_exp [of v] in simp)
  have narrow: "(ucast (ucast w :: u64) :: u8) = ucast w" for w :: u32
    by (rule bit_word_eqI) (simp add: bit_simps)
  show ?case
  proof (cases "unat v < 0x80")
    case True
    then show ?thesis
      by (subst (1 2) to_leb128_bytes.simps) (simp add: u narrow)
  next
    case False
    have "(ucast v AND 0x7f :: u64) OR 0x80 = ucast ((v AND 0x7f) OR 0x80)" "drop_bit 7 (ucast v :: u64) = ucast (drop_bit 7 v)"
      by (rule bit_word_eqI, auto simp: bit_simps word_bits dest: bit_imp_le_length)+
    then show ?thesis using "1.IH" False
      by (subst (1 2) to_leb128_bytes.simps) (simp add: u narrow)
  qed
qed

fun run_ids :: "nat \<Rightarrow> (nat \<Rightarrow> 'i \<Rightarrow> 's \<Rightarrow> 's) \<Rightarrow> 'i list \<Rightarrow> 's \<Rightarrow> 's" where
  "run_ids pos step [] s = s"
| "run_ids pos step (i # is) s = run_ids (Suc pos) step is (step pos i s)"

lemma run_ids_fold: "run_ids pos (\<lambda>_. step) ids s = fold step ids s"
  by (induction ids arbitrary: pos s) auto

definition leb_ids :: "'a::len word list \<Rightarrow> bytes" where
  "leb_ids ids = concat (map to_leb128_bytes ids)"

lemma push_ids_bytes: "push_ids ids buf = buf @ leb_ids ids"
  by (induction ids arbitrary: buf) (simp_all add: push_ids_def leb_ids_def push_leb128_def)

lemma leb_ids_widen: "leb_ids (map ucast ids :: u64 list) = leb_ids (ids :: u32 list)"
  by (simp add: leb_ids_def leb128_widen comp_def)

lemma next_id_bytes: "next_id (to_leb128_bytes i @ rest) = (Some i, rest)"
  using slice_iter.next_u64 [of "to_leb128_bytes i @ rest" i rest] by (auto simp: next_id_def)

lemma for_ids_bytes:
  "for_ids pos (length ids) step s (leb_ids ids @ rest) = (Some (run_ids pos step ids s), rest)"
  by (induction ids arbitrary: pos s) (simp_all add: leb_ids_def it_bind_def next_id_bytes)

text \<open>The counts of an entry fit the machine word, as do their sums.\<close>

definition counts_fit :: "changes \<Rightarrow> bool" where
  "counts_fit c \<longleftrightarrow> card (item_inserts c) + card (item_updates c) + card (item_deletes c) < 2 ^ 64"

definition merge_containers :: "(u32 set \<Rightarrow> u32 list) \<Rightarrow> changes \<Rightarrow> change list \<Rightarrow> change list" where
  "merge_containers order32 c cs =
     fold container_delete_step (map ucast (order32 (container_deletes c)))
       (run_ids 0 (container_update_step (of_nat (card (container_updates c))))
         (map ucast (order32 (container_updates c) @ order32 (container_property_changes c)))
         (fold container_insert_step (map ucast (order32 (container_inserts c))) cs))"

definition merge_items :: "(u64 set \<Rightarrow> u64 list) \<Rightarrow> changes \<Rightarrow> change list \<Rightarrow> change list" where
  "merge_items order64 c cs =
     fold item_delete_step (order64 (item_deletes c))
       (fold item_update_step (order64 (item_updates c))
         (fold item_insert_step (order64 (item_inserts c)) cs))"

lemma card_u32: "card (s :: u32 set) \<le> 2 ^ 32"
  using card_mono [of UNIV s] by (simp add: card_word)

lemma container_counts:
  fixes a b :: "u32 set"
  shows "unat (of_nat (card a) :: u64) = card a"
    and "unat (of_nat (card a) + of_nat (card b) :: u64) = card a + card b"
    and "0 < (of_nat (card (container_inserts c)) + of_nat (card (container_updates c))
        + of_nat (card (container_property_changes c)) + of_nat (card (container_deletes c)) :: u64)
      \<longleftrightarrow> has_container_changes c"
proof -
  note bounds = card_u32 [of a] card_u32 [of b]
  have small: "unat (of_nat n :: u64) = n" if "n \<le> 2 ^ 34" for n
    using that by (intro unat_of_nat_small) simp
  show "unat (of_nat (card a) :: u64) = card a" using bounds by (intro small) simp
  show "unat (of_nat (card a) + of_nat (card b) :: u64) = card a + card b"
    using bounds small [of "card a + card b"] by simp
  let ?n = "card (container_inserts c) + card (container_updates c)
    + card (container_property_changes c) + card (container_deletes c)"
  have "unat (of_nat ?n :: u64) = ?n"
    using card_u32 [of "container_inserts c"] card_u32 [of "container_updates c"]
      card_u32 [of "container_property_changes c"] card_u32 [of "container_deletes c"] by (intro small) simp
  then show "0 < (of_nat (card (container_inserts c)) + of_nat (card (container_updates c))
        + of_nat (card (container_property_changes c)) + of_nat (card (container_deletes c)) :: u64)
      \<longleftrightarrow> has_container_changes c"
    by (auto simp: word_less_nat_alt card_gt_0_iff has_container_changes_def)
qed

lemma item_counts:
  assumes "counts_fit c"
  shows "unat (of_nat (card (item_inserts c)) :: u64) = card (item_inserts c)"
    and "unat (of_nat (card (item_updates c)) :: u64) = card (item_updates c)"
    and "unat (of_nat (card (item_deletes c)) :: u64) = card (item_deletes c)"
    and "0 < (of_nat (card (item_inserts c)) + of_nat (card (item_updates c)) + of_nat (card (item_deletes c)) :: u64)
      \<longleftrightarrow> has_item_changes c"
proof -
  have small: "unat (of_nat n :: u64) = n" if "n < 2 ^ 64" for n
    using that by (intro unat_of_nat_small) simp
  have "unat (of_nat (card (item_inserts c)) + of_nat (card (item_updates c)) + of_nat (card (item_deletes c)) :: u64)
      = card (item_inserts c) + card (item_updates c) + card (item_deletes c)"
    using assms small [of "card (item_inserts c) + card (item_updates c) + card (item_deletes c)"]
    by (simp add: counts_fit_def)
  then show "0 < (of_nat (card (item_inserts c)) + of_nat (card (item_updates c)) + of_nat (card (item_deletes c)) :: u64)
      \<longleftrightarrow> has_item_changes c"
    by (auto simp: word_less_nat_alt card_gt_0_iff has_item_changes_def)
qed (use assms in \<open>simp_all add: counts_fit_def unat_of_nat_small\<close>)

lemma deserialize_serialize:
  assumes "enumerates order32" "enumerates order64" "counts_fit c"
  shows "changes_deserialize cs (changes_serialize order32 order64 c)
    = (Some (merge_items order64 c (merge_containers order32 c cs), has_container_changes c, has_item_changes c), [])"
proof -
  note lens = order_facts(3) [OF assms(1)] order_facts(3) [OF assms(2)]
  let ?h = "\<lambda>s. to_leb128_bytes (of_nat (card s) :: u64)"
  have ser: "changes_serialize order32 order64 c =
      ?h (container_inserts c) @ ?h (container_updates c) @ ?h (container_property_changes c)
      @ ?h (container_deletes c) @ ?h (item_inserts c) @ ?h (item_updates c) @ ?h (item_deletes c)
      @ leb_ids (map ucast (order32 (container_inserts c)) :: u64 list)
      @ leb_ids (map ucast (order32 (container_updates c) @ order32 (container_property_changes c)) :: u64 list)
      @ leb_ids (map ucast (order32 (container_deletes c)) :: u64 list)
      @ leb_ids (order64 (item_inserts c)) @ leb_ids (order64 (item_updates c)) @ leb_ids (order64 (item_deletes c)) @ []"
    unfolding leb_ids_widen
    by (simp add: changes_serialize_def Let_def push_leb128_def push_ids_bytes leb_ids_def)
  have read: "for_ids 0 n step s (leb_ids ids @ rest) = (Some (run_ids 0 step ids s), rest)"
    if "n = length ids" for n step s ids rest using for_ids_bytes that by simp
  have read_last: "for_ids 0 n step s (leb_ids ids) = (Some (run_ids 0 step ids s), [])"
    if "n = length ids" for n step s ids using read [OF that, of step s "[]"] by simp
  show ?thesis
    unfolding ser changes_deserialize_def
    by (simp add: it_bind_def next_id_bytes read read_last lens container_counts item_counts [OF assms(3)]
        run_ids_fold merge_items_def merge_containers_def Let_def del: map_append)
qed

subsection \<open>Histories\<close>

text \<open>
  A batch records item events, container events and property changes of containers in the order in
  which they happen; the events of one kind are its part of the history.
\<close>

datatype log_event = LE_Item "u64 event" | LE_Container "u32 event" | LE_Property u32

fun changes_event :: "log_event \<Rightarrow> changes \<Rightarrow> changes" where
  "changes_event (LE_Item e) = changes_item_event e"
| "changes_event (LE_Container e) = changes_container_event e"
| "changes_event (LE_Property i) = changes_container_property_update i"

definition batch_changes :: "log_event list \<Rightarrow> changes" where
  "batch_changes evs = fold changes_event evs changes_default"

fun item_part :: "log_event list \<Rightarrow> u64 event list" where
  "item_part [] = []"
| "item_part (LE_Item e # evs) = e # item_part evs"
| "item_part (_ # evs) = item_part evs"

fun container_part :: "log_event list \<Rightarrow> u32 event list" where
  "container_part [] = []"
| "container_part (LE_Container e # evs) = e # container_part evs"
| "container_part (_ # evs) = container_part evs"

lemma item_part_append [simp]: "item_part (xs @ ys) = item_part xs @ item_part ys"
  by (induction xs rule: item_part.induct) auto

lemma container_part_append [simp]: "container_part (xs @ ys) = container_part xs @ container_part ys"
  by (induction xs rule: container_part.induct) auto

lemma batch_items_inv:
  assumes "evs_valid before (item_part evs)"
  shows "items_inv before (evs_apply (item_part evs) before) (batch_changes evs)"
  using assms
proof (induction evs rule: rev_induct)
  case Nil
  then show ?case by (simp add: batch_changes_def items_inv_def batch_inv_start changes_default_def)
next
  case (snoc e evs)
  then show ?case
    by (cases e) (auto simp: batch_changes_def evs_valid_append changes_events_independent
        intro!: changes_item_event_inv)
qed

lemma batch_containers_inv:
  assumes "evs_valid before (container_part evs)"
  shows "containers_inv before (evs_apply (container_part evs) before) (batch_changes evs)"
  using assms
proof (induction evs rule: rev_induct)
  case Nil
  then show ?case by (simp add: batch_changes_def containers_inv_def batch_inv_start changes_default_def)
next
  case (snoc e evs)
  then show ?case
    by (cases e) (auto simp: batch_changes_def evs_valid_append changes_events_independent
        intro!: changes_container_event_inv)
qed

lemmas changes_op_defs = changes_item_insert_def changes_item_update_def changes_item_delete_def
  changes_container_insert_def changes_container_update_def changes_container_delete_def
  changes_container_property_update_def

lemma batch_items_touched:
  "ev_id ` set (item_part evs)
   \<subseteq> item_inserts (batch_changes evs) \<union> item_updates (batch_changes evs) \<union> item_deletes (batch_changes evs)"
proof (induction evs rule: rev_induct)
  case (snoc e evs)
  then show ?case
    by (cases e; cases "case e of LE_Item f \<Rightarrow> f | _ \<Rightarrow> undefined"; cases "case e of LE_Container f \<Rightarrow> f | _ \<Rightarrow> undefined")
      (auto simp: batch_changes_def changes_op_defs)
qed simp

lemma batch_counts: "card (item_inserts (batch_changes evs)) + card (item_updates (batch_changes evs))
   + card (item_deletes (batch_changes evs)) \<le> length evs"
proof (induction evs rule: rev_induct)
  case Nil
  then show ?case by (simp add: batch_changes_def changes_default_def)
next
  case (snoc e evs)
  have ins: "card (insert i s) \<le> Suc (card s)" "i \<in> s \<Longrightarrow> Suc (card (s - {i})) = card s"
    "card (s - {i}) \<le> card s" for i and s :: "u64 set"
    using card_Suc_Diff1 [of s i] by (simp_all add: card_insert_if card_Diff1_le)
  let ?c = "batch_changes evs"
  have "batch_changes (evs @ [e]) = changes_event e ?c" by (simp add: batch_changes_def)
  then show ?case
  proof (cases e)
    case (LE_Item f)
    have snoc': "card (item_inserts ?c) + card (item_updates ?c) + card (item_deletes ?c) \<le> length evs"
      by (rule snoc)
    show ?thesis
    proof (cases f)
      case (Inserted i)
      with LE_Item snoc' ins(1) [of i "item_inserts ?c"] ins(1) [of i "item_updates ?c"]
        ins(2) [of i "item_deletes ?c"] show ?thesis
        by (auto simp: batch_changes_def changes_item_insert_def)
    next
      case (Updated i)
      with LE_Item snoc' ins(1) [of i "item_updates ?c"] show ?thesis by (simp add: batch_changes_def changes_item_update_def)
    next
      case (Deleted i)
      with LE_Item snoc' ins(3) [of "item_updates ?c" i] ins(1) [of i "item_deletes ?c"] show ?thesis by (simp add: batch_changes_def changes_item_delete_def)
    qed
  next
    case (LE_Container f)
    with snoc show ?thesis by (cases f) (simp_all add: batch_changes_def changes_op_defs)
  next
    case (LE_Property i)
    with snoc show ?thesis by (simp add: batch_changes_def changes_op_defs)
  qed
qed

lemma replay_valid:
  assumes "batch_inv before now ins upd del"
    and "set is = ins" "distinct is" "set us = upd" "set ds = del" "distinct ds"
  shows "evs_valid before (map Inserted is @ map Updated us @ map Deleted ds)
    \<and> evs_apply (map Inserted is @ map Updated us @ map Deleted ds) before = now"
proof -
  have i: "distinct is \<Longrightarrow> set is \<inter> S = {} \<Longrightarrow> evs_valid S (map Inserted is)"
    "evs_apply (map Inserted is) S = S \<union> set is" for S and "is" :: "'a list"
    by (induction "is" arbitrary: S) auto
  have u: "set us \<subseteq> S \<Longrightarrow> evs_valid S (map Updated us)" "evs_apply (map Updated us) S = S" for S and us :: "'a list"
    by (induction us) auto
  have d: "distinct ds \<Longrightarrow> set ds \<subseteq> S \<Longrightarrow> evs_valid S (map Deleted ds)"
    "evs_apply (map Deleted ds) S = S - set ds" for S and ds :: "'a list"
    by (induction ds arbitrary: S) (auto simp: subset_Diff_insert)
  show ?thesis using assms by (auto simp: evs_valid_append i u(2) d batch_inv_def intro!: u(1))
qed

subsection \<open>Merging a history of items\<close>

definition item_replay :: "(u64 set \<Rightarrow> u64 list) \<Rightarrow> changes \<Rightarrow> u64 event list" where
  "item_replay order64 c = map Inserted (order64 (item_inserts c)) @ map Updated (order64 (item_updates c))
     @ map Deleted (order64 (item_deletes c))"

lemma merge_items_replay: "merge_items order64 c = fold items.report_step (item_replay order64 c)"
  by (simp add: merge_items_def item_replay_def item_steps fold_map comp_def fun_eq_iff
      item_insert_step_def [abs_def])

lemma merge_items_net:
  assumes "items.net before now touched cs" "items_inv now now' c" "enumerates order64"
  shows "items.net before now' (touched \<union> (item_inserts c \<union> item_updates c \<union> item_deletes c)) (merge_items order64 c cs)"
proof -
  have "evs_valid now (item_replay order64 c) \<and> evs_apply (item_replay order64 c) now = now'"
    unfolding item_replay_def using assms(2) unfolding items_inv_def
    by (rule replay_valid) (simp_all add: order_facts [OF assms(3)])
  moreover have "ev_id ` set (item_replay order64 c) = item_inserts c \<union> item_updates c \<union> item_deletes c"
    by (simp add: item_replay_def image_Un image_image order_facts [OF assms(3)] Un_assoc)
  ultimately show ?thesis
    using items.report_net [OF assms(1), of "item_replay order64 c"] by (simp add: merge_items_replay)
qed

text \<open>Merging containers does not touch what is reported of items.\<close>

lemma filter_remove_nth:
  assumes "position P cs = Some idx" "\<not> Q (cs ! idx)"
  shows "filter Q (remove_nth idx cs) = filter Q cs"
proof -
  from position_split [OF assms(1)] obtain xs c ys where "cs = xs @ c # ys" "idx = length xs" by metis
  with assms(2) show ?thesis by (simp add: remove_nth_append)
qed

lemma container_steps_items:
  "filter is_item_change (container_insert_step i cs) = filter is_item_change cs"
  "filter is_item_change (container_update_step n pos i cs) = filter is_item_change cs"
  "filter is_item_change (container_delete_step i cs) = filter is_item_change cs"
proof -
  show "filter is_item_change (container_insert_step i cs) = filter is_item_change cs"
    by (simp add: container_insert_step_def)
  have "\<not> is_item_change (cs ! idx)"
    if "position (\<lambda>c. c \<in> {InsertContainer i, UpdateContainer i, UpdateContainerProperty i}) cs = Some idx" for idx
    using that by (auto simp: position_Some)
  then show "filter is_item_change (container_update_step n pos i cs) = filter is_item_change cs"
    by (auto simp: container_update_step_def Let_def filter_remove_nth split: option.split)
  have "\<not> is_item_change (cs ! idx)"
    if "position (\<lambda>c. c \<in> {InsertContainer i, UpdateContainer i}) cs = Some idx" for idx
    using that by (auto simp: position_Some)
  then show "filter is_item_change (container_delete_step i cs) = filter is_item_change cs"
    by (auto simp: container_delete_step_def filter_remove_nth split: option.split)
qed

lemma merge_containers_items: "filter is_item_change (merge_containers order32 c cs) = filter is_item_change cs"
proof -
  have f: "filter is_item_change (fold step ids cs) = filter is_item_change cs"
    if "\<And>i cs. filter is_item_change (step i cs) = filter is_item_change cs" for step ids cs
    using that by (induction ids arbitrary: cs) simp_all
  have g: "filter is_item_change (run_ids pos (container_update_step n) ids cs) = filter is_item_change cs" for pos n ids cs
    by (induction ids arbitrary: cs pos) (simp_all add: container_steps_items)
  show ?thesis by (simp add: merge_containers_def f g container_steps_items)
qed

lemma items_net_filter: "items.net before now touched (filter is_item_change cs) = items.net before now touched cs"
proof -
  have r: "reported C (filter is_item_change cs) = reported C cs" if "\<And>i. is_item_change (C i)" for C
    using that by (auto simp: reported_def)
  have "(\<lambda>c. c \<in> range InsertItem \<union> range UpdateItem \<union> range DeleteItem) = is_item_change"
    by (rule ext, case_tac c) auto
  then have e: "items.entries ds = filter is_item_change ds" for ds
    unfolding items.entries_def by simp
  show ?thesis by (simp add: items.net_def net_report_def items.wf_def r e)
qed

lemma merge_containers_items_net:
  "items.net before now touched (merge_containers order32 c cs) = items.net before now touched cs"
  by (metis items_net_filter merge_containers_items)

subsection \<open>Scans\<close>

lemma log_key_change_id:
  "deserialize_be_u64 (log_key_serialize k 0) (usize_len (log_key_serialize k 0) - U64_LEN) = Some (lk_change_id k)"
proof -
  let ?pre = "to_be_bytes (lk_account_id k) @ [lk_collection k]"
  have key: "log_key_serialize k 0 = ?pre @ to_be_bytes (lk_change_id k) @ []"
    by (simp add: log_key_serialize_def subspace_serializer_def ks_new_def)
  have "usize_len (log_key_serialize k 0) - U64_LEN = of_nat (length ?pre)"
    unfolding key usize_len_def len_defs by simp
  then show ?thesis unfolding key by (intro deserialize_be_middle) simp_all
qed

lemma iterate_log_range:
  assumes "lk_account_id lo = a" "lk_collection lo = c" "lk_account_id hi = a" "lk_collection hi = c"
  shows "iterate_log store lo hi = map (\<lambda>(k, v). (log_key_serialize k 0, v))
    (filter (\<lambda>(k, v). lk_account_id k = a \<and> lk_collection k = c
       \<and> lk_change_id lo \<le> lk_change_id k \<and> lk_change_id k \<le> lk_change_id hi) store)"
  using log_key_between [OF assms, of 0]
  by (induction store) (auto simp: iterate_log_def)

lemma changes_serialize_nonempty: "changes_serialize order32 order64 c \<noteq> []"
proof -
  have "push_leb128 buf v \<noteq> []" for buf and v :: u64
    by (simp add: push_leb128_def) (subst to_leb128_bytes.simps, simp)
  then show ?thesis by (simp add: changes_serialize_def Let_def push_ids_bytes)
qed

lemma changes_entry_merges:
  assumes "enumerates order32" "enumerates order64" "counts_fit c"
    and "is_inclusive \<or> lk_change_id k \<noteq> from_change_id"
  obtains log' where "changes_entry False is_inclusive from_change_id log
      (log_key_serialize k 0, changes_serialize order32 order64 c) = Some log'"
    "cr_changes log' = merge_items order64 c (merge_containers order32 c (cr_changes log))"
    "cr_to_change_id log' = lk_change_id k" "cr_is_truncated log' = cr_is_truncated log"
  using that assms(4)
  by (simp add: changes_entry_def log_key_change_id changes_serialize_nonempty
      deserialize_serialize [OF assms(1-3)] Let_def split: if_splits)

text \<open>The log of one account and collection: change ids with the events of their batches.\<close>

definition log_entries ::
  "(u32 set \<Rightarrow> u32 list) \<Rightarrow> (u64 set \<Rightarrow> u64 list) \<Rightarrow> u32 \<Rightarrow> u8 \<Rightarrow> (u64 \<times> log_event list) list \<Rightarrow> log_store" where
  "log_entries order32 order64 a c batches =
     map (\<lambda>(change_id, evs). (\<lparr>lk_account_id = a, lk_collection = c, lk_change_id = change_id\<rparr>,
       changes_serialize order32 order64 (batch_changes evs))) batches"

definition batch_events :: "(u64 \<times> log_event list) list \<Rightarrow> log_event list" where
  "batch_events batches = concat (map snd batches)"

lemma merge_batches:
  assumes "enumerates order32" "enumerates order64"
    and "\<forall>(i, evs) \<in> set batches. length evs < 2 ^ 64 \<and> i \<noteq> from_change_id"
    and "items.net before now touched (cr_changes log)" "evs_valid now (item_part (batch_events batches))"
  shows "\<exists>log'. iterate_fold (changes_entry False is_inclusive from_change_id) log
      (map (\<lambda>(k, v). (log_key_serialize k 0, v)) (log_entries order32 order64 a c batches)) = Some log'
    \<and> items.net before (evs_apply (item_part (batch_events batches)) now)
        (touched \<union> ev_id ` set (item_part (batch_events batches))) (cr_changes log')
    \<and> cr_is_truncated log' = cr_is_truncated log"
  using assms(3-)
proof (induction batches arbitrary: now touched log)
  case Nil
  then show ?case by (simp add: log_entries_def batch_events_def)
next
  case (Cons b batches)
  obtain i evs where b: "b = (i, evs)" by force
  let ?c = "batch_changes evs" and ?now = "evs_apply (item_part evs) now"
  have valid: "evs_valid now (item_part evs)" "evs_valid ?now (item_part (batch_events batches))"
    using Cons.prems(3) by (simp_all add: b batch_events_def evs_valid_append)
  have "counts_fit ?c"
    using batch_counts [of evs] Cons.prems(1) by (simp add: b counts_fit_def)
  moreover have "is_inclusive \<or> lk_change_id \<lparr>lk_account_id = a, lk_collection = c, lk_change_id = i\<rparr> \<noteq> from_change_id"
    using Cons.prems(1) by (simp add: b)
  ultimately obtain log1 where log1: "changes_entry False is_inclusive from_change_id log
      (log_key_serialize \<lparr>lk_account_id = a, lk_collection = c, lk_change_id = i\<rparr> 0,
       changes_serialize order32 order64 ?c) = Some log1"
    "cr_changes log1 = merge_items order64 ?c (merge_containers order32 ?c (cr_changes log))"
    "cr_is_truncated log1 = cr_is_truncated log"
    using changes_entry_merges [OF assms(1,2)] by metis
  have "items.net before ?now (touched \<union> (item_inserts ?c \<union> item_updates ?c \<union> item_deletes ?c)) (cr_changes log1)"
    unfolding log1(2) using Cons.prems(2) batch_items_inv [OF valid(1)] assms(2)
    by (intro merge_items_net) (simp_all add: merge_containers_items_net)
  then have "items.net before ?now (touched \<union> ev_id ` set (item_part evs)) (cr_changes log1)"
    using batch_items_touched [of evs] by (rule items.net_mono [OF _ Un_mono [OF subset_refl]])
  from Cons.IH [OF _ this valid(2)] Cons.prems(1) log1 show ?case
    by (simp add: b log_entries_def batch_events_def Un_assoc image_Un)
qed

lemma iterate_fold_append:
  "iterate_fold f s (es @ fs) = (case iterate_fold f s es of Some s' \<Rightarrow> iterate_fold f s' fs | None \<Rightarrow> None)"
  by (induction es arbitrary: s) (simp_all split: option.split)

lemma skip_entries:
  assumes "\<forall>(k, v) \<in> set es. lk_change_id k = since"
  shows "\<exists>log'. iterate_fold (changes_entry is_share False since) log
      (map (\<lambda>(k, v). (log_key_serialize k 0, v)) es) = Some log'
    \<and> cr_changes log' = cr_changes log \<and> cr_is_truncated log' = cr_is_truncated log"
  using assms
proof (induction es arbitrary: log)
  case (Cons e es)
  obtain k v where e: "e = (k, v)" by force
  let ?log = "log\<lparr>cr_from_change_id := lk_change_id k, cr_to_change_id := lk_change_id k\<rparr>"
  have "changes_entry is_share False since log (log_key_serialize k 0, v) = Some ?log"
    using Cons.prems by (simp add: e changes_entry_def log_key_change_id)
  with Cons.IH [of ?log] Cons.prems show ?case by (simp add: e)
qed simp

lemma since_entries:
  assumes "filter (\<lambda>(k, v). lk_account_id k = a \<and> lk_collection k = c) store = log_entries order32 order64 a c (old @ new)"
    and "\<forall>(i, evs) \<in> set old. i \<le> since" "\<forall>(i, evs) \<in> set new. since < i"
  shows "\<exists>skipped. (\<forall>(k, v) \<in> set skipped. lk_change_id k = since)
    \<and> iterate_log store \<lparr>lk_account_id = a, lk_collection = c, lk_change_id = since\<rparr>
        \<lparr>lk_account_id = a, lk_collection = c, lk_change_id = 0xFFFFFFFFFFFFFFFF\<rparr>
      = map (\<lambda>(k, v). (log_key_serialize k 0, v)) (skipped @ log_entries order32 order64 a c new)"
proof -
  let ?after = "filter (\<lambda>(k :: log_key, v :: bytes). since \<le> lk_change_id k)"
  have max: "(i :: u64) \<le> 0xFFFFFFFFFFFFFFFF" for i
    unfolding word_le_nat_alt using unat_u64_less [of i] by simp
  have "filter (\<lambda>(k, v). lk_account_id k = a \<and> lk_collection k = c \<and> since \<le> lk_change_id k
        \<and> lk_change_id k \<le> 0xFFFFFFFFFFFFFFFF) store
      = ?after (filter (\<lambda>(k, v). lk_account_id k = a \<and> lk_collection k = c) store)"
    by (induction store) (auto simp: max)
  also have "\<dots> = ?after (log_entries order32 order64 a c old) @ log_entries order32 order64 a c new"
  proof -
    have "since \<le> i" if "(i, evs) \<in> set new" for i evs
      using assms(3) that by (auto intro: less_imp_le)
    then show ?thesis unfolding assms(1) by (auto simp: log_entries_def intro!: filter_True)
  qed
  finally have "iterate_log store \<lparr>lk_account_id = a, lk_collection = c, lk_change_id = since\<rparr>
        \<lparr>lk_account_id = a, lk_collection = c, lk_change_id = 0xFFFFFFFFFFFFFFFF\<rparr>
      = map (\<lambda>(k, v). (log_key_serialize k 0, v))
          (?after (log_entries order32 order64 a c old) @ log_entries order32 order64 a c new)"
    by (subst iterate_log_range [where a = a and c = c]) simp_all
  moreover have "\<forall>(k, v) \<in> set (?after (log_entries order32 order64 a c old)). lk_change_id k = since"
    using assms(2) by (force simp: log_entries_def)
  ultimately show ?thesis by blast
qed

lemma since_report:
  assumes order: "enumerates order32" "enumerates order64"
    and coll: "collection \<noteq> LC_Sync Sync_ShareNotification"
    and log: "filter (\<lambda>(k, v). lk_account_id k = a \<and> lk_collection k = log_collection_u8 collection) store
        = log_entries order32 order64 a (log_collection_u8 collection) (old @ new)"
    and ids: "\<forall>(i, evs) \<in> set old. i \<le> since" "\<forall>(i, evs) \<in> set new. since < i \<and> length evs < 2 ^ 64"
    and history: "evs_valid S0 (item_part (batch_events (old @ new)))"
  shows "\<exists>report. store_changes store a collection (Q_Since since) = Some report \<and> \<not> cr_is_truncated report
    \<and> net_report InsertItem UpdateItem DeleteItem
        (evs_apply (item_part (batch_events old)) S0)
        (evs_apply (item_part (batch_events (old @ new))) S0)
        (ev_id ` set (item_part (batch_events new))) (cr_changes report)"
proof -
  let ?c = "log_collection_u8 collection" and ?S = "evs_apply (item_part (batch_events old)) S0"
  have new: "\<forall>(i, evs) \<in> set new. since < i" "\<forall>(i, evs) \<in> set new. length evs < 2 ^ 64 \<and> i \<noteq> since"
    using ids(2) by auto
  obtain skipped where skip: "\<forall>(k, v) \<in> set skipped. lk_change_id k = since"
    and scan: "iterate_log store \<lparr>lk_account_id = a, lk_collection = ?c, lk_change_id = since\<rparr>
        \<lparr>lk_account_id = a, lk_collection = ?c, lk_change_id = 0xFFFFFFFFFFFFFFFF\<rparr>
      = map (\<lambda>(k, v). (log_key_serialize k 0, v)) (skipped @ log_entries order32 order64 a ?c new)"
    using since_entries [OF log ids(1) new(1)] by blast
  obtain log0 where log0: "iterate_fold (changes_entry False False since) change_report_default
      (map (\<lambda>(k, v). (log_key_serialize k 0, v)) skipped) = Some log0" "cr_changes log0 = []" "\<not> cr_is_truncated log0"
    using skip_entries [OF skip, of False change_report_default] by (auto simp: change_report_default_def)
  have "items.net ?S ?S {} (cr_changes log0)" by (simp add: log0 items.net_Nil)
  moreover have "evs_valid ?S (item_part (batch_events new))"
    using history by (simp add: batch_events_def evs_valid_append)
  ultimately obtain report where
    "iterate_fold (changes_entry False False since) log0
      (map (\<lambda>(k, v). (log_key_serialize k 0, v)) (log_entries order32 order64 a ?c new)) = Some report"
    "items.net ?S (evs_apply (item_part (batch_events new)) ?S) (ev_id ` set (item_part (batch_events new)))
      (cr_changes report)" "\<not> cr_is_truncated report"
    using merge_batches [OF order new(2), of ?S ?S "{}" log0 False a ?c] log0(3) by auto
  then show ?thesis
    using coll log0(1) by (simp add: store_changes_def scan iterate_fold_append items.net_def batch_events_def)
qed

subsection \<open>Properties\<close>

text \<open>
  C11: what a client learns of items from the log is the truth. Whatever inserts, updates and deletes
  of items the batches of an account and collection record, in whatever order the hash sets iterate
  and whatever else the log holds, asking for the changes since a change id succeeds, is not
  truncated, and reports the net effect of the later batches: deleting the items reported as deleted
  and then adding those reported as inserted turns the items of that moment into the present ones,
  an item that was there is reported as inserted only after being reported as deleted, an updated
  item was there and is reported once, and no touched item that is there is missing.
\<close>

theorem item_changes_are_net_effect:
  assumes order: "enumerates order32" "enumerates order64"
    and coll: "collection \<noteq> LC_Sync Sync_ShareNotification"
    and log: "filter (\<lambda>(k, v). lk_account_id k = a \<and> lk_collection k = log_collection_u8 collection) store
        = log_entries order32 order64 a (log_collection_u8 collection) (old @ new)"
    and ids: "\<forall>(i, evs) \<in> set old. i \<le> since" "\<forall>(i, evs) \<in> set new. since < i \<and> length evs < 2 ^ 64"
    and history: "evs_valid S0 (item_part (batch_events (old @ new)))"
  shows "\<exists>report. store_changes store a collection (Q_Since since) = Some report \<and> \<not> cr_is_truncated report
    \<and> net_report InsertItem UpdateItem DeleteItem
        (evs_apply (item_part (batch_events old)) S0)
        (evs_apply (item_part (batch_events (old @ new))) S0)
        (ev_id ` set (item_part (batch_events new))) (cr_changes report)"
  using assms by (rule since_report)

theorem item_changes_are_net_effect_witness:
  "let order32 = sorted_list_of_set; order64 = sorted_list_of_set;
       new = [(5, [LE_Item (Inserted 1), LE_Item (Inserted 2)]), (7, [LE_Item (Deleted 1), LE_Item (Updated 2)])]
   in \<exists>report. store_changes (log_entries order32 order64 9 (log_collection_u8 (LC_Sync Sync_Email)) new) 9
        (LC_Sync Sync_Email) (Q_Since 4) = Some report \<and> \<not> cr_is_truncated report
      \<and> net_report InsertItem UpdateItem DeleteItem {} {2} {1, 2} (cr_changes report)"
proof -
  let ?new = "[(5, [LE_Item (Inserted 1), LE_Item (Inserted 2)]), (7, [LE_Item (Deleted 1), LE_Item (Updated 2)])]"
  let ?c = "log_collection_u8 (LC_Sync Sync_Email)"
  have "filter (\<lambda>(k, v). lk_account_id k = 9 \<and> lk_collection k = ?c)
      (log_entries sorted_list_of_set sorted_list_of_set 9 ?c ?new)
      = log_entries sorted_list_of_set sorted_list_of_set 9 ?c ([] @ ?new)"
    by (simp add: log_entries_def)
  from item_changes_are_net_effect [OF enumerates_sorted enumerates_sorted _ this, of 4 "{}"]
  show ?thesis by (simp add: batch_events_def insert_commute)
qed



subsection \<open>Vanished items\<close>

lemma vanished_items_read:
  assumes "\<And>x rest. x \<in> set xs \<Longrightarrow> rd (enc x @ rest) = (Some x, rest)" "\<And>x. x \<in> set xs \<Longrightarrow> enc x \<noteq> []"
    and "length (concat (map enc xs)) \<le> fuel"
  shows "vanished_items fuel rd acc (concat (map enc xs)) = Some (acc @ xs)"
  using assms
proof (induction xs arbitrary: fuel acc)
  case (Cons x xs)
  obtain b bs where x: "enc x = b # bs" using Cons.prems(2) [of x] by (cases "enc x") auto
  then obtain n where n: "fuel = Suc n" using Cons.prems(3) by (cases fuel) auto
  have "rd (b # bs @ concat (map enc xs)) = (Some x, concat (map enc xs))"
    using Cons.prems(1) [of x "concat (map enc xs)"] x by simp
  with Cons.IH [of n "acc @ [x]"] Cons.prems show ?case by (simp add: x n)
qed simp

lemma vanished_serialize_concat: "vanished_serialize items = concat (map (\<lambda>item. vanished_write [] item) items)"
proof -
  have "vanished_write buf item = buf @ vanished_write [] item" for buf item by (cases item) simp_all
  then have "foldl vanished_write buf items = buf @ concat (map (\<lambda>item. vanished_write [] item) items)" for buf
    by (induction items arbitrary: buf) (simp, metis append.assoc concat.simps(2) foldl_Cons list.simps(9))
  then show ?thesis by (simp add: vanished_serialize_def ks_new_def)
qed

lemma next_be: "next_n slice_next 8 (to_be_bytes (w8 :: u64) @ rest) = (Some (to_be_bytes w8), rest)"
  "next_n slice_next 4 (to_be_bytes (w4 :: u32) @ rest) = (Some (to_be_bytes w4), rest)"
  using slice_iter.next_n_append [of "to_be_bytes w8 @ rest" "to_be_bytes w8" rest]
    slice_iter.next_n_append [of "to_be_bytes w4 @ rest" "to_be_bytes w4" rest] by auto

lemma vanished_name_loop_read: "0 \<notin> set name \<Longrightarrow> vanished_name_loop acc (name @ 0 # rest) = (Some (acc @ name), rest)"
  by (induction name arbitrary: acc) auto

text \<open>
  C32: items logged as vanished are read back in the order in which they were logged: identifiers
  as identifiers, pairs of a mailbox and a message number as pairs although they are stored as one
  identifier, and names, which are ended by a zero byte, when they are UTF-8 without a zero byte.
\<close>

theorem vanished_items_roundtrip:
  "let written = (\<lambda>items. vanished_serialize items);
       ids' = map VI_Id ids; pairs' = map (\<lambda>(a, b). vanished_from_pair a b) pairs; names' = map VI_Name names
   in vanished_items (length (written ids')) vanished_u64 [] (written ids') = Some ids
    \<and> vanished_items (length (written pairs')) vanished_pair [] (written pairs') = Some pairs
    \<and> ((\<forall>name \<in> set names. utf8_valid name \<and> 0 \<notin> set name) \<longrightarrow>
         vanished_items (length (written names')) vanished_name [] (written names') = Some names)"
proof -
  have ne: "to_be_bytes (w :: u64) \<noteq> []" for w by (metis be_length(3) list.size(3) zero_neq_numeral)
  have "vanished_items (length (vanished_serialize (map VI_Id ids))) vanished_u64 [] (vanished_serialize (map VI_Id ids))
      = Some ids"
    using vanished_items_read [of ids vanished_u64 "to_be_bytes" _ "[]"]
    by (simp add: vanished_serialize_concat comp_def vanished_u64_def it_bind_def next_be ne)
  moreover have "vanished_items (length (concat (map (\<lambda>p. to_be_bytes (fst p) @ to_be_bytes (snd p)) pairs))) vanished_pair []
      (concat (map (\<lambda>p. to_be_bytes (fst p) @ to_be_bytes (snd p)) pairs)) = Some pairs"
    using vanished_items_read [of pairs vanished_pair "\<lambda>p. to_be_bytes (fst p) @ to_be_bytes (snd p)" _ "[]"]
    by (force simp: vanished_pair_def it_bind_def next_be dest: arg_cong [where f = length])
  moreover have "vanished_items (length (concat (map (\<lambda>name. name @ [0]) names))) vanished_name []
      (concat (map (\<lambda>name. name @ [0]) names)) = Some names"
    if "\<forall>name \<in> set names. utf8_valid name \<and> 0 \<notin> set name"
    using vanished_items_read [of names vanished_name "\<lambda>name. name @ [0]" _ "[]"] that
    by (simp add: vanished_name_def it_bind_def vanished_name_loop_read)
  ultimately show ?thesis
    by (simp add: Let_def vanished_serialize_concat comp_def vanished_from_pair_def pair_be case_prod_beta)
qed

theorem vanished_items_roundtrip_witness:
  "vanished_items (length (vanished_serialize [VI_Name [0x61], VI_Name []])) vanished_name []
     (vanished_serialize [VI_Name [0x61], VI_Name []]) = Some [[0x61], []]"
  using vanished_items_roundtrip [of "[]" "[]" "[[0x61], []]"] by (simp add: Let_def)

end
