(* ===== verification/Archive.thy ===== *)
theory Archive
  imports CheekyHash
begin

text \<open>
  The frame in which objects are stored (\<open>crates/store/src/write/serialize.rs\<close>) and the assertions
  that a write makes about the value it replaces (\<open>crates/store/src/write/assert.rs\<close>). A frame is
  the serialised object, possibly compressed, followed by a hash of it, the change id that wrote it
  and a marker byte. The hash function and the LZ4 library are fields of an environment record; what
  the code relies on of them is the hypothesis \<open>codec_ok\<close>.
\<close>

subsection \<open>Data\<close>

datatype archive_version = Versioned u64 u32 | Hashed u32 | Unversioned

datatype aligned_bytes = AB_Aligned bytes | AB_Vec bytes

record archive =
  ar_inner :: aligned_bytes
  ar_version :: archive_version

definition MAGIC_MARKER :: u8 where "MAGIC_MARKER = push_bit 7 1"
definition VERSIONED :: u8 where "VERSIONED = push_bit 6 1"
definition HASHED :: u8 where "HASHED = push_bit 5 1"
definition LZ4_COMPRESSED :: u8 where "LZ4_COMPRESSED = push_bit 4 1"
definition COMPRESS_WATERMARK :: nat where "COMPRESS_WATERMARK = 8192"

fun version_hash :: "archive_version \<Rightarrow> u32 option" where
  "version_hash (Versioned _ hash) = Some hash"
| "version_hash (Hashed hash) = Some hash"
| "version_hash Unversioned = None"

fun version_change_id :: "archive_version \<Rightarrow> u64 option" where
  "version_change_id (Versioned change_id _) = Some change_id"
| "version_change_id _ = None"

text \<open>
  \<open>ce_compress_into\<close> writes the compressed input to the front of the buffer and returns the buffer
  and the number of bytes written; \<open>ce_uncompressed_size\<close> splits off the stored size.
\<close>

record codec_env =
  ce_xxh3_64 :: "bytes \<Rightarrow> u64"
  ce_max_output_size :: "nat \<Rightarrow> nat"
  ce_compress_into :: "bytes \<Rightarrow> bytes \<Rightarrow> (bytes \<times> nat) option"
  ce_uncompressed_size :: "bytes \<Rightarrow> (nat \<times> bytes) option"
  ce_decompress_into :: "bytes \<Rightarrow> nat \<Rightarrow> bytes option"

definition to_le_bytes :: "'a::len word \<Rightarrow> bytes" where
  "to_le_bytes w = rev (to_be_bytes w)"

definition codec_ok :: "codec_env \<Rightarrow> bool" where
  "codec_ok env \<longleftrightarrow>
     (\<forall>input buf. ce_max_output_size env (length input) \<le> length buf \<longrightarrow>
        (\<exists>out. ce_compress_into env input buf = Some (out @ drop (length out) buf, length out)
           \<and> length out \<le> ce_max_output_size env (length input) \<and> ce_decompress_into env out (length input) = Some input))
     \<and> (\<forall>n rest. ce_uncompressed_size env (to_le_bytes (n :: u32) @ rest) = Some (unat n, rest))"

definition hash32 :: "codec_env \<Rightarrow> bytes \<Rightarrow> u32" where
  "hash32 env bs = ucast (ce_xxh3_64 env bs)"

subsection \<open>Reading\<close>

text \<open>\<open>split_at_checked(len - n)\<close>: the difference wraps when there are fewer than \<open>n\<close> bytes, and the split fails.\<close>

definition split_tail :: "nat \<Rightarrow> bytes \<Rightarrow> (bytes \<times> bytes) option" where
  "split_tail n bs =
     (if n \<le> length bs then Some (take (length bs - n) bs, drop (length bs - n) bs) else None)"

definition validate_marker_and_contents :: "codec_env \<Rightarrow> bytes \<Rightarrow> (bool \<times> bytes \<times> archive_version) option" where
  "validate_marker_and_contents env bs =
     (if bs = [] then None
      else let marker = last bs; contents = butlast bs in
        if marker AND MAGIC_MARKER = 0 then None
        else let is_uncompressed = (marker AND LZ4_COMPRESSED = 0) in
          if marker AND VERSIONED \<noteq> 0
          then do {
            (contents, change_id) \<leftarrow> split_tail 8 contents;
            (contents, archive_hash) \<leftarrow> split_tail 4 contents;
            let hash = hash32 env contents in
            if to_be_bytes hash = archive_hash
            then Some (is_uncompressed, contents, Versioned (from_be_bytes change_id) hash) else None
          }
          else if marker AND HASHED \<noteq> 0
          then do {
            (contents, archive_hash) \<leftarrow> split_tail 4 contents;
            let hash = hash32 env contents in
            if to_be_bytes hash = archive_hash
            then Some (is_uncompressed, contents, Hashed hash) else None
          }
          else Some (is_uncompressed, contents, Unversioned))"

definition aligned_lz4_deflate :: "codec_env \<Rightarrow> bytes \<Rightarrow> aligned_bytes option" where
  "aligned_lz4_deflate env archive =
     do {
       (uncompressed_size, archive) \<leftarrow> ce_uncompressed_size env archive;
       map_option AB_Aligned (ce_decompress_into env archive uncompressed_size)
     }"

definition archive_deserialize :: "codec_env \<Rightarrow> bytes \<Rightarrow> archive option" where
  "archive_deserialize env bs =
     do {
       (is_uncompressed, contents, version) \<leftarrow> validate_marker_and_contents env bs;
       if is_uncompressed then Some \<lparr>ar_inner = AB_Aligned contents, ar_version = version\<rparr>
       else map_option (\<lambda>inner. \<lparr>ar_inner = inner, ar_version = version\<rparr>) (aligned_lz4_deflate env contents)
     }"

text \<open>The owned version reuses the vector when its address is aligned, which is an argument.\<close>

definition archive_deserialize_owned :: "codec_env \<Rightarrow> bool \<Rightarrow> bytes \<Rightarrow> archive option" where
  "archive_deserialize_owned env is_aligned bs =
     do {
       (is_uncompressed, contents, version) \<leftarrow> validate_marker_and_contents env bs;
       if is_uncompressed
       then let bs = take (length contents) bs in
         if is_aligned then Some \<lparr>ar_inner = AB_Vec bs, ar_version = version\<rparr>
         else Some \<lparr>ar_inner = AB_Aligned bs, ar_version = version\<rparr>
       else map_option (\<lambda>inner. \<lparr>ar_inner = inner, ar_version = version\<rparr>) (aligned_lz4_deflate env contents)
     }"

fun ab_bytes :: "aligned_bytes \<Rightarrow> bytes" where
  "ab_bytes (AB_Aligned bs) = bs"
| "ab_bytes (AB_Vec bs) = bs"

definition archive_as_bytes :: "archive \<Rightarrow> bytes" where
  "archive_as_bytes a = ab_bytes (ar_inner a)"

definition extract_hash :: "bytes \<Rightarrow> u32 option" where
  "extract_hash bs =
     (if bs = [] then None
      else let marker = last bs; len = usize_len bs in
        if marker AND VERSIONED \<noteq> 0
        then map_option from_be_bytes (get_range bs (len - U32_LEN - U64_LEN - 1) (len - U64_LEN - 1))
        else if marker AND HASHED \<noteq> 0
        then map_option from_be_bytes (get_range bs (len - U32_LEN - 1) (len - 1))
        else None)"

subsection \<open>Writing\<close>

definition archiver_new_flags :: u8 where
  "archiver_new_flags = MAGIC_MARKER OR HASHED"

definition archiver_with_version :: "u8 \<Rightarrow> u8" where
  "archiver_with_version flags = flags OR VERSIONED"

definition archiver_untrusted :: "u8 \<Rightarrow> u8" where
  "archiver_untrusted flags = MAGIC_MARKER"

definition plain_frame :: "codec_env \<Rightarrow> u8 \<Rightarrow> bytes \<Rightarrow> bytes" where
  "plain_frame env flags input =
     input
     @ (if flags AND HASHED \<noteq> 0 then to_be_bytes (hash32 env input) else [])
     @ (if flags AND VERSIONED \<noteq> 0 then to_be_bytes (0 :: u64) else [])
     @ [flags]"

text \<open>
  The serialiser, on the bytes that \<open>rkyv::to_bytes\<close> produced. \<open>None\<close> is the panic of
  \<open>unwrap\<close> when the compressor refuses its buffer.
\<close>

definition archiver_serialize :: "codec_env \<Rightarrow> u8 \<Rightarrow> bytes \<Rightarrow> bytes option" where
  "archiver_serialize env flags input =
     (let input_len = length input;
          version_offset = (if flags AND VERSIONED \<noteq> 0 then 8 else 0)
      in if input_len > COMPRESS_WATERMARK
         then let bs = replicate (ce_max_output_size env input_len + 4 * 2 + version_offset + 1) (flags OR LZ4_COMPRESSED)
              in case ce_compress_into env input (drop 4 bs) of
                   None \<Rightarrow> None
                 | Some (out, compressed_len) \<Rightarrow>
                     let bs = take 4 bs @ out in
                     if compressed_len < input_len
                     then let bs = copy_at 0 (to_le_bytes (of_nat input_len :: u32)) bs
                          in if flags AND HASHED \<noteq> 0
                             then let hash = hash32 env (take (compressed_len + 4) bs);
                                      bs = copy_at (compressed_len + 4) (to_be_bytes hash) bs
                                  in Some (take (compressed_len + 4 * 2 + version_offset + 1) bs)
                             else Some (take (compressed_len + 4 + 1) bs)
                     else Some (plain_frame env flags input)
         else Some (plain_frame env flags input))"

text \<open>The serialised frame with the position of the change id, which a write fills in when it commits.\<close>

definition serialize_versioned :: "codec_env \<Rightarrow> u8 \<Rightarrow> bytes \<Rightarrow> (u64 \<times> bytes) option" where
  "serialize_versioned env flags input =
     map_option (\<lambda>bs. (usize_len bs - U64_LEN - 1, bs)) (archiver_serialize env (archiver_with_version flags) input)"

definition set_version :: "bytes \<Rightarrow> u64 \<Rightarrow> u64 \<Rightarrow> bytes option" where
  "set_version archive offset change_id =
     (if unat offset \<le> length archive \<and> archive \<noteq> []
      then Some (take (unat offset) archive @ to_be_bytes change_id @ [last archive]) else None)"

definition archive_into_inner :: "archive \<Rightarrow> bytes" where
  "archive_into_inner a =
     (let bs = ab_bytes (ar_inner a) in
      case ar_version a of
        Versioned change_id hash \<Rightarrow>
          bs @ to_be_bytes change_id @ to_be_bytes hash @ [MAGIC_MARKER OR VERSIONED OR HASHED]
      | Hashed hash \<Rightarrow> bs @ to_be_bytes hash @ [MAGIC_MARKER OR HASHED]
      | Unversioned \<Rightarrow> bs @ [MAGIC_MARKER])"

subsection \<open>Assertions\<close>

datatype assert_value = AV_U32 u32 | AV_U64 u64 | AV_Archive archive_version | AV_Some | AV_None

fun assert_matches :: "assert_value \<Rightarrow> bytes \<Rightarrow> bool" where
  "assert_matches (AV_U32 v) bs =
     (get_range bs (usize_len bs - U32_LEN) (usize_len bs) = Some (to_be_bytes v))"
| "assert_matches (AV_U64 v) bs =
     (get_range bs (usize_len bs - U64_LEN) (usize_len bs) = Some (to_be_bytes v))"
| "assert_matches (AV_Archive (Versioned _ hash)) bs =
     (get_range bs (usize_len bs - U32_LEN - U64_LEN - 1) (usize_len bs - U64_LEN - 1) = Some (to_be_bytes hash))"
| "assert_matches (AV_Archive (Hashed hash)) bs =
     (get_range bs (usize_len bs - U32_LEN - 1) (usize_len bs - 1) = Some (to_be_bytes hash))"
| "assert_matches (AV_Archive Unversioned) bs = False"
| "assert_matches AV_None bs = False"
| "assert_matches AV_Some bs = True"

definition assert_is_none :: "assert_value \<Rightarrow> bool" where
  "assert_is_none v \<longleftrightarrow> v = AV_None"

subsection \<open>Frames\<close>

text \<open>The shape of every frame: a body, its hash, the change id and the marker.\<close>

fun frame :: "bytes \<Rightarrow> archive_version \<Rightarrow> u8 \<Rightarrow> bytes" where
  "frame body (Versioned change_id hash) marker = body @ to_be_bytes hash @ to_be_bytes change_id @ [marker]"
| "frame body (Hashed hash) marker = body @ to_be_bytes hash @ [marker]"
| "frame body Unversioned marker = body @ [marker]"

fun marker_fits :: "u8 \<Rightarrow> archive_version \<Rightarrow> bool" where
  "marker_fits m (Versioned _ _) = (m AND MAGIC_MARKER \<noteq> 0 \<and> m AND VERSIONED \<noteq> 0)"
| "marker_fits m (Hashed _) = (m AND MAGIC_MARKER \<noteq> 0 \<and> m AND VERSIONED = 0 \<and> m AND HASHED \<noteq> 0)"
| "marker_fits m Unversioned = (m AND MAGIC_MARKER \<noteq> 0 \<and> m AND VERSIONED = 0 \<and> m AND HASHED = 0)"

lemma split_tail_append: "length ys = n \<Longrightarrow> split_tail n (xs @ ys) = Some (xs, ys)"
  by (simp add: split_tail_def)

lemma validate_frame:
  assumes "marker_fits m v" "\<forall>h. version_hash v = Some h \<longrightarrow> h = hash32 env body"
  shows "validate_marker_and_contents env (frame body v m) = Some (m AND LZ4_COMPRESSED = 0, body, v)"
proof (cases v)
  case (Versioned change_id h)
  have "split_tail 8 ((body @ to_be_bytes h) @ to_be_bytes change_id) = Some (body @ to_be_bytes h, to_be_bytes change_id)"
    "split_tail 4 (body @ to_be_bytes h) = Some (body, to_be_bytes h)" by (rule split_tail_append, simp)+
  with assms Versioned show ?thesis
    by (simp add: validate_marker_and_contents_def Let_def butlast_append flip: append_assoc)
next
  case (Hashed h)
  with assms show ?thesis
    by (simp add: validate_marker_and_contents_def Let_def butlast_append split_tail_append)
next
  case Unversioned
  with assms show ?thesis by (simp add: validate_marker_and_contents_def Let_def)
qed

lemma frame_ranges:
  assumes "length body < 2 ^ 32" and bs: "bs = frame body v m"
  shows "\<lbrakk>v = Versioned c h\<rbrakk> \<Longrightarrow>
      get_range bs (usize_len bs - U32_LEN - U64_LEN - 1) (usize_len bs - U64_LEN - 1) = Some (to_be_bytes h)"
    and "\<lbrakk>v = Hashed h\<rbrakk> \<Longrightarrow> get_range bs (usize_len bs - U32_LEN - 1) (usize_len bs - 1) = Some (to_be_bytes h)"
proof -
  assume v: "v = Versioned c h"
  have "usize_len bs - U32_LEN - U64_LEN - 1 = of_nat (length body)"
    "usize_len bs - U64_LEN - 1 = of_nat (length (body @ to_be_bytes h))"
    by (simp_all add: usize_len_def len_defs bs v)
  then show "get_range bs (usize_len bs - U32_LEN - U64_LEN - 1) (usize_len bs - U64_LEN - 1) = Some (to_be_bytes h)"
    unfolding bs v frame.simps using assms(1) by (intro get_range_middle) simp_all
next
  assume v: "v = Hashed h"
  have "usize_len bs - U32_LEN - 1 = of_nat (length body)"
    "usize_len bs - 1 = of_nat (length (body @ to_be_bytes h))"
    by (simp_all add: usize_len_def len_defs bs v)
  then show "get_range bs (usize_len bs - U32_LEN - 1) (usize_len bs - 1) = Some (to_be_bytes h)"
    unfolding bs v frame.simps using assms(1) by (intro get_range_middle) simp_all
qed

lemma frame_hash:
  assumes "length body < 2 ^ 32" "marker_fits m v"
  shows "extract_hash (frame body v m) = version_hash v"
    and "v \<noteq> Unversioned \<Longrightarrow> assert_matches (AV_Archive v) (frame body v m)"
proof -
  note ranges = frame_ranges [OF assms(1) refl, where v = v and m = m]
  have last: "last (frame body v m) = m" "frame body v m \<noteq> []" by (cases v; simp)+
  show "extract_hash (frame body v m) = version_hash v"
    using ranges assms(2) last by (cases v) (simp_all add: extract_hash_def Let_def)
  show "v \<noteq> Unversioned \<Longrightarrow> assert_matches (AV_Archive v) (frame body v m)"
    using ranges by (cases v) simp_all
qed

text \<open>What is read back from a frame whose body holds the object.\<close>

definition body_of :: "codec_env \<Rightarrow> u8 \<Rightarrow> bytes \<Rightarrow> bytes \<Rightarrow> bool" where
  "body_of env m input body \<longleftrightarrow>
     (if m AND LZ4_COMPRESSED = 0 then body = input else aligned_lz4_deflate env body = Some (AB_Aligned input))"

lemma read_frame:
  assumes "marker_fits m v" "\<forall>h. version_hash v = Some h \<longrightarrow> h = hash32 env body" "body_of env m input body"
  shows "\<exists>a. archive_deserialize env (frame body v m) = Some a \<and> archive_as_bytes a = input \<and> ar_version a = v"
    and "\<exists>a. archive_deserialize_owned env is_aligned (frame body v m) = Some a \<and> archive_as_bytes a = input \<and> ar_version a = v"
proof -
  note val = validate_frame [OF assms(1,2)]
  have "take (length body) (frame body v m) = body" by (cases v) simp_all
  with val assms(3)
  show "\<exists>a. archive_deserialize env (frame body v m) = Some a \<and> archive_as_bytes a = input \<and> ar_version a = v"
    "\<exists>a. archive_deserialize_owned env is_aligned (frame body v m) = Some a \<and> archive_as_bytes a = input \<and> ar_version a = v"
    by (auto simp: archive_deserialize_def archive_deserialize_owned_def archive_as_bytes_def body_of_def
        Let_def split: if_splits)
qed

text \<open>The flags that the constructors of an archiver give.\<close>

definition archiver_flags :: "u8 set" where
  "archiver_flags = {archiver_new_flags, archiver_with_version archiver_new_flags, archiver_untrusted archiver_new_flags}"

lemmas flag_defs = archiver_new_flags_def archiver_with_version_def archiver_untrusted_def MAGIC_MARKER_def
  VERSIONED_def HASHED_def LZ4_COMPRESSED_def

lemma flag_cases:
  assumes "flags \<in> archiver_flags"
  obtains "flags AND HASHED \<noteq> 0" "flags AND VERSIONED = 0" "flags AND MAGIC_MARKER \<noteq> 0"
      "(flags OR LZ4_COMPRESSED) AND HASHED \<noteq> 0" "(flags OR LZ4_COMPRESSED) AND VERSIONED = 0"
    | "flags AND HASHED \<noteq> 0" "flags AND VERSIONED \<noteq> 0" "flags AND MAGIC_MARKER \<noteq> 0"
      "(flags OR LZ4_COMPRESSED) AND HASHED \<noteq> 0" "(flags OR LZ4_COMPRESSED) AND VERSIONED \<noteq> 0"
    | "flags AND HASHED = 0" "flags AND VERSIONED = 0" "flags AND MAGIC_MARKER \<noteq> 0"
      "(flags OR LZ4_COMPRESSED) AND HASHED = 0" "(flags OR LZ4_COMPRESSED) AND VERSIONED = 0"
  using assms that by (auto simp: archiver_flags_def flag_defs)

lemma flag_common:
  "flags \<in> archiver_flags \<Longrightarrow> flags AND LZ4_COMPRESSED = 0 \<and> (flags OR LZ4_COMPRESSED) AND LZ4_COMPRESSED \<noteq> 0
     \<and> (flags OR LZ4_COMPRESSED) AND MAGIC_MARKER \<noteq> 0"
  by (auto simp: archiver_flags_def flag_defs)

lemma plain_frame_frame:
  assumes "flags \<in> archiver_flags"
  shows "\<exists>v. plain_frame env flags input = frame input v flags \<and> marker_fits flags v
    \<and> (\<forall>h. version_hash v = Some h \<longrightarrow> h = hash32 env input) \<and> body_of env flags input input"
proof -
  have body: "body_of env flags input input" using flag_common [OF assms] by (simp add: body_of_def)
  show ?thesis
  proof (cases rule: flag_cases [OF assms])
    case 1
    with body show ?thesis by (intro exI [of _ "Hashed (hash32 env input)"]) (simp add: plain_frame_def)
  next
    case 2
    with body show ?thesis by (intro exI [of _ "Versioned 0 (hash32 env input)"]) (simp add: plain_frame_def)
  next
    case 3
    with body show ?thesis by (intro exI [of _ Unversioned]) (simp add: plain_frame_def)
  qed
qed

lemma compressed_frame:
  assumes flags: "flags \<in> archiver_flags" and ok: "codec_ok env" and len: "length input < 2 ^ 32"
    and big: "COMPRESS_WATERMARK < length input"
  shows "\<exists>bs. archiver_serialize env flags input = Some bs \<and>
    (bs = plain_frame env flags input
     \<or> (\<exists>body v. bs = frame body v (flags OR LZ4_COMPRESSED) \<and> marker_fits (flags OR LZ4_COMPRESSED) v
        \<and> (\<forall>h. version_hash v = Some h \<longrightarrow> h = hash32 env body)
        \<and> body_of env (flags OR LZ4_COMPRESSED) input body \<and> length body \<le> length input + 4))"
proof -
  let ?m = "flags OR LZ4_COMPRESSED" and ?max = "ce_max_output_size env (length input)"
  define off where "off = (if flags AND VERSIONED \<noteq> 0 then 8 else 0 :: nat)"
  let ?buf = "replicate (?max + 4 + off + 1) ?m"
  have "?max \<le> length ?buf" by simp
  then obtain out where out: "ce_compress_into env input ?buf = Some (out @ drop (length out) ?buf, length out)"
    "length out \<le> ?max" "ce_decompress_into env out (length input) = Some input"
    using ok unfolding codec_ok_def by metis
  have drop4: "drop 4 (replicate (?max + 4 * 2 + off + 1) ?m) = ?buf" "take 4 (replicate (?max + 4 * 2 + off + 1) ?m) = replicate 4 ?m"
    by simp_all
  let ?le = "to_le_bytes (of_nat (length input) :: u32)"
  let ?body = "?le @ out"
  have le: "length ?le = 4" by (simp add: to_le_bytes_def)
  have "unat (of_nat (length input) :: u32) = length input" using len by (intro unat_of_nat_small) simp
  then have "aligned_lz4_deflate env ?body = Some (AB_Aligned input)"
    using ok out(3) by (simp add: aligned_lz4_deflate_def codec_ok_def)
  then have body: "body_of env ?m input ?body" using flag_common [OF flags] by (simp add: body_of_def)
  define k where "k = ?max - length out + 4 + off + 1"
  have "?max + 4 + off + 1 - length out = k" using out(2) by (simp add: k_def)
  then have fill: "drop (length out) ?buf = replicate k ?m" by (simp only: drop_replicate)
  have copy: "copy_at 0 ?le (replicate 4 ?m @ out @ replicate k ?m) = ?body @ replicate k ?m"
    by (simp add: copy_at_def le)
  have hashed: "take (length out + 4 * 2 + off + 1) (copy_at (length out + 4) (to_be_bytes h) (?body @ replicate k ?m))
      = ?body @ to_be_bytes h @ replicate off ?m @ [?m]" for h :: u32
    by (simp add: copy_at_def le k_def replicate_append_same)
  have unhashed: "take (length out + 4 + 1) (?body @ replicate k ?m) = ?body @ [?m]"
    by (simp add: le k_def)
  have version: "to_be_bytes (from_be_bytes (replicate 8 ?m) :: u64) = replicate 8 ?m"
    by (rule to_be_from_be) simp
  note ser = archiver_serialize_def [of env flags input, unfolded Let_def off_def [symmetric] drop4 out(1) fill]
  show ?thesis
  proof (cases "length out < length input")
    case False
    then show ?thesis using big by (simp add: ser)
  next
    case True
    note common = True big flag_common [OF flags] le copy
    have finish: ?thesis if "archiver_serialize env flags input = Some (frame ?body v ?m)" "marker_fits ?m v"
        "\<forall>h. version_hash v = Some h \<longrightarrow> h = hash32 env ?body" for v
      by (intro exI [of _ "frame ?body v ?m"] conjI disjI2 exI [of _ ?body] exI [of _ v])
        (use that body True le in simp_all)
    show ?thesis
    proof (cases rule: flag_cases [OF flags])
      case 1
      then have "archiver_serialize env flags input = Some (frame ?body (Hashed (hash32 env ?body)) ?m)"
        using hashed common by (simp add: ser off_def)
      from finish [OF this] 1 common show ?thesis by simp
    next
      case 2
      then have "archiver_serialize env flags input
          = Some (frame ?body (Versioned (from_be_bytes (replicate 8 ?m)) (hash32 env ?body)) ?m)"
        using hashed common version by (simp add: ser off_def)
      from finish [OF this] 2 common show ?thesis by simp
    next
      case 3
      then have "archiver_serialize env flags input = Some (frame ?body Unversioned ?m)"
        using unhashed common by (simp add: ser off_def)
      from finish [OF this] 3 common show ?thesis by simp
    qed
  qed
qed

lemma serialize_frame:
  assumes "flags \<in> archiver_flags" "codec_ok env" "length input < 2 ^ 32 - 4"
  shows "\<exists>body v m. archiver_serialize env flags input = Some (frame body v m) \<and> marker_fits m v
    \<and> (\<forall>h. version_hash v = Some h \<longrightarrow> h = hash32 env body) \<and> body_of env m input body \<and> length body < 2 ^ 32
    \<and> m \<in> {flags, flags OR LZ4_COMPRESSED}" (is "\<exists>body v m. ?frame body v m")
proof -
  obtain v where v: "plain_frame env flags input = frame input v flags" "marker_fits flags v"
    "\<forall>h. version_hash v = Some h \<longrightarrow> h = hash32 env input" "body_of env flags input input"
    using plain_frame_frame [OF assms(1)] by blast
  have short: "length input < 2 ^ 32" using assms(3) by linarith
  have plain: ?thesis if "archiver_serialize env flags input = Some (plain_frame env flags input)"
    by (intro exI [of _ input] exI [of _ v] exI [of _ flags]) (use that v short in simp)
  show ?thesis
  proof (cases "COMPRESS_WATERMARK < length input")
    case True
    from compressed_frame [OF assms(1,2) short True] consider
      "archiver_serialize env flags input = Some (plain_frame env flags input)"
      | body w where "?frame body w (flags OR LZ4_COMPRESSED)"
      using assms(3) by fastforce
    then show ?thesis using plain by cases blast+
  next
    case False
    then show ?thesis using plain by (simp add: archiver_serialize_def)
  qed
qed

subsection \<open>Properties\<close>

text \<open>
  C16: an object that is serialised, compressed or not, with or without a hash, is read back
  unchanged from its frame, by the borrowing and by the owning reader and whatever the alignment;
  the hash that can be extracted from the frame is the one of the version that was read; and the
  frame passes the assertion that a later write makes with that version.
\<close>

theorem archive_roundtrip:
  assumes "flags \<in> archiver_flags" "codec_ok env" "length input < 2 ^ 32 - 4"
  shows "\<exists>bs a b. archiver_serialize env flags input = Some bs
    \<and> archive_deserialize env bs = Some a \<and> archive_as_bytes a = input
    \<and> archive_deserialize_owned env is_aligned bs = Some b \<and> archive_as_bytes b = input
    \<and> ar_version a = ar_version b \<and> extract_hash bs = version_hash (ar_version a)
    \<and> (flags \<noteq> archiver_untrusted archiver_new_flags \<longrightarrow> assert_matches (AV_Archive (ar_version a)) bs)"
proof -
  obtain body v m where f: "archiver_serialize env flags input = Some (frame body v m)" "marker_fits m v"
    "\<forall>h. version_hash v = Some h \<longrightarrow> h = hash32 env body" "body_of env m input body" "length body < 2 ^ 32"
    "m \<in> {flags, flags OR LZ4_COMPRESSED}"
    using serialize_frame [OF assms] by blast
  have "v \<noteq> Unversioned" if "flags \<noteq> archiver_untrusted archiver_new_flags"
    using f(2,6) assms(1) that by (auto simp: archiver_flags_def flag_defs)
  with read_frame [OF f(2-4)] frame_hash [OF f(5,2)] f(1) show ?thesis by metis
qed

text \<open>An environment for which the assumptions hold: a compressor that stores its input.\<close>

definition stored_codec :: codec_env where
  "stored_codec = \<lparr>ce_xxh3_64 = (\<lambda>bs. of_nat (be_val bs)), ce_max_output_size = (\<lambda>n. n),
     ce_compress_into = (\<lambda>input buf. if length input \<le> length buf then Some (copy_at 0 input buf, length input) else None),
     ce_uncompressed_size = (\<lambda>bs. if 4 \<le> length bs then Some (be_val (rev (take 4 bs)), drop 4 bs) else None),
     ce_decompress_into = (\<lambda>archive n. if length archive = n then Some archive else None)\<rparr>"

lemma stored_codec_ok: "codec_ok stored_codec"
  unfolding codec_ok_def
proof (intro conjI allI impI)
  fix input buf :: bytes assume "ce_max_output_size stored_codec (length input) \<le> length buf"
  then show "\<exists>out. ce_compress_into stored_codec input buf = Some (out @ drop (length out) buf, length out)
      \<and> length out \<le> ce_max_output_size stored_codec (length input)
      \<and> ce_decompress_into stored_codec out (length input) = Some input"
    by (intro exI [of _ input]) (simp add: stored_codec_def copy_at_def)
next
  fix n :: u32 and rest
  show "ce_uncompressed_size stored_codec (to_le_bytes n @ rest) = Some (unat n, rest)"
    by (simp add: stored_codec_def to_le_bytes_def be_val_to_be_bytes)
qed

theorem archive_roundtrip_witness:
  "archiver_new_flags \<in> archiver_flags \<and> codec_ok stored_codec \<and>
   (\<exists>bs a b. archiver_serialize stored_codec archiver_new_flags [1, 2, 3] = Some bs
    \<and> archive_deserialize stored_codec bs = Some a \<and> archive_as_bytes a = [1, 2, 3]
    \<and> archive_deserialize_owned stored_codec True bs = Some b \<and> archive_as_bytes b = [1, 2, 3]
    \<and> ar_version a = ar_version b \<and> extract_hash bs = version_hash (ar_version a))"
  using archive_roundtrip [of archiver_new_flags stored_codec "[1, 2, 3]" True] stored_codec_ok
  by (simp add: archiver_flags_def) blast

text \<open>
  C17: the change id that a commit writes into the frame of a versioned object is the one that is
  read back, together with the object and its hash.
\<close>

theorem commit_sets_version:
  assumes "codec_ok env" "length input < 2 ^ 32 - 4"
  shows "\<exists>offset bs bs' a hash. serialize_versioned env archiver_new_flags input = Some (offset, bs)
    \<and> set_version bs offset change_id = Some bs' \<and> archive_deserialize env bs' = Some a
    \<and> archive_as_bytes a = input \<and> ar_version a = Versioned change_id hash \<and> extract_hash bs = Some hash"
proof -
  let ?flags = "archiver_with_version archiver_new_flags"
  have flags: "?flags \<in> archiver_flags" by (simp add: archiver_flags_def)
  obtain body v m where f: "archiver_serialize env ?flags input = Some (frame body v m)" "marker_fits m v"
    "\<forall>h. version_hash v = Some h \<longrightarrow> h = hash32 env body" "body_of env m input body" "length body < 2 ^ 32"
    "m \<in> {?flags, ?flags OR LZ4_COMPRESSED}"
    using serialize_frame [OF flags assms] by blast
  have "\<exists>c h. v = Versioned c h"
    using f(2,6) by (cases v) (auto simp: flag_defs)
  then obtain c h where v: "v = Versioned c h" by blast
  let ?bs = "frame body v m" and ?bs' = "frame body (Versioned change_id h) m"
  have "usize_len ?bs - U64_LEN - 1 = of_nat (length body + 4)"
    by (simp add: usize_len_def len_defs v)
  then have "unat (usize_len ?bs - U64_LEN - 1) = length body + 4"
    using f(5) by (simp only:) (intro unat_of_nat_small, simp)
  then have "set_version ?bs (usize_len ?bs - U64_LEN - 1) change_id = Some ?bs'"
    unfolding set_version_def by (simp only:) (simp add: v)
  moreover obtain a where "archive_deserialize env ?bs' = Some a" "archive_as_bytes a = input" "ar_version a = Versioned change_id h"
    using read_frame(1) [of m "Versioned change_id h" env body input] f(2-4) by (auto simp: v)
  moreover have "extract_hash ?bs = Some h" using frame_hash(1) [OF f(5,2)] by (simp add: v)
  ultimately show ?thesis using f(1) by (simp add: serialize_versioned_def)
qed

theorem commit_sets_version_witness:
  "codec_ok stored_codec \<and> (\<exists>offset bs bs' a hash. serialize_versioned stored_codec archiver_new_flags [7] = Some (offset, bs)
    \<and> set_version bs offset 42 = Some bs' \<and> archive_deserialize stored_codec bs' = Some a
    \<and> archive_as_bytes a = [7] \<and> ar_version a = Versioned 42 hash \<and> extract_hash bs = Some hash)"
  using commit_sets_version [OF stored_codec_ok, of "[7]" 42] stored_codec_ok by simp

text \<open>
  C37: turning an archive back into stored bytes works for objects without a change id, but for
  versioned ones it writes the change id in front of the hash, where the readers expect the hash in
  front of the change id: the result is refused as corrupted unless the upper half of the change id
  happens to be the hash.
\<close>

theorem into_inner_swaps_version:
  assumes "ucast (drop_bit 32 change_id) \<noteq> hash32 env contents"
  shows "archive_deserialize env (archive_into_inner \<lparr>ar_inner = AB_Vec contents, ar_version = Hashed (hash32 env contents)\<rparr>)
      = Some \<lparr>ar_inner = AB_Aligned contents, ar_version = Hashed (hash32 env contents)\<rparr>
    \<and> archive_deserialize env (archive_into_inner
        \<lparr>ar_inner = AB_Vec contents, ar_version = Versioned change_id (hash32 env contents)\<rparr>) = None"
proof
  let ?h = "hash32 env contents"
  have "archive_into_inner \<lparr>ar_inner = AB_Vec contents, ar_version = Hashed ?h\<rparr>
      = frame contents (Hashed ?h) (MAGIC_MARKER OR HASHED)" by (simp add: archive_into_inner_def)
  then show "archive_deserialize env (archive_into_inner \<lparr>ar_inner = AB_Vec contents, ar_version = Hashed ?h\<rparr>)
      = Some \<lparr>ar_inner = AB_Aligned contents, ar_version = Hashed ?h\<rparr>"
    using validate_frame [of "MAGIC_MARKER OR HASHED" "Hashed ?h" env contents]
    by (simp add: archive_deserialize_def flag_defs)
  define hi lo :: u32 where "hi = ucast (drop_bit 32 change_id)" and "lo = ucast change_id"
  have "change_id = push_bit 32 (ucast hi) OR ucast lo"
    unfolding hi_def lo_def by (rule bit_word_eqI) (auto simp: bit_simps)
  then have c: "to_be_bytes change_id = to_be_bytes hi @ to_be_bytes lo" using pair_be [of hi lo] by simp
  let ?m = "MAGIC_MARKER OR VERSIONED OR HASHED"
  let ?c = "push_bit 32 (ucast lo) OR ucast ?h :: u64"
  have "archive_into_inner \<lparr>ar_inner = AB_Vec contents, ar_version = Versioned change_id ?h\<rparr>
      = frame contents (Versioned ?c hi) ?m"
    by (simp add: archive_into_inner_def c pair_be)
  moreover have "validate_marker_and_contents env (frame contents (Versioned ?c hi) ?m) = None"
  proof -
    have "split_tail 8 ((contents @ to_be_bytes hi) @ to_be_bytes ?c) = Some (contents @ to_be_bytes hi, to_be_bytes ?c)"
      "split_tail 4 (contents @ to_be_bytes hi) = Some (contents, to_be_bytes hi)" by (rule split_tail_append, simp)+
    moreover have "?m AND MAGIC_MARKER \<noteq> 0" "?m AND VERSIONED \<noteq> 0" by (simp_all add: flag_defs)
    ultimately show ?thesis using assms
      by (simp add: validate_marker_and_contents_def Let_def butlast_append hi_def flip: append_assoc)
  qed
  ultimately show "archive_deserialize env (archive_into_inner
        \<lparr>ar_inner = AB_Vec contents, ar_version = Versioned change_id ?h\<rparr>) = None"
    by (simp add: archive_deserialize_def)
qed

theorem into_inner_swaps_version_witness:
  "ucast (drop_bit 32 (5 :: u64)) \<noteq> hash32 stored_codec [7]
   \<and> archive_deserialize stored_codec (archive_into_inner
        \<lparr>ar_inner = AB_Vec [7], ar_version = Versioned 5 (hash32 stored_codec [7])\<rparr>) = None"
proof -
  have ne: "ucast (drop_bit 32 (5 :: u64)) \<noteq> hash32 stored_codec [7]"
    by (simp add: hash32_def stored_codec_def)
  with into_inner_swaps_version [OF ne] show ?thesis by simp
qed

end
