(* ===== verification/Batch.thy ===== *)
theory Batch
  imports ChangeQuery Archive
begin

text \<open>
  Building write batches, \<open>crates/store/src/write/batch.rs\<close>. A builder collects operations, each of
  which applies to the account, collection and document selected by the operations before it, and
  the changes to be logged; a large batch is cut into slices that commit on their own. Sizes are
  natural numbers. The iteration order of hash sets is an argument, as in the theory of the log.
\<close>

subsection \<open>Operations\<close>

datatype param = Param_I64 int | Param_U64 u64 | Param_String bytes | Param_Bytes bytes | Param_Bool bool

type_synonym params = "param list"

definition params_i64 :: "params \<Rightarrow> nat \<Rightarrow> int option" where
  "params_i64 ps idx = (if idx < length ps then (case ps ! idx of Param_I64 v \<Rightarrow> Some v | _ \<Rightarrow> None) else None)"

definition params_u64 :: "params \<Rightarrow> nat \<Rightarrow> u64 option" where
  "params_u64 ps idx = (if idx < length ps then (case ps ! idx of Param_U64 v \<Rightarrow> Some v | _ \<Rightarrow> None) else None)"

definition params_string :: "params \<Rightarrow> nat \<Rightarrow> bytes option" where
  "params_string ps idx = (if idx < length ps then (case ps ! idx of Param_String v \<Rightarrow> Some v | _ \<Rightarrow> None) else None)"

definition params_bytes :: "params \<Rightarrow> nat \<Rightarrow> bytes option" where
  "params_bytes ps idx = (if idx < length ps then (case ps ! idx of Param_Bytes v \<Rightarrow> Some v | _ \<Rightarrow> None) else None)"

definition params_bool :: "params \<Rightarrow> nat \<Rightarrow> bool option" where
  "params_bool ps idx = (if idx < length ps then (case ps ! idx of Param_Bool v \<Rightarrow> Some v | _ \<Rightarrow> None) else None)"

datatype assigned_id = AI_Counter int | AI_ChangeId u32 u64

record assigned_ids =
  ai_ids :: "assigned_id list"
  ai_current_change_id :: "u64 option"

definition assigned_ids_default :: assigned_ids where
  "assigned_ids_default = \<lparr>ai_ids = [], ai_current_change_id = None\<rparr>"

definition push_counter_id :: "int \<Rightarrow> assigned_ids \<Rightarrow> assigned_ids" where
  "push_counter_id i a = a\<lparr>ai_ids := ai_ids a @ [AI_Counter i]\<rparr>"

definition push_change_id :: "u32 \<Rightarrow> u64 \<Rightarrow> assigned_ids \<Rightarrow> assigned_ids" where
  "push_change_id account_id change_id a = a\<lparr>ai_ids := ai_ids a @ [AI_ChangeId account_id change_id]\<rparr>"

definition last_change_id :: "assigned_ids \<Rightarrow> u32 \<Rightarrow> u64 option" where
  "last_change_id a account_id =
     (case rev (List.map_filter (\<lambda>i. case i of
          AI_ChangeId acc change_id \<Rightarrow> if acc = account_id then Some change_id else None
        | _ \<Rightarrow> None) (ai_ids a)) of
        [] \<Rightarrow> None | i # _ \<Rightarrow> Some i)"

definition set_current_change_id :: "u32 \<Rightarrow> assigned_ids \<Rightarrow> (u64 \<times> assigned_ids) option" where
  "set_current_change_id account_id a =
     map_option (\<lambda>change_id. (change_id, a\<lparr>ai_current_change_id := Some change_id\<rparr>)) (last_change_id a account_id)"

definition last_counter_id :: "assigned_ids \<Rightarrow> int option" where
  "last_counter_id a =
     (case rev (List.map_filter (\<lambda>i. case i of AI_Counter c \<Rightarrow> Some c | _ \<Rightarrow> None) (ai_ids a)) of
        [] \<Rightarrow> None | i # _ \<Rightarrow> Some i)"

datatype merge_result = MR_Update bytes | MR_Skip | MR_Delete

datatype value_op =
    VO_Set bytes
  | VO_SetFnc "params \<Rightarrow> assigned_ids \<Rightarrow> bytes option" params
  | VO_MergeFnc "params \<Rightarrow> assigned_ids \<Rightarrow> bytes option \<Rightarrow> merge_result option" params
  | VO_AtomicAdd int
  | VO_AddAndGet int
  | VO_Clear

datatype operation =
    Op_AccountId u32
  | Op_Collection collection
  | Op_DocumentId u32
  | Op_AssertValue value_class assert_value
  | Op_Value value_class value_op
  | Op_Index u8 bytes bool
  | Op_Log log_collection bytes

subsection \<open>The builder\<close>

record changed_collection =
  cc_changed_containers :: "sync_collection bitmap"
  cc_changed_items :: "sync_collection bitmap"
  cc_share_notification_id :: "u64 option"

definition cc_default :: changed_collection where
  "cc_default = \<lparr>cc_changed_containers = bm_new, cc_changed_items = bm_new, cc_share_notification_id = None\<rparr>"

record batch_builder =
  bb_current_account_id :: "u32 option"
  bb_current_collection :: "collection option"
  bb_current_document_id :: "u32 option"
  bb_changes :: "(u32, change_log_builder) vec_map"
  bb_changed_collections :: "(u32, changed_collection) vec_map"
  bb_has_assertions :: bool
  bb_batch_size :: nat
  bb_batch_ops :: nat
  bb_commit_points :: "nat list"
  bb_ops :: "operation list"

definition bb_new :: batch_builder where
  "bb_new = \<lparr>bb_current_account_id = None, bb_current_collection = None, bb_current_document_id = None,
     bb_changes = vm_new, bb_changed_collections = vm_new, bb_has_assertions = False, bb_batch_size = 0,
     bb_batch_ops = 0, bb_commit_points = [], bb_ops = []\<rparr>"

definition bb_push :: "operation \<Rightarrow> batch_builder \<Rightarrow> batch_builder" where
  "bb_push op b = b\<lparr>bb_ops := bb_ops b @ [op]\<rparr>"

definition bb_count :: "nat \<Rightarrow> nat \<Rightarrow> batch_builder \<Rightarrow> batch_builder" where
  "bb_count sz n b = b\<lparr>bb_batch_size := bb_batch_size b + sz, bb_batch_ops := bb_batch_ops b + n\<rparr>"

definition with_account_id :: "u32 \<Rightarrow> batch_builder \<Rightarrow> batch_builder" where
  "with_account_id account_id b =
     (if bb_current_account_id b = None \<or> bb_current_account_id b \<noteq> Some account_id
      then bb_push (Op_AccountId account_id) (b\<lparr>bb_current_account_id := Some account_id\<rparr>)
      else b)"

definition with_collection :: "collection \<Rightarrow> batch_builder \<Rightarrow> batch_builder" where
  "with_collection collection b =
     (if Some collection \<noteq> bb_current_collection b
      then bb_push (Op_Collection collection) (b\<lparr>bb_current_collection := Some collection\<rparr>)
      else b)"

definition with_document :: "u32 \<Rightarrow> batch_builder \<Rightarrow> batch_builder" where
  "with_document document_id b =
     (bb_push (Op_DocumentId document_id) b)\<lparr>bb_current_document_id := Some document_id, bb_has_assertions := False\<rparr>"

definition bb_assert_value :: "value_class \<Rightarrow> assert_value \<Rightarrow> batch_builder \<Rightarrow> batch_builder" where
  "bb_assert_value cls value b =
     (bb_count 0 1 (bb_push (Op_AssertValue cls value) b))\<lparr>bb_has_assertions := True\<rparr>"

definition bb_index :: "u8 \<Rightarrow> bytes \<Rightarrow> batch_builder \<Rightarrow> batch_builder" where
  "bb_index field value b = bb_count (4 * 3 + length value) 1 (bb_push (Op_Index field value True) b)"

definition bb_unindex :: "u8 \<Rightarrow> bytes \<Rightarrow> batch_builder \<Rightarrow> batch_builder" where
  "bb_unindex field value b = bb_count (4 * 3 + length value) 1 (bb_push (Op_Index field value False) b)"

definition bb_tag :: "u8 \<Rightarrow> batch_builder \<Rightarrow> batch_builder" where
  "bb_tag field = bb_index field []"

definition bb_untag :: "u8 \<Rightarrow> batch_builder \<Rightarrow> batch_builder" where
  "bb_untag field = bb_unindex field []"

definition bb_add :: "value_class \<Rightarrow> int \<Rightarrow> batch_builder \<Rightarrow> batch_builder" where
  "bb_add cls value b = bb_count (vc_serialized_size cls + 8) 1 (bb_push (Op_Value cls (VO_AtomicAdd value)) b)"

definition bb_add_and_get :: "value_class \<Rightarrow> int \<Rightarrow> batch_builder \<Rightarrow> batch_builder" where
  "bb_add_and_get cls value b =
     bb_count (vc_serialized_size cls + 8 * 2) 1 (bb_push (Op_Value cls (VO_AddAndGet value)) b)"

definition bb_set :: "value_class \<Rightarrow> bytes \<Rightarrow> batch_builder \<Rightarrow> batch_builder" where
  "bb_set cls value b = bb_count (vc_serialized_size cls + length value) 1 (bb_push (Op_Value cls (VO_Set value)) b)"

definition bb_set_fnc ::
  "value_class \<Rightarrow> params \<Rightarrow> (params \<Rightarrow> assigned_ids \<Rightarrow> bytes option) \<Rightarrow> batch_builder \<Rightarrow> batch_builder" where
  "bb_set_fnc cls params fnc b = bb_push (Op_Value cls (VO_SetFnc fnc params)) b"

definition bb_merge_fnc ::
  "value_class \<Rightarrow> params \<Rightarrow> (params \<Rightarrow> assigned_ids \<Rightarrow> bytes option \<Rightarrow> merge_result option) \<Rightarrow> batch_builder \<Rightarrow> batch_builder" where
  "bb_merge_fnc cls params fnc b = bb_push (Op_Value cls (VO_MergeFnc fnc params)) b"

definition bb_clear :: "value_class \<Rightarrow> batch_builder \<Rightarrow> batch_builder" where
  "bb_clear cls b = bb_count (vc_serialized_size cls) 1 (bb_push (Op_Value cls VO_Clear) b)"

definition bb_acl_grant :: "u32 \<Rightarrow> bytes \<Rightarrow> batch_builder \<Rightarrow> batch_builder" where
  "bb_acl_grant grant_account_id op b =
     bb_count (4 * 3 + length op) 1 (bb_push (Op_Value (VC_Acl grant_account_id) (VO_Set op)) b)"

definition bb_acl_revoke :: "u32 \<Rightarrow> batch_builder \<Rightarrow> batch_builder" where
  "bb_acl_revoke grant_account_id b =
     bb_count (4 * 3) 1 (bb_push (Op_Value (VC_Acl grant_account_id) VO_Clear) b)"

definition bb_any_op :: "operation \<Rightarrow> batch_builder \<Rightarrow> batch_builder" where
  "bb_any_op op b = bb_count 0 1 (bb_push op b)"

subsection \<open>Logging\<close>

definition bb_on_log :: "u32 \<Rightarrow> (change_log_builder \<Rightarrow> change_log_builder) \<Rightarrow> batch_builder \<Rightarrow> batch_builder" where
  "bb_on_log account_id f b = b\<lparr>bb_changes := vm_modify (bb_changes b) account_id clb_default f\<rparr>"

text \<open>The operations that log a change of the current document do nothing when none is selected.\<close>

definition bb_on_current :: "(u32 \<Rightarrow> change_log_builder \<Rightarrow> change_log_builder) \<Rightarrow> batch_builder \<Rightarrow> batch_builder" where
  "bb_on_current f b =
     (case (bb_current_account_id b, bb_current_document_id b) of
        (Some account_id, Some document_id) \<Rightarrow> bb_on_log account_id (f document_id) b
      | _ \<Rightarrow> b)"

definition bb_log_item_insert :: "sync_collection \<Rightarrow> u32 option \<Rightarrow> batch_builder \<Rightarrow> batch_builder" where
  "bb_log_item_insert collection prefix = bb_on_current (log_item_insert collection prefix)"

definition bb_log_item_update :: "sync_collection \<Rightarrow> u32 option \<Rightarrow> batch_builder \<Rightarrow> batch_builder" where
  "bb_log_item_update collection prefix = bb_on_current (log_item_update collection prefix)"

definition bb_log_item_delete :: "sync_collection \<Rightarrow> u32 option \<Rightarrow> batch_builder \<Rightarrow> batch_builder" where
  "bb_log_item_delete collection prefix = bb_on_current (log_item_delete collection prefix)"

definition bb_log_container_insert :: "sync_collection \<Rightarrow> batch_builder \<Rightarrow> batch_builder" where
  "bb_log_container_insert collection = bb_on_current (log_container_insert collection)"

definition bb_log_container_update :: "sync_collection \<Rightarrow> batch_builder \<Rightarrow> batch_builder" where
  "bb_log_container_update collection = bb_on_current (log_container_update collection)"

definition bb_log_container_delete :: "sync_collection \<Rightarrow> batch_builder \<Rightarrow> batch_builder" where
  "bb_log_container_delete collection = bb_on_current (log_container_delete collection)"

definition bb_log_container_property_change :: "sync_collection \<Rightarrow> u32 \<Rightarrow> batch_builder \<Rightarrow> batch_builder" where
  "bb_log_container_property_change collection document_id b =
     (case bb_current_account_id b of
        Some account_id \<Rightarrow> bb_on_log account_id (log_container_property_update collection document_id) b
      | None \<Rightarrow> b)"

definition bb_log_vanished_item :: "vanished_collection \<Rightarrow> vanished_item \<Rightarrow> batch_builder \<Rightarrow> batch_builder" where
  "bb_log_vanished_item collection item b =
     (case bb_current_account_id b of
        Some account_id \<Rightarrow>
          bb_on_log account_id (log_vanished_item collection item) (bb_count (vanished_serialized_size item) 0 b)
      | None \<Rightarrow> b)"

definition bb_log_share_notification :: "u64 \<Rightarrow> u32 \<Rightarrow> bytes \<Rightarrow> batch_builder \<Rightarrow> batch_builder" where
  "bb_log_share_notification notification_id notify_account_id value b =
     bb_set (VC_ShareNotification notification_id notify_account_id) value
       (b\<lparr>bb_changed_collections := vm_modify (bb_changed_collections b) notify_account_id cc_default
          (\<lambda>cc. cc\<lparr>cc_share_notification_id := Some notification_id\<rparr>)\<rparr>)"

subsection \<open>Writing out the log\<close>

type_synonym set_orders = "(u32 set \<Rightarrow> u32 list) \<times> (u64 set \<Rightarrow> u64 list)"

definition mark_changed :: "sync_collection \<Rightarrow> changes \<Rightarrow> changed_collection \<Rightarrow> changed_collection" where
  "mark_changed collection changes cc =
     (let cc = (if has_container_changes changes
                then cc\<lparr>cc_changed_containers := bm_insert sync_collection_to_u64 (cc_changed_containers cc) collection\<rparr>
                else cc)
      in if has_item_changes changes
         then cc\<lparr>cc_changed_items := bm_insert sync_collection_to_u64 (cc_changed_items cc) collection\<rparr>
         else cc)"

definition write_sync_log :: "set_orders \<Rightarrow> u32 \<Rightarrow> batch_builder \<Rightarrow> sync_collection \<times> changes \<Rightarrow> batch_builder" where
  "write_sync_log orders account_id b entry =
     (case entry of (collection, changes) \<Rightarrow>
        bb_push (Op_Log (LC_Sync collection) (changes_serialize (fst orders) (snd orders) changes))
          (b\<lparr>bb_changed_collections :=
             vm_modify (bb_changed_collections b) account_id cc_default (mark_changed collection changes)\<rparr>))"

definition write_vanished_log :: "batch_builder \<Rightarrow> vanished_collection \<times> vanished_item list \<Rightarrow> batch_builder" where
  "write_vanished_log b entry =
     (case entry of (collection, vanished) \<Rightarrow> bb_push (Op_Log (LC_Vanished collection) (vanished_serialize vanished)) b)"

definition write_account_log :: "set_orders \<Rightarrow> batch_builder \<Rightarrow> u32 \<times> change_log_builder \<Rightarrow> batch_builder" where
  "write_account_log orders b entry =
     (case entry of (account_id, changelog) \<Rightarrow>
        foldl write_vanished_log
          (foldl (write_sync_log orders account_id) (with_account_id account_id b) (vm_iter (clb_changes changelog)))
          (vm_iter (clb_vanished changelog)))"

definition serialize_changes :: "set_orders \<Rightarrow> batch_builder \<Rightarrow> batch_builder" where
  "serialize_changes orders b =
     (if \<not> vm_is_empty (bb_changes b)
      then foldl (write_account_log orders) (b\<lparr>bb_changes := vm_new\<rparr>) (vm_iter (bb_changes b))
      else b)"

definition is_large_batch :: "batch_builder \<Rightarrow> bool" where
  "is_large_batch b \<longleftrightarrow> bb_batch_size b > 5000000 \<or> bb_batch_ops b > 1000"

definition commit_point :: "set_orders \<Rightarrow> batch_builder \<Rightarrow> batch_builder" where
  "commit_point orders b =
     (if is_large_batch b
      then let b = serialize_changes orders b;
               b = b\<lparr>bb_commit_points := bb_commit_points b @ [length (bb_ops b)], bb_batch_ops := 0, bb_batch_size := 0\<rparr>;
               b = (case bb_current_account_id b of Some account_id \<Rightarrow> bb_push (Op_AccountId account_id) b | None \<Rightarrow> b)
           in case bb_current_collection b of Some collection \<Rightarrow> bb_push (Op_Collection collection) b | None \<Rightarrow> b
      else b)"

text \<open>The offsets of the slices that commit on their own, and the slices.\<close>

fun commit_ranges :: "nat \<Rightarrow> nat list \<Rightarrow> (nat \<times> nat) list" where
  "commit_ranges offset_start [] = []"
| "commit_ranges offset_start (offset_end # points) = (offset_start, offset_end) # commit_ranges offset_end points"

definition commit_points :: "set_orders \<Rightarrow> batch_builder \<Rightarrow> (nat \<times> nat) list \<times> batch_builder" where
  "commit_points orders b =
     (let b = serialize_changes orders b
      in (commit_ranges 0 (bb_commit_points b @ [length (bb_ops b)]), b\<lparr>bb_commit_points := []\<rparr>))"

record write_batch =
  wb_changes :: "(u32, changed_collection) vec_map"
  wb_ops :: "operation list"

text \<open>Slicing panics when the range is out of order or out of bounds.\<close>

definition build_one :: "nat \<times> nat \<Rightarrow> batch_builder \<Rightarrow> write_batch option" where
  "build_one point b =
     (case point of (offset_start, offset_end) \<Rightarrow>
        if offset_start \<le> offset_end \<and> offset_end \<le> length (bb_ops b)
        then Some \<lparr>wb_changes = bb_changed_collections b,
                   wb_ops = take (offset_end - offset_start) (drop offset_start (bb_ops b))\<rparr>
        else None)"

definition build_all :: "set_orders \<Rightarrow> batch_builder \<Rightarrow> write_batch \<times> batch_builder" where
  "build_all orders b =
     (let b = serialize_changes orders b
      in (\<lparr>wb_changes = bb_changed_collections b, wb_ops = bb_ops b\<rparr>, b))"

definition bb_has_changes :: "batch_builder \<Rightarrow> bool" where
  "bb_has_changes b \<longleftrightarrow> \<not> vm_is_empty (bb_changed_collections b)"

definition bb_into_changes :: "batch_builder \<Rightarrow> (u32, changed_collection) vec_map option" where
  "bb_into_changes b = (if bb_has_changes b then Some (bb_changed_collections b) else None)"

definition bb_len :: "batch_builder \<Rightarrow> nat" where "bb_len b = bb_batch_size b"

definition bb_is_empty :: "batch_builder \<Rightarrow> bool" where "bb_is_empty b \<longleftrightarrow> bb_batch_ops b = 0"

fun is_atomic_op :: "operation \<Rightarrow> bool" where
  "is_atomic_op (Op_AssertValue _ _) = False"
| "is_atomic_op (Op_Value _ (VO_AddAndGet _)) = False"
| "is_atomic_op _ = True"

definition batch_is_atomic :: "write_batch \<Rightarrow> bool" where
  "batch_is_atomic w \<longleftrightarrow> \<not> list_ex (\<lambda>op. \<not> is_atomic_op op) (wb_ops w)"

fun first_account_id :: "operation list \<Rightarrow> u32 option" where
  "first_account_id [] = None"
| "first_account_id (Op_AccountId account_id # ops) = Some account_id"
| "first_account_id (_ # ops) = first_account_id ops"

subsection \<open>Builders that can be reached\<close>

fun is_context_op :: "operation \<Rightarrow> bool" where
  "is_context_op (Op_AccountId _) = True"
| "is_context_op (Op_Collection _) = True"
| "is_context_op (Op_DocumentId _) = True"
| "is_context_op _ = False"

text \<open>
  One call on a builder. The code uses \<open>any_op\<close> for operations that do not select an account,
  a collection or a document.
\<close>

inductive bb_step :: "set_orders \<Rightarrow> batch_builder \<Rightarrow> batch_builder \<Rightarrow> bool" for orders where
  account: "bb_step orders b (with_account_id a b)"
| collection: "bb_step orders b (with_collection c b)"
| document: "bb_step orders b (with_document d b)"
| assertion: "bb_step orders b (bb_assert_value cls v b)"
| index: "bb_step orders b (bb_index field value b)"
| unindex: "bb_step orders b (bb_unindex field value b)"
| add: "bb_step orders b (bb_add cls i b)"
| add_and_get: "bb_step orders b (bb_add_and_get cls i b)"
| set: "bb_step orders b (bb_set cls value b)"
| set_fnc: "bb_step orders b (bb_set_fnc cls ps sf b)"
| merge_fnc: "bb_step orders b (bb_merge_fnc cls ps mf b)"
| clear: "bb_step orders b (bb_clear cls b)"
| acl_grant: "bb_step orders b (bb_acl_grant grantee value b)"
| acl_revoke: "bb_step orders b (bb_acl_revoke grantee b)"
| any_op: "\<not> is_context_op op \<Longrightarrow> bb_step orders b (bb_any_op op b)"
| item_insert: "bb_step orders b (bb_log_item_insert sc prefix b)"
| item_update: "bb_step orders b (bb_log_item_update sc prefix b)"
| item_delete: "bb_step orders b (bb_log_item_delete sc prefix b)"
| container_insert: "bb_step orders b (bb_log_container_insert sc b)"
| container_update: "bb_step orders b (bb_log_container_update sc b)"
| container_delete: "bb_step orders b (bb_log_container_delete sc b)"
| property_change: "bb_step orders b (bb_log_container_property_change sc d b)"
| vanished: "bb_step orders b (bb_log_vanished_item vcol item b)"
| share_notification: "bb_step orders b (bb_log_share_notification n a value b)"
| commit: "bb_step orders b (commit_point orders b)"

inductive bb_reachable :: "set_orders \<Rightarrow> batch_builder \<Rightarrow> bool" for orders where
  start: "bb_reachable orders bb_new"
| step: "bb_reachable orders b \<Longrightarrow> bb_step orders b b' \<Longrightarrow> bb_reachable orders b'"

text \<open>The account, collection and document that a list of operations leaves selected.\<close>

fun op_context :: "operation \<Rightarrow> u32 option \<times> collection option \<times> u32 option
    \<Rightarrow> u32 option \<times> collection option \<times> u32 option" where
  "op_context (Op_AccountId a) (_, c, d) = (Some a, c, d)"
| "op_context (Op_Collection c) (a, _, d) = (a, Some c, d)"
| "op_context (Op_DocumentId d) (a, c, _) = (a, c, Some d)"
| "op_context _ ctx = ctx"

definition ops_context :: "operation list \<Rightarrow> u32 option \<times> collection option \<times> u32 option" where
  "ops_context ops = fold op_context ops (None, None, None)"

definition last_point :: "batch_builder \<Rightarrow> nat" where
  "last_point b = (if bb_commit_points b = [] then 0 else last (bb_commit_points b))"

text \<open>The slice that is being built, which starts at the last commit point.\<close>

definition open_slice :: "batch_builder \<Rightarrow> operation list" where
  "open_slice b = drop (last_point b) (bb_ops b)"

definition bb_inv :: "batch_builder \<Rightarrow> bool" where
  "bb_inv b \<longleftrightarrow>
     sorted (bb_commit_points b) \<and> last_point b \<le> length (bb_ops b)
     \<and> (case ops_context (open_slice b) of (a, c, d) \<Rightarrow>
          a = bb_current_account_id b \<and> c = bb_current_collection b
          \<and> (d = None \<and> bb_commit_points b \<noteq> [] \<or> d = bb_current_document_id b))"

lemma op_context_other: "\<not> is_context_op op \<Longrightarrow> op_context op ctx = ctx"
  by (cases op; cases ctx) auto

lemma ops_context_snoc: "ops_context (ops @ [op]) = op_context op (ops_context ops)"
  by (simp add: ops_context_def)

lemma bb_push_fields [simp]:
  "bb_ops (bb_push op b) = bb_ops b @ [op]" "bb_commit_points (bb_push op b) = bb_commit_points b"
  "bb_current_account_id (bb_push op b) = bb_current_account_id b"
  "bb_current_collection (bb_push op b) = bb_current_collection b"
  "bb_current_document_id (bb_push op b) = bb_current_document_id b"
  "bb_changes (bb_push op b) = bb_changes b" "bb_changed_collections (bb_push op b) = bb_changed_collections b"
  by (simp_all add: bb_push_def)

lemma open_slice_push: "last_point b \<le> length (bb_ops b) \<Longrightarrow> open_slice (bb_push op b) = open_slice b @ [op]"
  by (auto simp: open_slice_def last_point_def split: if_splits)

text \<open>The invariant only looks at some fields.\<close>

lemma bb_inv_cong:
  assumes "bb_ops b' = bb_ops b" "bb_commit_points b' = bb_commit_points b"
    "bb_current_account_id b' = bb_current_account_id b" "bb_current_collection b' = bb_current_collection b"
    "bb_current_document_id b' = bb_current_document_id b"
  shows "bb_inv b' = bb_inv b"
  using assms by (simp add: bb_inv_def open_slice_def last_point_def)

lemma bb_inv_count [simp]: "bb_inv (bb_count sz n b) = bb_inv b"
  by (rule bb_inv_cong) (simp_all add: bb_count_def)

lemma bb_inv_push: "bb_inv b \<Longrightarrow> \<not> is_context_op op \<Longrightarrow> bb_inv (bb_push op b)"
  by (auto simp: bb_inv_def open_slice_push ops_context_snoc op_context_other last_point_def split: prod.splits)

lemma bb_inv_log [simp]: "bb_inv (bb_on_log a f b) = bb_inv b"
  by (rule bb_inv_cong) (simp_all add: bb_on_log_def)

lemma bb_inv_account: "bb_inv b \<Longrightarrow> bb_inv (with_account_id a b)"
proof -
  assume inv: "bb_inv b"
  let ?b = "b\<lparr>bb_current_account_id := Some a\<rparr>"
  have "open_slice (bb_push (Op_AccountId a) ?b) = open_slice b @ [Op_AccountId a]"
    using inv by (subst open_slice_push) (auto simp: bb_inv_def open_slice_def last_point_def split: if_splits)
  then have "bb_inv (bb_push (Op_AccountId a) ?b)"
    using inv by (auto simp: bb_inv_def ops_context_snoc last_point_def split: prod.splits)
  with inv show ?thesis by (simp add: with_account_id_def)
qed

lemma bb_inv_collection: "bb_inv b \<Longrightarrow> bb_inv (with_collection c b)"
proof -
  assume inv: "bb_inv b"
  let ?b = "b\<lparr>bb_current_collection := Some c\<rparr>"
  have "open_slice (bb_push (Op_Collection c) ?b) = open_slice b @ [Op_Collection c]"
    using inv by (subst open_slice_push) (auto simp: bb_inv_def open_slice_def last_point_def split: if_splits)
  then have "bb_inv (bb_push (Op_Collection c) ?b)"
    using inv by (auto simp: bb_inv_def ops_context_snoc last_point_def split: prod.splits)
  with inv show ?thesis by (simp add: with_collection_def)
qed

lemma bb_inv_document: "bb_inv b \<Longrightarrow> bb_inv (with_document d b)"
proof -
  assume inv: "bb_inv b"
  have "open_slice (with_document d b) = open_slice b @ [Op_DocumentId d]"
    using inv by (auto simp: bb_inv_def open_slice_def last_point_def with_document_def split: if_splits)
  then show ?thesis
    using inv by (auto simp: bb_inv_def ops_context_snoc last_point_def with_document_def split: prod.splits)
qed

lemma bb_inv_current: "bb_inv b \<Longrightarrow> bb_inv (bb_on_current f b)"
  by (simp add: bb_on_current_def split: option.split)

lemma bb_inv_serialize: "bb_inv b \<Longrightarrow> bb_inv (serialize_changes orders b)"
proof -
  assume inv: "bb_inv b"
  have sync: "bb_inv (write_sync_log orders a b e)" if "bb_inv b" for a b e
  proof -
    obtain c ch where e: "e = (c, ch)" by force
    let ?b = "b\<lparr>bb_changed_collections := vm_modify (bb_changed_collections b) a cc_default (mark_changed c ch)\<rparr>"
    have "bb_inv ?b = bb_inv b" by (rule bb_inv_cong) simp_all
    with that show ?thesis by (simp add: e write_sync_log_def bb_inv_push)
  qed
  have fold: "bb_inv (foldl g b es)" if "bb_inv b" "\<And>b e. bb_inv b \<Longrightarrow> bb_inv (g b e)" for g b es
    using that by (induction es arbitrary: b) simp_all
  have vanished: "bb_inv (write_vanished_log b e)" if "bb_inv b" for b e
    using that by (cases e) (simp add: write_vanished_log_def bb_inv_push)
  have account: "bb_inv (write_account_log orders b e)" if "bb_inv b" for b e
    using that by (cases e) (simp add: write_account_log_def fold sync vanished bb_inv_account)
  have "bb_inv (b\<lparr>bb_changes := vm_new\<rparr>) = bb_inv b" by (rule bb_inv_cong) simp_all
  with inv show ?thesis by (simp add: serialize_changes_def fold account)
qed

lemma sorted_le_last: "sorted xs \<Longrightarrow> x \<in> set xs \<Longrightarrow> x \<le> (last xs :: nat)"
  by (induction xs rule: rev_induct) (auto simp: sorted_append)

lemma bb_inv_commit: "bb_inv b \<Longrightarrow> bb_inv (commit_point orders b)"
proof (cases "is_large_batch b")
  case True
  assume "bb_inv b"
  then have inv: "bb_inv (serialize_changes orders b)" by (rule bb_inv_serialize)
  let ?s = "serialize_changes orders b"
  let ?c = "?s\<lparr>bb_commit_points := bb_commit_points ?s @ [length (bb_ops ?s)], bb_batch_ops := 0, bb_batch_size := 0\<rparr>"
  have points: "x \<le> length (bb_ops ?s)" if "x \<in> set (bb_commit_points ?s)" for x
    using sorted_le_last [of "bb_commit_points ?s" x] that inv by (auto simp: bb_inv_def last_point_def split: if_splits)
  have slice: "open_slice ?c = []" "last_point ?c = length (bb_ops ?c)" "sorted (bb_commit_points ?c)"
    using inv points by (simp_all add: open_slice_def last_point_def bb_inv_def sorted_append)
  let ?a = "case bb_current_account_id ?c of Some account_id \<Rightarrow> bb_push (Op_AccountId account_id) ?c | None \<Rightarrow> ?c"
  have a: "open_slice ?a = (case bb_current_account_id ?c of Some i \<Rightarrow> [Op_AccountId i] | None \<Rightarrow> [])"
    "last_point ?a \<le> length (bb_ops ?a)"
    using slice by (auto simp: open_slice_push last_point_def split: option.split)
  have "commit_point orders b
      = (case bb_current_collection ?a of Some collection \<Rightarrow> bb_push (Op_Collection collection) ?a | None \<Rightarrow> ?a)"
    using True by (simp add: commit_point_def Let_def)
  moreover have "bb_inv \<dots>"
    using a slice(3) open_slice_push [OF a(2)]
    by (auto simp: bb_inv_def ops_context_def last_point_def split: option.splits)
  ultimately show ?thesis by simp
qed (simp add: commit_point_def)

lemma bb_step_inv: "bb_step orders b b' \<Longrightarrow> bb_inv b \<Longrightarrow> bb_inv b'"
proof (induction rule: bb_step.induct)
  case (assertion b cls v)
  have "bb_inv (bb_assert_value cls v b) = bb_inv (bb_push (Op_AssertValue cls v) b)"
    by (rule bb_inv_cong) (simp_all add: bb_assert_value_def bb_count_def)
  with assertion show ?case by (simp add: bb_inv_push)
next
  case (share_notification b n a v)
  let ?b = "b\<lparr>bb_changed_collections := vm_modify (bb_changed_collections b) a cc_default
      (\<lambda>cc. cc\<lparr>cc_share_notification_id := Some n\<rparr>)\<rparr>"
  have "bb_inv ?b = bb_inv b" by (rule bb_inv_cong) simp_all
  with share_notification show ?case by (simp add: bb_log_share_notification_def bb_set_def bb_inv_push)
qed (simp_all add: bb_inv_account bb_inv_collection bb_inv_document bb_inv_commit bb_inv_current bb_inv_push
    bb_index_def bb_unindex_def bb_add_def bb_add_and_get_def bb_set_def bb_set_fnc_def bb_merge_fnc_def
    bb_clear_def bb_acl_grant_def bb_acl_revoke_def bb_any_op_def bb_log_item_insert_def bb_log_item_update_def
    bb_log_item_delete_def bb_log_container_insert_def bb_log_container_update_def bb_log_container_delete_def
    bb_log_container_property_change_def bb_log_vanished_item_def split: option.split)

lemma bb_reachable_inv: "bb_reachable orders b \<Longrightarrow> bb_inv b"
proof (induction rule: bb_reachable.induct)
  case start
  then show ?case by (simp add: bb_inv_def bb_new_def open_slice_def last_point_def ops_context_def)
next
  case (step b b')
  then show ?case using bb_step_inv by blast
qed

subsection \<open>Slices\<close>

lemma take_drop_join:
  assumes "p \<le> q" "q \<le> r"
  shows "take (q - p) (drop p xs) @ take (r - q) (drop q xs) = take (r - p) (drop p xs)"
proof -
  have "r - p = (q - p) + (r - q)" using assms by simp
  then show ?thesis using assms by (simp only: take_add drop_drop) simp
qed

lemma commit_ranges_slices:
  assumes "sorted (p # points)" "\<forall>x \<in> set points. x \<le> length xs"
  shows "concat (map (\<lambda>(s, e). take (e - s) (drop s xs)) (commit_ranges p points)) = take (last (p # points) - p) (drop p xs)
    \<and> (\<forall>(s, e) \<in> set (commit_ranges p points). s \<le> e \<and> e \<le> length xs)"
  using assms
proof (induction points arbitrary: p)
  case (Cons q points)
  have pq: "p \<le> q" and sorted: "sorted (q # points)" and le: "\<forall>x \<in> set points. x \<le> length xs"
    using Cons.prems by auto
  have "q \<le> last (q # points)" using sorted_le_last [OF sorted] by simp
  with Cons.IH [OF sorted le] take_drop_join [OF pq this, of xs] pq Cons.prems(2) show ?case by auto
qed simp

lemma write_account_log_fields:
  "bb_changes (write_account_log orders b e) = bb_changes b"
  "bb_current_account_id (write_account_log orders b e) = Some (fst e)"
proof -
  have fold: "f (foldl g b es) = f b" if "\<And>b e. f (g b e) = f b" for f :: "batch_builder \<Rightarrow> 'x" and g b es
    using that by (induction es arbitrary: b) simp_all
  have sync: "bb_changes (write_sync_log orders a b s) = bb_changes b"
    "bb_current_account_id (write_sync_log orders a b s) = bb_current_account_id b" for a b s
    by (simp_all add: write_sync_log_def split: prod.split)
  have vanished: "bb_changes (write_vanished_log b v) = bb_changes b"
    "bb_current_account_id (write_vanished_log b v) = bb_current_account_id b" for b v
    by (simp_all add: write_vanished_log_def split: prod.split)
  have account: "bb_changes (with_account_id a b) = bb_changes b" "bb_current_account_id (with_account_id a b) = Some a" for a b
    by (auto simp: with_account_id_def)
  show "bb_changes (write_account_log orders b e) = bb_changes b"
    "bb_current_account_id (write_account_log orders b e) = Some (fst e)"
    by (simp_all add: write_account_log_def fold sync vanished account split: prod.split)
qed

lemma serialize_changes_fields:
  "vm_is_empty (bb_changes (serialize_changes orders b))"
  "\<not> vm_is_empty (bb_changes b) \<Longrightarrow>
     bb_current_account_id (serialize_changes orders b) = Some (last (vm_keys (bb_changes b)))"
proof -
  have changes: "bb_changes (foldl (write_account_log orders) b es) = bb_changes b" for b es
    by (induction es arbitrary: b) (simp_all add: write_account_log_fields)
  have account: "es \<noteq> [] \<Longrightarrow> bb_current_account_id (foldl (write_account_log orders) b es) = Some (fst (last es))" for b es
    by (induction es rule: rev_induct) (simp_all add: write_account_log_fields)
  show "vm_is_empty (bb_changes (serialize_changes orders b))"
    by (simp add: serialize_changes_def changes vm_is_empty_def vm_new_def)
  assume ne: "\<not> vm_is_empty (bb_changes b)"
  then have "vm_iter (bb_changes b) \<noteq> []" by (simp add: vm_is_empty_def vm_iter_def)
  with ne show "bb_current_account_id (serialize_changes orders b) = Some (last (vm_keys (bb_changes b)))"
    by (simp add: serialize_changes_def account vm_keys_iter last_map)
qed

text \<open>
  C15: for every builder that calls can build, the account and the collection that the operations of
  the open slice select are the ones the builder takes to be current, and the document is the
  current one unless the slice has not selected any since its commit point. When the batch is
  finished the recorded changes are all written out, and the slices that commit on their own are
  within bounds and make up the operations, in order and without gap or overlap.
\<close>

theorem batch_slices_invariant:
  assumes "bb_reachable orders b"
  shows "(case ops_context (open_slice b) of (a, c, d) \<Rightarrow>
       a = bb_current_account_id b \<and> c = bb_current_collection b
       \<and> (d = None \<and> bb_commit_points b \<noteq> [] \<or> d = bb_current_document_id b))
    \<and> (case commit_points orders b of (ranges, b') \<Rightarrow>
         vm_is_empty (bb_changes b') \<and>
         (\<exists>slices. map (\<lambda>r. build_one r b') ranges = map Some slices \<and> concat (map wb_ops slices) = bb_ops b'))"
proof
  from bb_reachable_inv [OF assms]
  show "case ops_context (open_slice b) of (a, c, d) \<Rightarrow>
       a = bb_current_account_id b \<and> c = bb_current_collection b
       \<and> (d = None \<and> bb_commit_points b \<noteq> [] \<or> d = bb_current_document_id b)"
    by (simp add: bb_inv_def)
  let ?s = "serialize_changes orders b"
  let ?points = "bb_commit_points ?s @ [length (bb_ops ?s)]"
  have inv: "bb_inv ?s" using bb_inv_serialize [OF bb_reachable_inv [OF assms]] .
  then have "x \<le> length (bb_ops ?s)" if "x \<in> set (bb_commit_points ?s)" for x
    using sorted_le_last [of "bb_commit_points ?s" x] that by (auto simp: bb_inv_def last_point_def split: if_splits)
  then have "sorted (0 # ?points)" "\<forall>x \<in> set ?points. x \<le> length (bb_ops ?s)"
    using inv by (auto simp: bb_inv_def sorted_append)
  note slices = commit_ranges_slices [OF this]
  let ?slice = "\<lambda>(s, e). \<lparr>wb_changes = bb_changed_collections ?s, wb_ops = take (e - s) (drop s (bb_ops ?s))\<rparr>"
  have "map (\<lambda>r. build_one r (?s\<lparr>bb_commit_points := []\<rparr>)) (commit_ranges 0 ?points)
      = map Some (map ?slice (commit_ranges 0 ?points))"
    using slices by (auto simp: build_one_def)
  moreover have "concat (map wb_ops (map ?slice (commit_ranges 0 ?points))) = bb_ops ?s"
  proof -
    have "map wb_ops (map ?slice rs) = map (\<lambda>(s, e). take (e - s) (drop s (bb_ops ?s))) rs" for rs
      by (induction rs) auto
    then show ?thesis using slices by (simp only:) simp
  qed
  ultimately have "\<exists>slices. map (\<lambda>r. build_one r (?s\<lparr>bb_commit_points := []\<rparr>)) (commit_ranges 0 ?points)
      = map Some slices \<and> concat (map wb_ops slices) = bb_ops ?s" by blast
  then show "case commit_points orders b of (ranges, b') \<Rightarrow>
      vm_is_empty (bb_changes b') \<and>
      (\<exists>slices. map (\<lambda>r. build_one r b') ranges = map Some slices \<and> concat (map wb_ops slices) = bb_ops b')"
    using serialize_changes_fields(1) by (simp add: commit_points_def Let_def)
qed

theorem batch_slices_invariant_witness:
  "let orders = (sorted_list_of_set, sorted_list_of_set); b = with_account_id 7 bb_new
   in bb_reachable orders b \<and> (case ops_context (open_slice b) of (a, c, d) \<Rightarrow> a = Some 7 \<and> c = None)"
proof -
  let ?orders = "(sorted_list_of_set, sorted_list_of_set)" and ?b = "with_account_id 7 bb_new"
  have r: "bb_reachable ?orders ?b"
    by (rule bb_reachable.step [OF bb_reachable.start bb_step.account])
  have "bb_current_account_id ?b = Some 7" "bb_current_collection ?b = None"
    by (simp_all add: with_account_id_def bb_new_def)
  with r batch_slices_invariant [OF r] show ?thesis by (simp add: Let_def case_prod_beta)
qed

text \<open>
  C36: a commit point of a large batch leaves the account selected whose changes were written to the
  log last, not the one that was current: after it, operations go to that account unless the caller
  selects one again.
\<close>

theorem commit_point_selects_last_logged_account:
  assumes "is_large_batch b" "\<not> vm_is_empty (bb_changes b)"
  shows "bb_current_account_id (commit_point orders b) = Some (last (vm_keys (bb_changes b)))
    \<and> fst (ops_context (drop (last (bb_commit_points (commit_point orders b))) (bb_ops (commit_point orders b))))
        = Some (last (vm_keys (bb_changes b)))"
proof -
  let ?s = "serialize_changes orders b"
  have acc: "bb_current_account_id ?s = Some (last (vm_keys (bb_changes b)))"
    by (rule serialize_changes_fields(2) [OF assms(2)])
  show ?thesis
    using assms(1) acc by (auto simp: commit_point_def Let_def ops_context_def split: option.split)
qed

theorem commit_point_selects_last_logged_account_witness:
  "let orders = (sorted_list_of_set, sorted_list_of_set);
       b = with_account_id 1 (bb_log_item_update Sync_Email None (with_document 3 (with_account_id 2 bb_new)));
       b = b\<lparr>bb_batch_ops := 1001\<rparr>
   in bb_current_account_id b = Some 1 \<and> bb_current_account_id (commit_point orders b) = Some 2"
proof -
  let ?b = "(with_account_id 1 (bb_log_item_update Sync_Email None (with_document 3 (with_account_id 2 bb_new))))
      \<lparr>bb_batch_ops := 1001\<rparr>"
  have large: "is_large_batch ?b" by (simp add: is_large_batch_def)
  have keys: "bb_current_account_id ?b = Some 1" "vm_keys (bb_changes ?b) = [2]"
    by (simp_all add: with_account_id_def bb_log_item_update_def bb_on_current_def with_document_def bb_new_def
        bb_push_def bb_on_log_def vm_modify_def vm_get_mut_or_insert_with_def vm_new_def vm_keys_def)
  then have "\<not> vm_is_empty (bb_changes ?b)" by (auto simp: vm_is_empty_def vm_keys_def)
  from commit_point_selects_last_logged_account [OF large this, of "(sorted_list_of_set, sorted_list_of_set)"] keys
  show ?thesis by (simp add: Let_def)
qed

end
