(* ===== verification/StoreCommit.thy ===== *)
theory StoreCommit
  imports Batch
begin

text \<open>
  Committing a batch to the RocksDB store, \<open>crates/store/src/backend/rocksdb/write.rs\<close>, with the
  merge operator of \<open>main.rs\<close> and the point reads of \<open>read.rs\<close>. RocksDB itself is an argument: a
  record of the operations the code calls, with their documented behaviour as the hypothesis
  \<open>rocks_ok\<close>. The databases at the start and at the end of a transaction are separate arguments,
  since other writers may commit in between. Signed 64-bit numbers are words; overflow checks are
  switched off in the build, so their addition wraps.
\<close>

subsection \<open>Errors\<close>

datatype rocks_kind = RK_Busy | RK_MergeInProgress | RK_TryAgain | RK_Other

datatype store_error = SE_AssertValueFailed | SE_UnexpectedError | SE_DataCorruption | SE_FunctionFailed | SE_RocksdbError

text \<open>A key that cannot be serialised makes the code panic.\<close>

datatype commit_error = CE_Internal store_error | CE_RocksDB rocks_kind | CE_Panic

definition cbind :: "'e + 'a \<Rightarrow> ('a \<Rightarrow> 'e + 'b) \<Rightarrow> 'e + 'b" where
  "cbind r f = (case r of Inl e \<Rightarrow> Inl e | Inr x \<Rightarrow> f x)"

definition or_rocks :: "rocks_kind + 'a \<Rightarrow> commit_error + 'a" where
  "or_rocks r = (case r of Inl e \<Rightarrow> Inl (CE_RocksDB e) | Inr x \<Rightarrow> Inr x)"

definition or_else :: "commit_error \<Rightarrow> 'a option \<Rightarrow> commit_error + 'a" where
  "or_else e r = (case r of None \<Rightarrow> Inl e | Some x \<Rightarrow> Inr x)"

lemma cbind_Inr_iff: "cbind r f = Inr y \<longleftrightarrow> (\<exists>x. r = Inr x \<and> f x = Inr y)"
  by (auto simp: cbind_def split: sum.splits)

lemma or_rocks_Inr_iff: "or_rocks r = Inr y \<longleftrightarrow> r = Inr y"
  by (auto simp: or_rocks_def split: sum.splits)

lemma or_else_Inr_iff: "or_else e r = Inr y \<longleftrightarrow> r = Some y"
  by (auto simp: or_else_def split: option.splits)

lemmas result_iffs = cbind_Inr_iff or_rocks_Inr_iff or_else_Inr_iff

lemma cbind_simps [simp]: "cbind (Inl e) f = Inl e" "cbind (Inr x) f = f x"
  by (simp_all add: cbind_def)

lemma cbind_assoc: "cbind (cbind r f) g = cbind r (\<lambda>x. cbind (f x) g)"
  by (simp add: cbind_def split: sum.splits)

lemma or_simps [simp]: "or_rocks (Inr x) = Inr x" "or_rocks (Inl k) = Inl (CE_RocksDB k)"
  "or_else e (Some x) = Inr x" "or_else e None = Inl e"
  by (simp_all add: or_rocks_def or_else_def)

subsection \<open>RocksDB\<close>

text \<open>
  The operations that the code calls. A transaction reads for update, writes, deletes and merges
  keys of column families, each named by the byte of its subspace; it is committed against the
  database as it is by then.
\<close>

record ('db, 't) rocks =
  rx_begin :: "'db \<Rightarrow> 't"
  rx_get :: "'t \<Rightarrow> u8 \<Rightarrow> bytes \<Rightarrow> rocks_kind + bytes option \<times> 't"
  rx_put :: "'t \<Rightarrow> u8 \<Rightarrow> bytes \<Rightarrow> bytes \<Rightarrow> rocks_kind + 't"
  rx_delete :: "'t \<Rightarrow> u8 \<Rightarrow> bytes \<Rightarrow> rocks_kind + 't"
  rx_merge :: "'t \<Rightarrow> u8 \<Rightarrow> bytes \<Rightarrow> bytes \<Rightarrow> rocks_kind + 't"
  rx_commit :: "'db \<Rightarrow> 't \<Rightarrow> rocks_kind + 'db"

definition from_le_bytes :: "bytes \<Rightarrow> u64 option" where
  "from_le_bytes bs = (if length bs = 8 then Some (from_be_bytes (rev bs)) else None)"

definition deserialize_i64_le :: "bytes \<Rightarrow> commit_error + u64" where
  "deserialize_i64_le bs = or_else (CE_Internal SE_DataCorruption) (from_le_bytes bs)"

fun merge_operands :: "u64 \<Rightarrow> bytes list \<Rightarrow> u64 option" where
  "merge_operands v [] = Some v"
| "merge_operands v (op # ops) = (case from_le_bytes op of Some n \<Rightarrow> merge_operands (v + n) ops | None \<Rightarrow> None)"

definition numeric_value_merge :: "bytes option \<Rightarrow> bytes list \<Rightarrow> bytes option" where
  "numeric_value_merge v operands =
     do {
       v \<leftarrow> (case v of Some bs \<Rightarrow> from_le_bytes bs | None \<Rightarrow> Some 0);
       v \<leftarrow> merge_operands v operands;
       Some (to_le_bytes v)
     }"

text \<open>
  What a key holds: nothing, a value, or a value that cannot be read because the merge operator
  rejected it.
\<close>

datatype cell = Absent | Present bytes | Corrupt

type_synonym kv = "u8 \<Rightarrow> bytes \<Rightarrow> cell"

definition kv_put :: "u8 \<Rightarrow> bytes \<Rightarrow> cell \<Rightarrow> kv \<Rightarrow> kv" where
  "kv_put cf k c m = m(cf := (m cf)(k := c))"

fun cell_get :: "cell \<Rightarrow> rocks_kind + bytes option" where
  "cell_get Absent = Inr None"
| "cell_get (Present v) = Inr (Some v)"
| "cell_get Corrupt = Inl RK_Other"

fun cell_merge :: "cell \<Rightarrow> bytes \<Rightarrow> cell" where
  "cell_merge Corrupt op = Corrupt"
| "cell_merge Absent op = (case numeric_value_merge None [op] of Some v \<Rightarrow> Present v | None \<Rightarrow> Corrupt)"
| "cell_merge (Present v) op = (case numeric_value_merge (Some v) [op] of Some v' \<Rightarrow> Present v' | None \<Rightarrow> Corrupt)"

text \<open>
  A transaction as an observer sees it: the snapshot it was begun on, what it reads now, and the
  keys it has read for update or written.
\<close>

record txn_view =
  tv_snapshot :: kv
  tv_current :: kv
  tv_tracked :: "(u8 \<times> bytes) list"

definition tv_touch :: "u8 \<Rightarrow> bytes \<Rightarrow> txn_view \<Rightarrow> txn_view" where
  "tv_touch cf k t = t\<lparr>tv_tracked := (cf, k) # tv_tracked t\<rparr>"

definition tv_write :: "u8 \<Rightarrow> bytes \<Rightarrow> cell \<Rightarrow> txn_view \<Rightarrow> txn_view" where
  "tv_write cf k c t = tv_touch cf k (t\<lparr>tv_current := kv_put cf k c (tv_current t)\<rparr>)"

text \<open>The database after a commit: the tracked keys as the transaction left them, all others untouched.\<close>

definition kv_install :: "txn_view \<Rightarrow> kv \<Rightarrow> kv" where
  "kv_install t m = (\<lambda>cf k. if (cf, k) \<in> set (tv_tracked t) then tv_current t cf k else m cf k)"

definition tv_unchanged :: "txn_view \<Rightarrow> kv \<Rightarrow> bool" where
  "tv_unchanged t m \<longleftrightarrow> list_all (\<lambda>(cf, k). m cf k = tv_snapshot t cf k) (tv_tracked t)"

text \<open>
  What is documented of optimistic transactions with a snapshot. Every operation may fail; when it
  does not, a transaction reads its own writes over its snapshot, and it commits only if no tracked
  key was changed since the snapshot.
\<close>

definition rocks_ok :: "('db, 't) rocks \<Rightarrow> ('db \<Rightarrow> kv) \<Rightarrow> ('t \<Rightarrow> txn_view) \<Rightarrow> bool" where
  "rocks_ok rx stored view \<longleftrightarrow>
     (\<forall>db. view (rx_begin rx db) = \<lparr>tv_snapshot = stored db, tv_current = stored db, tv_tracked = []\<rparr>)
   \<and> (\<forall>t cf k v t'. rx_get rx t cf k = Inr (v, t') \<longrightarrow>
        cell_get (tv_current (view t) cf k) = Inr v \<and> view t' = tv_touch cf k (view t))
   \<and> (\<forall>t cf k v t'. rx_put rx t cf k v = Inr t' \<longrightarrow> view t' = tv_write cf k (Present v) (view t))
   \<and> (\<forall>t cf k t'. rx_delete rx t cf k = Inr t' \<longrightarrow> view t' = tv_write cf k Absent (view t))
   \<and> (\<forall>t cf k v t'. rx_merge rx t cf k v = Inr t' \<longrightarrow>
        view t' = tv_write cf k (cell_merge (tv_current (view t) cf k) v) (view t))
   \<and> (\<forall>db t db'. rx_commit rx db t = Inr db' \<longrightarrow>
        tv_unchanged (view t) (stored db) \<and> stored db' = kv_install (view t) (stored db))"

subsection \<open>The transaction\<close>

record commit_state =
  cs_account_id :: u32
  cs_collection :: u8
  cs_document_id :: u32
  cs_change_id :: u64
  cs_result :: assigned_ids

definition cs_start :: "assigned_ids \<Rightarrow> commit_state" where
  "cs_start result = \<lparr>cs_account_id = 0xFFFFFFFF, cs_collection = 0xFF, cs_document_id = 0xFFFFFFFF,
     cs_change_id = 0, cs_result = result\<rparr>"

definition change_id_key :: "u32 \<Rightarrow> commit_error + bytes" where
  "change_id_key account_id = or_else CE_Panic (vc_serialize VC_ChangeId account_id 0 0 0)"

fun assign_change_ids :: "('db, 't) rocks \<Rightarrow> u32 list \<Rightarrow> 't \<times> assigned_ids \<Rightarrow> commit_error + 't \<times> assigned_ids" where
  "assign_change_ids rx [] (t, result) = Inr (t, result)"
| "assign_change_ids rx (account_id # accounts) (t, result) =
     cbind (change_id_key account_id) (\<lambda>key.
     cbind (or_rocks (rx_get rx t SUBSPACE_COUNTER key)) (\<lambda>(v, t).
     cbind (case v of Some bs \<Rightarrow> cbind (deserialize_i64_le bs) (\<lambda>v. Inr (v + 1)) | None \<Rightarrow> Inr 1) (\<lambda>change_id.
     cbind (or_rocks (rx_put rx t SUBSPACE_COUNTER key (to_le_bytes change_id))) (\<lambda>t.
       assign_change_ids rx accounts (t, push_change_id account_id change_id result)))))"

definition class_key :: "value_class \<Rightarrow> commit_state \<Rightarrow> commit_error + bytes" where
  "class_key cls s =
     or_else CE_Panic (vc_serialize cls (cs_account_id s) (cs_collection s) (cs_document_id s) 0)"

fun exec_value_op ::
  "('db, 't) rocks \<Rightarrow> u8 \<Rightarrow> bytes \<Rightarrow> value_op \<Rightarrow> 't \<times> assigned_ids \<Rightarrow> commit_error + 't \<times> assigned_ids" where
  "exec_value_op rx cf key (VO_Set v) (t, result) =
     cbind (or_rocks (rx_put rx t cf key v)) (\<lambda>t. Inr (t, result))"
| "exec_value_op rx cf key (VO_SetFnc f params) (t, result) =
     cbind (or_else (CE_Internal SE_FunctionFailed) (f params result)) (\<lambda>v.
     cbind (or_rocks (rx_put rx t cf key v)) (\<lambda>t. Inr (t, result)))"
| "exec_value_op rx cf key (VO_MergeFnc f params) (t, result) =
     cbind (or_rocks (rx_get rx t cf key)) (\<lambda>(old, t).
     cbind (or_else (CE_Internal SE_FunctionFailed) (f params result old)) (\<lambda>m.
       case m of
         MR_Update v \<Rightarrow> cbind (or_rocks (rx_put rx t cf key v)) (\<lambda>t. Inr (t, result))
       | MR_Delete \<Rightarrow> cbind (or_rocks (rx_delete rx t cf key)) (\<lambda>t. Inr (t, result))
       | MR_Skip \<Rightarrow> Inr (t, result)))"
| "exec_value_op rx cf key (VO_AtomicAdd by) (t, result) =
     cbind (or_rocks (rx_merge rx t cf key (to_le_bytes (word_of_int by :: u64)))) (\<lambda>t. Inr (t, result))"
| "exec_value_op rx cf key (VO_AddAndGet by) (t, result) =
     cbind (or_rocks (rx_get rx t cf key)) (\<lambda>(old, t).
     cbind (case old of
          Some bs \<Rightarrow> cbind (deserialize_i64_le bs) (\<lambda>v. Inr (v + word_of_int by))
        | None \<Rightarrow> Inr (word_of_int by)) (\<lambda>num.
     cbind (or_rocks (rx_put rx t cf key (to_le_bytes num))) (\<lambda>t.
       Inr (t, push_counter_id (sint num) result))))"
| "exec_value_op rx cf key VO_Clear (t, result) =
     cbind (or_rocks (rx_delete rx t cf key)) (\<lambda>t. Inr (t, result))"

text \<open>One operation of the batch; \<open>with_ids\<close> says whether change ids were assigned.\<close>

fun exec_op :: "('db, 't) rocks \<Rightarrow> bool \<Rightarrow> operation \<Rightarrow> 't \<times> commit_state \<Rightarrow> commit_error + 't \<times> commit_state" where
  "exec_op rx with_ids (Op_AccountId account_id) (t, s) =
     (if with_ids
      then cbind (or_else (CE_Internal SE_UnexpectedError) (set_current_change_id account_id (cs_result s)))
        (\<lambda>(change_id, result).
           Inr (t, s\<lparr>cs_account_id := account_id, cs_change_id := change_id, cs_result := result\<rparr>))
      else Inr (t, s\<lparr>cs_account_id := account_id\<rparr>))"
| "exec_op rx with_ids (Op_Collection coll) (t, s) = Inr (t, s\<lparr>cs_collection := collection_to_u8 coll\<rparr>)"
| "exec_op rx with_ids (Op_DocumentId document_id) (t, s) = Inr (t, s\<lparr>cs_document_id := document_id\<rparr>)"
| "exec_op rx with_ids (Op_Value cls vop) (t, s) =
     cbind (class_key cls s) (\<lambda>key.
     cbind (exec_value_op rx (vc_subspace cls (cs_collection s)) key vop (t, cs_result s)) (\<lambda>(t, result).
       Inr (t, s\<lparr>cs_result := result\<rparr>)))"
| "exec_op rx with_ids (Op_Index field key is_set) (t, s) =
     (let key = index_key_serialize \<lparr>ik_account_id = cs_account_id s, ik_collection = cs_collection s,
            ik_document_id = cs_document_id s, ik_field = field, ik_key = key\<rparr> 0
      in cbind (or_rocks (if is_set then rx_put rx t SUBSPACE_INDEXES key [] else rx_delete rx t SUBSPACE_INDEXES key))
           (\<lambda>t. Inr (t, s)))"
| "exec_op rx with_ids (Op_Log coll bs) (t, s) =
     (let key = log_key_serialize \<lparr>lk_account_id = cs_account_id s, lk_collection = log_collection_u8 coll,
            lk_change_id = cs_change_id s\<rparr> 0
      in cbind (or_rocks (rx_put rx t SUBSPACE_LOGS key bs)) (\<lambda>t. Inr (t, s)))"
| "exec_op rx with_ids (Op_AssertValue cls assert_value) (t, s) =
     cbind (class_key cls s) (\<lambda>key.
     cbind (or_rocks (rx_get rx t (vc_subspace cls (cs_collection s)) key)) (\<lambda>(v, t).
       let matches = (case v of Some v \<Rightarrow> assert_matches assert_value v | None \<Rightarrow> assert_is_none assert_value)
       in if \<not> matches then Inl (CE_Internal SE_AssertValueFailed) else Inr (t, s)))"

fun exec_ops :: "('db, 't) rocks \<Rightarrow> bool \<Rightarrow> operation list \<Rightarrow> 't \<times> commit_state \<Rightarrow> commit_error + 't \<times> commit_state" where
  "exec_ops rx with_ids [] ts = Inr ts"
| "exec_ops rx with_ids (op # ops) ts = cbind (exec_op rx with_ids op ts) (exec_ops rx with_ids ops)"

text \<open>
  The commit of a batch on a transaction begun on one database and committed against a possibly later
  one. On an error the transaction is dropped or rolled back, and there is no new database.
\<close>

definition txn_commit :: "('db, 't) rocks \<Rightarrow> 'db \<Rightarrow> 'db \<Rightarrow> write_batch \<Rightarrow> commit_error + assigned_ids \<times> 'db" where
  "txn_commit rx db_begin db_commit batch =
     (let with_ids = (\<not> vm_is_empty (wb_changes batch));
          t = rx_begin rx db_begin
      in cbind (if with_ids then assign_change_ids rx (vm_keys (wb_changes batch)) (t, assigned_ids_default)
                else Inr (t, assigned_ids_default)) (\<lambda>(t, result).
         cbind (exec_ops rx with_ids (wb_ops batch) (t, cs_start result)) (\<lambda>(t, s).
         cbind (or_rocks (rx_commit rx db_commit t)) (\<lambda>db. Inr (cs_result s, db)))))"

subsection \<open>The plain store\<close>

text \<open>
  The store as a map, with transactions that see their own writes. Committing on it, with nobody else
  writing, is the specification of a commit.
\<close>

definition map_rocks :: "(kv, txn_view) rocks" where
  "map_rocks = \<lparr>
     rx_begin = (\<lambda>m. \<lparr>tv_snapshot = m, tv_current = m, tv_tracked = []\<rparr>),
     rx_get = (\<lambda>t cf k. case cell_get (tv_current t cf k) of Inr v \<Rightarrow> Inr (v, tv_touch cf k t) | Inl e \<Rightarrow> Inl e),
     rx_put = (\<lambda>t cf k v. Inr (tv_write cf k (Present v) t)),
     rx_delete = (\<lambda>t cf k. Inr (tv_write cf k Absent t)),
     rx_merge = (\<lambda>t cf k v. Inr (tv_write cf k (cell_merge (tv_current t cf k) v) t)),
     rx_commit = (\<lambda>m t. if tv_unchanged t m then Inr (kv_install t m) else Inl RK_Busy)\<rparr>"

definition store_commit :: "write_batch \<Rightarrow> kv \<Rightarrow> commit_error + assigned_ids \<times> kv" where
  "store_commit batch m = txn_commit map_rocks m m batch"

lemma map_rocks_simps [simp]:
  "rx_begin map_rocks m = \<lparr>tv_snapshot = m, tv_current = m, tv_tracked = []\<rparr>"
  "rx_put map_rocks t cf k v = Inr (tv_write cf k (Present v) t)"
  "rx_delete map_rocks t cf k = Inr (tv_write cf k Absent t)"
  "rx_merge map_rocks t cf k v = Inr (tv_write cf k (cell_merge (tv_current t cf k) v) t)"
  by (simp_all add: map_rocks_def)

lemma map_rocks_get: "rx_get map_rocks t cf k =
    (case cell_get (tv_current t cf k) of Inr v \<Rightarrow> Inr (v, tv_touch cf k t) | Inl e \<Rightarrow> Inl e)"
  by (simp add: map_rocks_def)

lemma map_rocks_commit: "rx_commit map_rocks m t = (if tv_unchanged t m then Inr (kv_install t m) else Inl RK_Busy)"
  by (simp add: map_rocks_def)

lemma tv_write_simps [simp]:
  "tv_tracked (tv_write cf k c t) = (cf, k) # tv_tracked t"
  "tv_snapshot (tv_write cf k c t) = tv_snapshot t"
  "tv_current (tv_write cf k c t) = kv_put cf k c (tv_current t)"
  "tv_tracked (tv_touch cf k t) = (cf, k) # tv_tracked t"
  "tv_snapshot (tv_touch cf k t) = tv_snapshot t"
  "tv_current (tv_touch cf k t) = tv_current t"
  by (simp_all add: tv_write_def tv_touch_def)

lemma kv_put_apply: "kv_put cf k c m cf' k' = (if cf' = cf \<and> k' = k then c else m cf' k')"
  by (simp add: kv_put_def)

text \<open>Optimistic transactions, as far as the code relies on them.\<close>

locale rocks_txn =
  fixes rx :: "('db, 't) rocks" and stored :: "'db \<Rightarrow> kv" and view :: "'t \<Rightarrow> txn_view"
  assumes ok: "rocks_ok rx stored view"
begin

lemma begin_view: "view (rx_begin rx db) = \<lparr>tv_snapshot = stored db, tv_current = stored db, tv_tracked = []\<rparr>"
  using ok by (simp add: rocks_ok_def)

lemma get_view: "rx_get rx t cf k = Inr (v, t') \<Longrightarrow>
    cell_get (tv_current (view t) cf k) = Inr v \<and> view t' = tv_touch cf k (view t)"
  using ok unfolding rocks_ok_def by (elim conjE) simp

lemma put_view: "rx_put rx t cf k v = Inr t' \<Longrightarrow> view t' = tv_write cf k (Present v) (view t)"
  using ok unfolding rocks_ok_def by blast

lemma delete_view: "rx_delete rx t cf k = Inr t' \<Longrightarrow> view t' = tv_write cf k Absent (view t)"
  using ok unfolding rocks_ok_def by blast

lemma merge_view: "rx_merge rx t cf k v = Inr t' \<Longrightarrow>
    view t' = tv_write cf k (cell_merge (tv_current (view t) cf k) v) (view t)"
  using ok unfolding rocks_ok_def by blast

lemma commit_view: "rx_commit rx db t = Inr db' \<Longrightarrow>
    tv_unchanged (view t) (stored db) \<and> stored db' = kv_install (view t) (stored db)"
  using ok unfolding rocks_ok_def by blast

text \<open>
  A transaction and one of the plain store that have tracked the same keys and read the same under
  the keys of a set, and the steps that keep it so. A step is followed for the keys that the
  transaction has tracked at its end.
\<close>

definition agree :: "(u8 \<times> bytes) set \<Rightarrow> 't \<Rightarrow> txn_view \<Rightarrow> bool" where
  "agree K t u \<longleftrightarrow> tv_tracked (view t) = tv_tracked u
     \<and> (\<forall>(cf, k) \<in> K. tv_current (view t) cf k = tv_current u cf k)"

definition extends :: "txn_view \<Rightarrow> txn_view \<Rightarrow> bool" where
  "extends u u' \<longleftrightarrow> tv_snapshot u' = tv_snapshot u \<and> set (tv_tracked u) \<subseteq> set (tv_tracked u')"

definition follows :: "('t \<Rightarrow> 'e + 't \<times> 'x) \<Rightarrow> (txn_view \<Rightarrow> 'e + txn_view \<times> 'x) \<Rightarrow> bool" where
  "follows f g \<longleftrightarrow> (\<forall>t t' x. f t = Inr (t', x) \<longrightarrow>
     extends (view t) (view t')
     \<and> (\<forall>K u. set (tv_tracked (view t')) \<subseteq> K \<longrightarrow> agree K t u \<longrightarrow>
          (\<exists>u'. g u = Inr (u', x) \<and> extends u u' \<and> agree K t' u')))"

lemma extends_trans: "extends u v \<Longrightarrow> extends v w \<Longrightarrow> extends u w"
  by (auto simp: extends_def)

lemma followsI:
  assumes "\<And>t t' x. f t = Inr (t', x) \<Longrightarrow> extends (view t) (view t')"
    and "\<And>t t' x K u. f t = Inr (t', x) \<Longrightarrow> set (tv_tracked (view t')) \<subseteq> K \<Longrightarrow> agree K t u \<Longrightarrow>
      \<exists>u'. g u = Inr (u', x) \<and> extends u u' \<and> agree K t' u'"
  shows "follows f g"
  using assms by (simp add: follows_def)

lemma follows_extends: "follows f g \<Longrightarrow> f t = Inr (t', x) \<Longrightarrow> extends (view t) (view t')"
  by (simp add: follows_def)

lemma follows_simulates: "follows f g \<Longrightarrow> f t = Inr (t', x) \<Longrightarrow> set (tv_tracked (view t')) \<subseteq> K \<Longrightarrow> agree K t u \<Longrightarrow>
    \<exists>u'. g u = Inr (u', x) \<and> extends u u' \<and> agree K t' u'"
  by (simp add: follows_def)

lemma follows_return: "follows (\<lambda>t. Inr (t, x)) (\<lambda>t. Inr (t, x))"
  by (simp add: follows_def extends_def)

lemma follows_fail: "follows (\<lambda>t. Inl e) g"
  by (simp add: follows_def)

lemma follows_bind:
  assumes "follows f g" "\<And>x. follows (\<lambda>t. f' (t, x)) (\<lambda>t. g' (t, x))"
  shows "follows (\<lambda>t. cbind (f t) f') (\<lambda>u. cbind (g u) g')"
proof (rule followsI)
  fix t t' x assume "cbind (f t) f' = Inr (t', x)"
  then obtain t1 y where "f t = Inr (t1, y)" "f' (t1, y) = Inr (t', x)" by (auto simp: cbind_Inr_iff)
  then show "extends (view t) (view t')"
    by (rule extends_trans [OF follows_extends [OF assms(1)] follows_extends [OF assms(2)]])
next
  fix t t' x K u assume a: "cbind (f t) f' = Inr (t', x)" "set (tv_tracked (view t')) \<subseteq> K" "agree K t u"
  then obtain t1 y where s: "f t = Inr (t1, y)" "f' (t1, y) = Inr (t', x)" by (auto simp: cbind_Inr_iff)
  have "set (tv_tracked (view t1)) \<subseteq> K"
    using follows_extends [OF assms(2) s(2)] a(2) by (auto simp: extends_def)
  then obtain u1 where "g u = Inr (u1, y)" "extends u u1" "agree K t1 u1"
    using follows_simulates [OF assms(1) s(1) _ a(3)] by blast
  moreover from this(3) obtain u' where "g' (u1, y) = Inr (u', x)" "extends u1 u'" "agree K t' u'"
    using follows_simulates [OF assms(2) s(2) a(2)] by blast
  ultimately show "\<exists>u'. cbind (g u) g' = Inr (u', x) \<and> extends u u' \<and> agree K t' u'"
    by (auto intro: extends_trans)
qed

lemma follows_step:
  assumes "\<And>t t'. step t = Inr t' \<Longrightarrow> \<exists>c. view t' = tv_write cf k (c (tv_current (view t) cf k)) (view t)
      \<and> (\<forall>u. step' u = Inr (tv_write cf k (c (tv_current u cf k)) u))"
    and "follows f g"
  shows "follows (\<lambda>t. cbind (or_rocks (step t)) f) (\<lambda>u. cbind (or_rocks (step' u)) g)"
proof -
  have "follows (\<lambda>t. cbind (or_rocks (step t)) (\<lambda>t. Inr (t, ()))) (\<lambda>u. cbind (or_rocks (step' u)) (\<lambda>u. Inr (u, ())))"
  proof (rule followsI)
    fix t t' x assume "cbind (or_rocks (step t)) (\<lambda>t. Inr (t, ())) = Inr (t', x)"
    then show "extends (view t) (view t')"
      by (auto simp: result_iffs extends_def dest!: assms(1))
  next
    fix t t' x K u
    assume a: "cbind (or_rocks (step t)) (\<lambda>t. Inr (t, ())) = Inr (t', x)" "set (tv_tracked (view t')) \<subseteq> K" "agree K t u"
    then obtain c where c: "view t' = tv_write cf k (c (tv_current (view t) cf k)) (view t)"
      "step' u = Inr (tv_write cf k (c (tv_current u cf k)) u)"
      by (auto simp: result_iffs dest!: assms(1))
    have "tv_current (view t) cf k = tv_current u cf k" using a(2,3) c(1) by (auto simp: agree_def)
    then show "\<exists>u'. cbind (or_rocks (step' u)) (\<lambda>u. Inr (u, ())) = Inr (u', x) \<and> extends u u' \<and> agree K t' u'"
      using a c by (auto simp: agree_def extends_def kv_put_apply)
  qed
  from follows_bind [OF this, of "\<lambda>(t, x). f t" "\<lambda>(t, x). g t"] assms(2)
  show ?thesis by (simp add: cbind_assoc)
qed

lemma follows_put:
  "follows f g \<Longrightarrow> follows (\<lambda>t. cbind (or_rocks (rx_put rx t cf k v)) f)
     (\<lambda>u. cbind (or_rocks (rx_put map_rocks u cf k v)) g)"
  by (rule follows_step [where cf = cf and k = k]) (auto dest!: put_view)

lemma follows_delete:
  "follows f g \<Longrightarrow> follows (\<lambda>t. cbind (or_rocks (rx_delete rx t cf k)) f)
     (\<lambda>u. cbind (or_rocks (rx_delete map_rocks u cf k)) g)"
  by (rule follows_step [where cf = cf and k = k]) (auto dest!: delete_view)

lemma follows_merge:
  "follows f g \<Longrightarrow> follows (\<lambda>t. cbind (or_rocks (rx_merge rx t cf k v)) f)
     (\<lambda>u. cbind (or_rocks (rx_merge map_rocks u cf k v)) g)"
  by (rule follows_step [where cf = cf and k = k]) (auto dest!: merge_view)

lemma follows_get:
  assumes "\<And>v. follows (f v) (g v)"
  shows "follows (\<lambda>t. cbind (or_rocks (rx_get rx t cf k)) (\<lambda>(v, t). f v t))
     (\<lambda>u. cbind (or_rocks (rx_get map_rocks u cf k)) (\<lambda>(v, u). g v u))"
proof -
  have "follows (\<lambda>t. cbind (or_rocks (rx_get rx t cf k)) (\<lambda>(v, t). Inr (t, v)))
    (\<lambda>t. cbind (or_rocks (rx_get map_rocks t cf k)) (\<lambda>(v, t). Inr (t, v)))"
  proof (rule followsI)
    fix t t' v assume "cbind (or_rocks (rx_get rx t cf k)) (\<lambda>(v, t). Inr (t, v)) = Inr (t', v)"
    then have g: "rx_get rx t cf k = Inr (v, t')" by (auto simp: result_iffs)
    show "extends (view t) (view t')" using get_view [OF g] by (auto simp: extends_def)
    fix K u assume a: "set (tv_tracked (view t')) \<subseteq> K" "agree K t u"
    then have "tv_current u cf k = tv_current (view t) cf k"
      using get_view [OF g] by (auto simp: agree_def)
    then show "\<exists>u'. cbind (or_rocks (rx_get map_rocks u cf k)) (\<lambda>(v, t). Inr (t, v)) = Inr (u', v)
        \<and> extends u u' \<and> agree K t' u'"
      using a get_view [OF g] by (auto simp: map_rocks_get extends_def agree_def)
  qed
  from follows_bind [OF this, of "\<lambda>(t, v). f v t" "\<lambda>(t, v). g v t"] assms
  show ?thesis by (simp add: cbind_assoc case_prod_unfold)
qed

lemma follows_pure: "(\<And>x. r = Inr x \<Longrightarrow> follows (f x) (g x)) \<Longrightarrow> follows (\<lambda>t. cbind r (\<lambda>x. f x t)) (\<lambda>u. cbind r (\<lambda>x. g x u))"
  by (cases r) (simp_all add: follows_fail)

lemma follows_merge_result:
  assumes "\<And>v. follows (f1 v) (g1 v)" "follows f2 g2" "follows f3 g3"
  shows "follows (\<lambda>t. case m of MR_Update v \<Rightarrow> f1 v t | MR_Skip \<Rightarrow> f2 t | MR_Delete \<Rightarrow> f3 t)
    (\<lambda>t. case m of MR_Update v \<Rightarrow> g1 v t | MR_Skip \<Rightarrow> g2 t | MR_Delete \<Rightarrow> g3 t)"
  using assms by (cases m) simp_all

lemma follows_if:
  assumes "b \<Longrightarrow> follows f1 g1" "\<not> b \<Longrightarrow> follows f2 g2"
  shows "follows (\<lambda>t. if b then f1 t else f2 t) (\<lambda>t. if b then g1 t else g2 t)"
  using assms by (cases b) simp_all

lemmas follows_rules = follows_if follows_merge_result follows_put follows_delete follows_merge follows_get follows_pure follows_return follows_fail

lemma assign_follows: "follows (\<lambda>t. assign_change_ids rx accounts (t, result)) (\<lambda>u. assign_change_ids map_rocks accounts (u, result))"
  by (induction accounts arbitrary: result) (auto simp del: map_rocks_simps intro!: follows_rules)

lemma exec_value_op_follows:
  "follows (\<lambda>t. exec_value_op rx cf key vop (t, result)) (\<lambda>u. exec_value_op map_rocks cf key vop (u, result))"
  by (cases vop) (auto simp del: map_rocks_simps intro!: follows_rules)

lemma exec_op_follows: "follows (\<lambda>t. exec_op rx with_ids op (t, s)) (\<lambda>u. exec_op map_rocks with_ids op (u, s))"
proof (cases op)
  case (Op_Value cls vop)
  then show ?thesis
    by (auto simp del: map_rocks_simps intro!: follows_pure follows_bind exec_value_op_follows follows_return)
next
  case (Op_Index field key is_set)
  then show ?thesis
    by (cases is_set) (auto simp del: map_rocks_simps simp: Let_def intro!: follows_rules)
next
  case (Op_AccountId a)
  then show ?thesis
    by (auto simp del: map_rocks_simps simp: case_prod_unfold intro!: follows_rules)
qed (auto simp del: map_rocks_simps simp: Let_def intro!: follows_rules)

lemma exec_ops_follows:
  "follows (\<lambda>t. exec_ops rx with_ids ops (t, s)) (\<lambda>u. exec_ops map_rocks with_ids ops (u, s))"
  by (induction ops arbitrary: s) (auto intro!: follows_return follows_bind exec_op_follows)

lemma commit_is_serial:
  assumes "txn_commit rx db_begin db_commit batch = Inr (ids, db')"
  shows "store_commit batch (stored db_commit) = Inr (ids, stored db')"
proof -
  let ?with_ids = "\<not> vm_is_empty (wb_changes batch)" and ?accounts = "vm_keys (wb_changes batch)"
  let ?start = "\<lambda>rx t. if ?with_ids then assign_change_ids rx ?accounts (t, assigned_ids_default) else Inr (t, assigned_ids_default)"
  let ?run = "\<lambda>rx t. cbind (?start rx t) (\<lambda>(t, result). exec_ops rx ?with_ids (wb_ops batch) (t, cs_start result))"
  have run: "follows (?run rx) (?run map_rocks)"
    by (intro follows_bind follows_if assign_follows follows_return) (simp add: exec_ops_follows)
  obtain t s where t: "?run rx (rx_begin rx db_begin) = Inr (t, s)" "ids = cs_result s" "rx_commit rx db_commit t = Inr db'"
    using assms by (auto simp: txn_commit_def Let_def result_iffs simp del: map_rocks_simps split: if_splits)
  have same: "stored db_commit cf k = stored db_begin cf k" if "(cf, k) \<in> set (tv_tracked (view t))" for cf k
    using commit_view [OF t(3)] follows_extends [OF run t(1)] that
    by (auto simp: tv_unchanged_def extends_def begin_view list_all_iff)
  then have "agree (set (tv_tracked (view t))) (rx_begin rx db_begin) (rx_begin map_rocks (stored db_commit))"
    by (auto simp: agree_def begin_view)
  from follows_simulates [OF run t(1) subset_refl this]
  obtain u where u: "?run map_rocks (rx_begin map_rocks (stored db_commit)) = Inr (u, s)"
    "extends (rx_begin map_rocks (stored db_commit)) u" "agree (set (tv_tracked (view t))) t u" by blast
  have "kv_install u m = kv_install (view t) m" for m
    using u(3) by (fastforce simp: kv_install_def agree_def fun_eq_iff)
  with u(2) have "rx_commit map_rocks (stored db_commit) u = Inr (stored db')"
    using commit_view [OF t(3)]
    by (auto simp: map_rocks_commit tv_unchanged_def extends_def list_all_iff)
  with u(1) t(2) show ?thesis
    by (auto simp: store_commit_def txn_commit_def Let_def result_iffs simp del: map_rocks_simps split: if_splits)
qed

end

lemma map_rocks_ok: "rocks_ok map_rocks (\<lambda>m. m) (\<lambda>t. t)"
  by (auto simp: rocks_ok_def map_rocks_get map_rocks_commit split: sum.splits if_splits)

interpretation plain: rocks_txn map_rocks "\<lambda>m. m" "\<lambda>t. t"
  by unfold_locales (rule map_rocks_ok)

subsection \<open>Runs on the plain store\<close>

text \<open>The operations of a batch on a transaction of the plain store, up to its commit.\<close>

definition store_run :: "write_batch \<Rightarrow> kv \<Rightarrow> commit_error + txn_view \<times> commit_state" where
  "store_run batch m =
     (let with_ids = (\<not> vm_is_empty (wb_changes batch)); t = rx_begin map_rocks m
      in cbind (if with_ids then assign_change_ids map_rocks (vm_keys (wb_changes batch)) (t, assigned_ids_default)
                else Inr (t, assigned_ids_default))
           (\<lambda>(t, result). exec_ops map_rocks with_ids (wb_ops batch) (t, cs_start result)))"

lemma store_runE:
  assumes "store_run batch m = Inr ts"
  obtains t result where "(if \<not> vm_is_empty (wb_changes batch)
      then assign_change_ids map_rocks (vm_keys (wb_changes batch)) (rx_begin map_rocks m, assigned_ids_default)
      else Inr (rx_begin map_rocks m, assigned_ids_default)) = Inr (t, result)"
    "exec_ops map_rocks (\<not> vm_is_empty (wb_changes batch)) (wb_ops batch) (t, cs_start result) = Inr ts"
  using assms unfolding store_run_def Let_def result_iffs by auto

lemma map_rocks_get_iff: "rx_get map_rocks t cf k = Inr r \<longleftrightarrow> cell_get (tv_current t cf k) = Inr (fst r) \<and> snd r = tv_touch cf k t"
  by (cases r) (auto simp: map_rocks_get split: sum.splits)

lemmas run_iffs = result_iffs map_rocks_get_iff

text \<open>What holds of a transaction and is kept by touching and writing keys holds after a run.\<close>

lemma value_op_keeps:
  assumes "exec_value_op map_rocks cf key vop (t, result) = Inr (t', result')" "P t"
    and "\<And>t. P t \<Longrightarrow> P (tv_touch cf key t)" "\<And>t c. P t \<Longrightarrow> P (tv_write cf key c t)"
  shows "P t'"
proof (cases vop)
  case (VO_MergeFnc f ps)
  then obtain r where "(case r of
        MR_Update v \<Rightarrow> Inr (tv_write cf key (Present v) (tv_touch cf key t), result)
      | MR_Skip \<Rightarrow> Inr (tv_touch cf key t, result)
      | MR_Delete \<Rightarrow> Inr (tv_write cf key Absent (tv_touch cf key t), result))
        = (Inr (t', result') :: commit_error + txn_view \<times> assigned_ids)"
    using assms(1) by (auto simp: run_iffs)
  then show ?thesis using assms(2-) by (cases r) auto
qed (use assms in \<open>auto simp: run_iffs\<close>)

lemma exec_op_keeps:
  assumes "exec_op map_rocks with_ids op (t, s) = Inr (t', s')" "P t"
    and "\<And>t cf k. P t \<Longrightarrow> P (tv_touch cf k t)" "\<And>t cf k c. P t \<Longrightarrow> P (tv_write cf k c t)"
  shows "P t'"
proof (cases op)
  case (Op_Value cls vop)
  then obtain key res where "exec_value_op map_rocks (vc_subspace cls (cs_collection s)) key vop (t, cs_result s) = Inr (t', res)"
    using assms(1) by (auto simp: result_iffs)
  then show ?thesis using value_op_keeps [of _ _ _ _ _ _ _ P] assms(2-) by blast
qed (use assms in \<open>auto simp: run_iffs Let_def split: if_splits\<close>)

lemma exec_ops_keeps:
  assumes "exec_ops map_rocks with_ids ops (t, s) = Inr (t', s')" "P t"
    and "\<And>t cf k. P t \<Longrightarrow> P (tv_touch cf k t)" "\<And>t cf k c. P t \<Longrightarrow> P (tv_write cf k c t)"
  shows "P t'"
  using assms(1,2)
proof (induction ops arbitrary: t s)
  case (Cons op ops)
  then obtain t1 s1 where "exec_op map_rocks with_ids op (t, s) = Inr (t1, s1)" "exec_ops map_rocks with_ids ops (t1, s1) = Inr (t', s')"
    by (auto simp: result_iffs)
  then show ?case using Cons.IH exec_op_keeps [of _ _ _ _ _ _ P] assms(3,4) Cons.prems(2) by blast
qed simp

lemma assign_keeps:
  assumes "assign_change_ids map_rocks accounts (t, result) = Inr (t', result')" "P t"
    and "\<And>t k. P t \<Longrightarrow> P (tv_touch SUBSPACE_COUNTER k t)" "\<And>t k c. P t \<Longrightarrow> P (tv_write SUBSPACE_COUNTER k c t)"
  shows "P t'"
  using assms(1,2)
proof (induction accounts arbitrary: t result)
  case (Cons a accounts)
  then obtain key n where "assign_change_ids map_rocks accounts
      (tv_write SUBSPACE_COUNTER key (Present (to_le_bytes n)) (tv_touch SUBSPACE_COUNTER key t), push_change_id a n result)
      = Inr (t', result')"
    by (auto simp: run_iffs)
  from Cons.IH [OF this] show ?case by (simp add: assms(3,4) Cons.prems(2))
qed simp

lemma store_run_keeps:
  assumes "store_run batch m = Inr (t, s)" "P (rx_begin map_rocks m)"
    and "\<And>t cf k. P t \<Longrightarrow> P (tv_touch cf k t)" "\<And>t cf k c. P t \<Longrightarrow> P (tv_write cf k c t)"
  shows "P t"
proof -
  let ?with_ids = "\<not> vm_is_empty (wb_changes batch)"
  obtain t1 result where start: "(if ?with_ids then assign_change_ids map_rocks (vm_keys (wb_changes batch))
        (rx_begin map_rocks m, assigned_ids_default) else Inr (rx_begin map_rocks m, assigned_ids_default)) = Inr (t1, result)"
    and run: "exec_ops map_rocks ?with_ids (wb_ops batch) (t1, cs_start result) = Inr (t, s)"
    using store_runE [OF assms(1)] .
  have "P t1" using start assms(2) assign_keeps [OF _ assms(2) assms(3,4)] by (auto split: if_splits)
  from exec_ops_keeps [where P = P, OF run this assms(3,4)] show ?thesis .
qed

text \<open>Without other writers a run always commits, and the store is what the transaction reads.\<close>

lemma store_commit_run: "store_commit batch m = cbind (store_run batch m) (\<lambda>(t, s). Inr (cs_result s, tv_current t))"
proof -
  have "rx_commit map_rocks m t = Inr (tv_current t)" if "store_run batch m = Inr (t, s)" for t s
  proof -
    have "tv_snapshot t = m"
      by (rule store_run_keeps [OF that, of "\<lambda>t. tv_snapshot t = m"]) simp_all
    moreover have "\<forall>cf k. (cf, k) \<notin> set (tv_tracked t) \<longrightarrow> tv_current t cf k = m cf k"
      by (rule store_run_keeps [OF that, of "\<lambda>t. \<forall>cf k. (cf, k) \<notin> set (tv_tracked t) \<longrightarrow> tv_current t cf k = m cf k"])
        (auto simp: kv_put_apply)
    ultimately show ?thesis
      by (auto simp: map_rocks_commit tv_unchanged_def kv_install_def list_all_iff fun_eq_iff)
  qed
  moreover have "store_commit batch m = cbind (store_run batch m)
      (\<lambda>(t, s). cbind (or_rocks (rx_commit map_rocks m t)) (\<lambda>db. Inr (cs_result s, db)))"
    by (simp add: store_commit_def txn_commit_def store_run_def Let_def cbind_assoc case_prod_unfold)
  ultimately show ?thesis by (cases "store_run batch m") (auto simp: cbind_def)
qed

lemma exec_ops_append: "exec_ops rx with_ids (xs @ ys) ts = cbind (exec_ops rx with_ids xs ts) (exec_ops rx with_ids ys)"
  by (induction xs arbitrary: ts) (simp_all add: cbind_def split: sum.split)

text \<open>The state follows the context that the operations select.\<close>

fun ctx_matches :: "u32 option \<times> collection option \<times> u32 option \<Rightarrow> commit_state \<Rightarrow> bool" where
  "ctx_matches (a, c, d) s \<longleftrightarrow> (a = None \<or> a = Some (cs_account_id s))
     \<and> (c = None \<or> map_option collection_to_u8 c = Some (cs_collection s))
     \<and> (d = None \<or> d = Some (cs_document_id s))"

lemma exec_op_ctx: "exec_op map_rocks with_ids op (t, s) = Inr (t', s') \<Longrightarrow> ctx_matches ctx s \<Longrightarrow> ctx_matches (op_context op ctx) s'"
  by (cases op; cases ctx) (auto simp: run_iffs Let_def split: if_splits)

lemma exec_ops_ctx:
  "exec_ops map_rocks with_ids ops (t, s) = Inr (t', s') \<Longrightarrow> ctx_matches ctx s \<Longrightarrow> ctx_matches (fold op_context ops ctx) s'"
proof (induction ops arbitrary: t s ctx)
  case (Cons op ops)
  then obtain t1 s1 where "exec_op map_rocks with_ids op (t, s) = Inr (t1, s1)" "exec_ops map_rocks with_ids ops (t1, s1) = Inr (t', s')"
    by (auto simp: result_iffs)
  then show ?case using Cons.IH exec_op_ctx [OF _ Cons.prems(2)] by simp
qed simp

lemma context_ops_keep:
  "exec_ops map_rocks with_ids ops (t, s) = Inr (t', s') \<Longrightarrow> list_all is_context_op ops \<Longrightarrow> t' = t"
proof (induction ops arbitrary: s)
  case (Cons op ops)
  then obtain t1 s1 where "exec_op map_rocks with_ids op (t, s) = Inr (t1, s1)" "exec_ops map_rocks with_ids ops (t1, s1) = Inr (t', s')"
    by (auto simp: result_iffs)
  moreover from this(1) Cons.prems(2) have "t1 = t" by (cases op) (auto simp: result_iffs split: if_splits)
  ultimately show ?case using Cons by simp
qed simp

text \<open>What a commit found under a key that it asserts.\<close>

fun cell_satisfies :: "assert_value \<Rightarrow> cell \<Rightarrow> bool" where
  "cell_satisfies v Absent = assert_is_none v"
| "cell_satisfies v (Present bs) = assert_matches v bs"
| "cell_satisfies v Corrupt = False"

lemma store_run_assert:
  assumes "store_run batch m = Inr ts" "wb_ops batch = pre @ Op_AssertValue cls v # post"
    and "list_all is_context_op pre" "ops_context pre = (Some a, Some c, Some d)"
    and "vc_subspace cls (collection_to_u8 c) \<noteq> SUBSPACE_COUNTER"
  shows "\<exists>key. vc_serialize cls a (collection_to_u8 c) d 0 = Some key
    \<and> cell_satisfies v (m (vc_subspace cls (collection_to_u8 c)) key)"
proof -
  let ?with_ids = "\<not> vm_is_empty (wb_changes batch)"
  obtain t1 result where start: "(if ?with_ids then assign_change_ids map_rocks (vm_keys (wb_changes batch))
        (rx_begin map_rocks m, assigned_ids_default) else Inr (rx_begin map_rocks m, assigned_ids_default)) = Inr (t1, result)"
    and run: "exec_ops map_rocks ?with_ids (pre @ Op_AssertValue cls v # post) (t1, cs_start result) = Inr ts"
    using store_runE [OF assms(1), unfolded assms(2)] .
  have t1: "tv_current t1 cf = m cf" if "cf \<noteq> SUBSPACE_COUNTER" for cf
    using start assign_keeps [where P = "\<lambda>t. tv_current t cf = m cf"] that
    by (auto simp: kv_put_def split: if_splits)
  obtain t2 s2 where pre: "exec_ops map_rocks ?with_ids pre (t1, cs_start result) = Inr (t2, s2)"
    and post: "exec_ops map_rocks ?with_ids (Op_AssertValue cls v # post) (t2, s2) = Inr ts"
    using run by (auto simp: exec_ops_append result_iffs)
  have "t2 = t1" by (rule context_ops_keep [OF pre assms(3)])
  moreover have "ctx_matches (Some a, Some c, Some d) s2"
    using exec_ops_ctx [OF pre, of "(None, None, None)"] assms(4) by (simp add: ops_context_def)
  ultimately show ?thesis
    using post t1 [OF assms(5)]
    by (cases "m (vc_subspace cls (collection_to_u8 c)) (the (vc_serialize cls a (collection_to_u8 c) d 0))")
      (auto simp: run_iffs class_key_def Let_def split: if_splits)
qed

subsection \<open>Retrying\<close>

definition MAX_COMMIT_ATTEMPTS :: nat where "MAX_COMMIT_ATTEMPTS = 10"

definition is_transient :: "rocks_kind \<Rightarrow> bool" where
  "is_transient k \<longleftrightarrow> k = RK_Busy \<or> k = RK_MergeInProgress \<or> k = RK_TryAgain"

text \<open>
  The loop that retries a commit. The databases that the attempts find and the clock are arguments,
  indexed by the attempt; the random pause between attempts is left out.
\<close>

function write_loop :: "('db, 't) rocks \<Rightarrow> (nat \<Rightarrow> 'db \<times> 'db) \<Rightarrow> (nat \<Rightarrow> bool) \<Rightarrow> write_batch \<Rightarrow> nat
    \<Rightarrow> commit_error + assigned_ids \<times> 'db" where
  "write_loop rx dbs in_time batch retry_count =
     (case txn_commit rx (fst (dbs retry_count)) (snd (dbs retry_count)) batch of
        Inr result \<Rightarrow> Inr result
      | Inl (CE_Internal e) \<Rightarrow> Inl (CE_Internal e)
      | Inl (CE_RocksDB k) \<Rightarrow>
          if is_transient k \<and> retry_count < MAX_COMMIT_ATTEMPTS \<and> in_time retry_count
          then write_loop rx dbs in_time batch (retry_count + 1)
          else Inl (CE_Internal SE_RocksdbError)
      | Inl CE_Panic \<Rightarrow> Inl CE_Panic)"
  by pat_completeness auto
termination by (relation "measure (\<lambda>(_, _, _, _, retry_count). MAX_COMMIT_ATTEMPTS - retry_count)") auto

declare write_loop.simps [simp del]

definition rocks_write :: "('db, 't) rocks \<Rightarrow> (nat \<Rightarrow> 'db \<times> 'db) \<Rightarrow> (nat \<Rightarrow> bool) \<Rightarrow> write_batch
    \<Rightarrow> commit_error + assigned_ids \<times> 'db" where
  "rocks_write rx dbs in_time batch = write_loop rx dbs in_time batch 0"

text \<open>The outcome of one attempt, and that the loop goes on after it.\<close>

definition attempt :: "('db, 't) rocks \<Rightarrow> (nat \<Rightarrow> 'db \<times> 'db) \<Rightarrow> write_batch \<Rightarrow> nat \<Rightarrow> commit_error + assigned_ids \<times> 'db" where
  "attempt rx dbs batch n = txn_commit rx (fst (dbs n)) (snd (dbs n)) batch"

definition transient :: "commit_error + 'a \<Rightarrow> bool" where
  "transient r \<longleftrightarrow> (\<exists>k. r = Inl (CE_RocksDB k) \<and> is_transient k)"

lemma write_loop_attempt:
  "write_loop rx dbs in_time batch n =
     (if transient (attempt rx dbs batch n) \<and> n < MAX_COMMIT_ATTEMPTS \<and> in_time n
      then write_loop rx dbs in_time batch (n + 1)
      else case attempt rx dbs batch n of Inl (CE_RocksDB k) \<Rightarrow> Inl (CE_Internal SE_RocksdbError) | r \<Rightarrow> r)"
  by (subst write_loop.simps)
    (auto simp: attempt_def [symmetric] transient_def split: sum.splits commit_error.splits)

lemma write_loop_outcome:
  assumes "n \<le> MAX_COMMIT_ATTEMPTS"
  shows "\<exists>k \<ge> n. k \<le> MAX_COMMIT_ATTEMPTS \<and> (\<forall>i. n \<le> i \<and> i < k \<longrightarrow> transient (attempt rx dbs batch i) \<and> in_time i)
    \<and> \<not> (transient (attempt rx dbs batch k) \<and> k < MAX_COMMIT_ATTEMPTS \<and> in_time k)
    \<and> write_loop rx dbs in_time batch n =
        (case attempt rx dbs batch k of Inl (CE_RocksDB _) \<Rightarrow> Inl (CE_Internal SE_RocksdbError) | r \<Rightarrow> r)"
  using assms
proof (induction "MAX_COMMIT_ATTEMPTS - n" arbitrary: n rule: less_induct)
  case less
  show ?case
  proof (cases "transient (attempt rx dbs batch n) \<and> n < MAX_COMMIT_ATTEMPTS \<and> in_time n")
    case True
    then have "MAX_COMMIT_ATTEMPTS - (n + 1) < MAX_COMMIT_ATTEMPTS - n" "n + 1 \<le> MAX_COMMIT_ATTEMPTS"
      by (elim conjE, linarith)+
    from less(1) [OF this] obtain k where k: "n + 1 \<le> k" "k \<le> MAX_COMMIT_ATTEMPTS"
      "\<forall>i. n + 1 \<le> i \<and> i < k \<longrightarrow> transient (attempt rx dbs batch i) \<and> in_time i"
      "\<not> (transient (attempt rx dbs batch k) \<and> k < MAX_COMMIT_ATTEMPTS \<and> in_time k)"
      "write_loop rx dbs in_time batch (n + 1) =
        (case attempt rx dbs batch k of Inl (CE_RocksDB _) \<Rightarrow> Inl (CE_Internal SE_RocksdbError) | r \<Rightarrow> r)"
      by blast
    moreover have "\<forall>i. n \<le> i \<and> i < k \<longrightarrow> transient (attempt rx dbs batch i) \<and> in_time i"
    proof (intro allI impI)
      fix i assume "n \<le> i \<and> i < k"
      then show "transient (attempt rx dbs batch i) \<and> in_time i" using k(3) True by (cases "i = n") simp_all
    qed
    ultimately show ?thesis using True
      by (intro exI [of _ k]) (subst write_loop_attempt, simp)
  next
    case False
    have "write_loop rx dbs in_time batch n =
        (case attempt rx dbs batch n of Inl (CE_RocksDB _) \<Rightarrow> Inl (CE_Internal SE_RocksdbError) | r \<Rightarrow> r)"
      by (subst write_loop_attempt) (rule if_not_P [OF False])
    with False less(2) show ?thesis by (intro exI [of _ n]) auto
  qed
qed

subsection \<open>Properties\<close>



text \<open>
  C13: writing a batch ends after at most eleven attempts. It returns the outcome of the last of them,
  with an error of the database turned into an error of the store; every attempt before it failed with
  an error that is worth retrying and within the time limit.
\<close>

theorem write_terminates:
  "\<exists>n \<le> MAX_COMMIT_ATTEMPTS.
     rocks_write rx dbs in_time batch =
       (case txn_commit rx (fst (dbs n)) (snd (dbs n)) batch of
          Inl (CE_RocksDB _) \<Rightarrow> Inl (CE_Internal SE_RocksdbError) | r \<Rightarrow> r)
   \<and> (\<forall>i. i < n \<longrightarrow> in_time i \<and> (\<exists>k. is_transient k \<and> txn_commit rx (fst (dbs i)) (snd (dbs i)) batch = Inl (CE_RocksDB k)))
   \<and> (n < MAX_COMMIT_ATTEMPTS \<longrightarrow> in_time n \<longrightarrow>
        \<not> (\<exists>k. is_transient k \<and> txn_commit rx (fst (dbs n)) (snd (dbs n)) batch = Inl (CE_RocksDB k)))"
  using write_loop_outcome [of 0 rx dbs batch in_time]
  by (simp add: rocks_write_def attempt_def transient_def) blast

lemma config_commit:
  "txn_commit map_rocks m m' \<lparr>wb_changes = vm_new, wb_ops = [Op_Value (VC_Config key) (VO_Set v)]\<rparr> =
    (if m' SUBSPACE_SETTINGS key = m SUBSPACE_SETTINGS key
     then Inr (assigned_ids_default, kv_put SUBSPACE_SETTINGS key (Present v) m') else Inl (CE_RocksDB RK_Busy))"
  by (auto simp: txn_commit_def vm_is_empty_def vm_new_def class_key_def vc_serialize_def vc_serializer_def
      map_rocks_commit tv_unchanged_def kv_install_def cs_start_def ks_new_def write_slice_def kv_put_apply fun_eq_iff)

theorem write_terminates_witness:
  "let m = (\<lambda>_ _. Absent); m' = kv_put SUBSPACE_SETTINGS [7] (Present [2]) m;
       batch = \<lparr>wb_changes = vm_new, wb_ops = [Op_Value (VC_Config [7]) (VO_Set [9])]\<rparr>
   in rocks_write map_rocks (\<lambda>n. if n = 0 then (m, m') else (m', m')) (\<lambda>_. True) batch
        = Inr (assigned_ids_default, kv_put SUBSPACE_SETTINGS [7] (Present [9]) m')"
proof -
  let ?m = "\<lambda>_ _. Absent" and ?batch = "\<lparr>wb_changes = vm_new, wb_ops = [Op_Value (VC_Config [7]) (VO_Set [9])]\<rparr>"
  let ?m' = "kv_put SUBSPACE_SETTINGS [7] (Present [2]) ?m"
  let ?dbs = "\<lambda>n :: nat. if n = 0 then (?m, ?m') else (?m', ?m')"
  obtain n where n: "n \<le> MAX_COMMIT_ATTEMPTS"
    "rocks_write map_rocks ?dbs (\<lambda>_. True) ?batch = (case txn_commit map_rocks (fst (?dbs n)) (snd (?dbs n)) ?batch of
       Inl (CE_RocksDB _) \<Rightarrow> Inl (CE_Internal SE_RocksdbError) | r \<Rightarrow> r)"
    "n < MAX_COMMIT_ATTEMPTS \<longrightarrow> \<not> (\<exists>k. is_transient k \<and> txn_commit map_rocks (fst (?dbs n)) (snd (?dbs n)) ?batch = Inl (CE_RocksDB k))"
    using write_terminates [of map_rocks ?dbs "\<lambda>_. True" ?batch] by blast
  have first: "txn_commit map_rocks (fst (?dbs 0)) (snd (?dbs 0)) ?batch = Inl (CE_RocksDB RK_Busy)"
    by (simp add: config_commit kv_put_apply)
  have "n \<noteq> 0"
  proof
    assume "n = 0"
    have "0 < MAX_COMMIT_ATTEMPTS" "is_transient RK_Busy"
      by (simp_all add: MAX_COMMIT_ATTEMPTS_def is_transient_def)
    with n(3) [unfolded \<open>n = 0\<close> first] show False by blast
  qed
  with n(2) show ?thesis by (simp add: config_commit)
qed





end
