(* ===== verification/StoreLog.thy ===== *)
theory StoreLog
  imports StoreCommit
begin

text \<open>
  What committed batches leave in the log of changes. The counters of change ids, the log entries that
  a commit writes for the changes recorded in a builder, and the history of commits of an account,
  which ties the builder (\<open>batch.rs\<close>), the commit (\<open>rocksdb/write.rs\<close>) and the
  query of the log (\<open>query/log.rs\<close>) together.
\<close>

subsection \<open>Change ids\<close>

text \<open>The change id an account has reached; a value that cannot be read is \<open>None\<close>.\<close>

fun cell_counter :: "cell \<Rightarrow> u64 option" where
  "cell_counter Absent = Some 0"
| "cell_counter (Present bs) = from_le_bytes bs"
| "cell_counter Corrupt = None"

definition change_counter :: "kv \<Rightarrow> u32 \<Rightarrow> u64 option" where
  "change_counter m a = cell_counter (m SUBSPACE_COUNTER (to_be_bytes a))"

lemma from_to_le [simp]: "from_le_bytes (to_le_bytes v) = Some v"
  by (simp add: from_le_bytes_def to_le_bytes_def)

lemma change_id_key_bytes [simp]: "change_id_key a = Inr (to_be_bytes a)"
  by (simp add: change_id_key_def vc_serialize_def vc_serializer_def ks_new_def write_be_def)

lemma cs_start_result: "cs_result (cs_start result) = result"
  by (simp add: cs_start_def)

lemma last_change_id_push:
  "last_change_id (push_change_id a i res) b = (if a = b then Some i else last_change_id res b)"
  "last_change_id (push_counter_id n res) b = last_change_id res b"
  "last_change_id (res\<lparr>ai_current_change_id := c\<rparr>) b = last_change_id res b"
  by (auto simp: last_change_id_def push_change_id_def push_counter_id_def List.map_filter_def split: list.split)

lemma assign_one:
  assumes "assign_change_ids map_rocks (a # accounts) (t, result) = Inr (t', result')"
  obtains n t1 where "change_counter (tv_current t) a = Some n"
    "tv_current t1 = kv_put SUBSPACE_COUNTER (to_be_bytes a) (Present (to_le_bytes (n + 1))) (tv_current t)"
    "assign_change_ids map_rocks accounts (t1, push_change_id a (n + 1) result) = Inr (t', result')"
proof -
  obtain v i where v: "cell_get (tv_current t SUBSPACE_COUNTER (to_be_bytes a)) = Inr v"
    "(case v of Some bs \<Rightarrow> cbind (deserialize_i64_le bs) (\<lambda>v. Inr (v + 1)) | None \<Rightarrow> Inr 1) = Inr i"
    "assign_change_ids map_rocks accounts
      (tv_write SUBSPACE_COUNTER (to_be_bytes a) (Present (to_le_bytes i)) (tv_touch SUBSPACE_COUNTER (to_be_bytes a) t),
       push_change_id a i result) = Inr (t', result')"
    using assms by (auto simp: run_iffs)
  then obtain n where n: "change_counter (tv_current t) a = Some n" "i = n + 1"
    by (cases "tv_current t SUBSPACE_COUNTER (to_be_bytes a)")
      (auto simp: change_counter_def deserialize_i64_le_def result_iffs)
  show thesis by (rule that [OF n(1) _ v(3) [unfolded n(2)]]) simp
qed

lemma assign_ids:
  assumes "assign_change_ids map_rocks accounts (t, result) = Inr (t', result')" "distinct accounts"
  shows "(\<forall>a. change_counter (tv_current t') a =
        (if a \<in> set accounts then map_option (\<lambda>n. n + 1) (change_counter (tv_current t) a) else change_counter (tv_current t) a))
    \<and> (\<forall>a. last_change_id result' a = (if a \<in> set accounts then change_counter (tv_current t') a else last_change_id result a))
    \<and> (\<forall>a \<in> set accounts. change_counter (tv_current t) a \<noteq> None)"
  using assms
proof (induction accounts arbitrary: t result)
  case (Cons a accounts)
  obtain n t1 where n: "change_counter (tv_current t) a = Some n"
    "tv_current t1 = kv_put SUBSPACE_COUNTER (to_be_bytes a) (Present (to_le_bytes (n + 1))) (tv_current t)"
    "assign_change_ids map_rocks accounts (t1, push_change_id a (n + 1) result) = Inr (t', result')"
    using assign_one [OF Cons.prems(1)] .
  have t1: "change_counter (tv_current t1) b = (if b = a then Some (n + 1) else change_counter (tv_current t) b)" for b
    by (simp add: change_counter_def n(2) kv_put_apply)
  have "a \<notin> set accounts" "distinct accounts" using Cons.prems(2) by simp_all
  moreover from this have "b \<noteq> a" if "b \<in> set accounts" for b using that by blast
  ultimately show ?case using Cons.IH [OF n(3)] n(1) by (simp add: t1 last_change_id_push)
qed simp

subsection \<open>Operations that leave log and change ids alone\<close>

text \<open>
  The operations that clients add to a batch: everything but log entries and raw writes to any
  subspace. Notifications of sharing are kept in the log, but as a collection of their own.
\<close>

fun quiet_op :: "operation \<Rightarrow> bool" where
  "quiet_op (Op_Log _ _) = False"
| "quiet_op (Op_Value VC_ChangeId _) = False"
| "quiet_op (Op_Value (VC_Any _) _) = False"
| "quiet_op _ = True"

text \<open>The keys that only commits write: the change ids and the log of a collection.\<close>

definition guarded :: "u8 \<Rightarrow> bytes \<Rightarrow> bool" where
  "guarded cf key \<longleftrightarrow> cf = SUBSPACE_COUNTER \<and> (\<exists>a :: u32. key = to_be_bytes a)
     \<or> cf = SUBSPACE_LOGS \<and> (\<exists>k. key = log_key_serialize k 0 \<and> lk_collection k \<noteq> sync_collection_to_u8 Sync_ShareNotification)"

lemma blob_op_other_subspace: "blob_op_subspace op \<noteq> SUBSPACE_COUNTER \<and> blob_op_subspace op \<noteq> SUBSPACE_LOGS"
  by (cases op) (simp_all add: subspace_defs)

lemma queue_other_subspace: "queue_subspace q \<noteq> SUBSPACE_COUNTER \<and> queue_subspace q \<noteq> SUBSPACE_LOGS"
  by (cases q) (simp_all add: subspace_defs)

lemmas other_subspaces = blob_op_other_subspace queue_other_subspace

lemma quiet_key_unguarded:
  assumes "quiet_op (Op_Value cls vop)" "vc_serialize cls a c d 0 = Some key"
  shows "\<not> guarded (vc_subspace cls c) key"
proof
  assume g: "guarded (vc_subspace cls c) key"
  then consider (counter) x :: u32 where "vc_subspace cls c = SUBSPACE_COUNTER" "key = to_be_bytes x"
    | (logs) k where "vc_subspace cls c = SUBSPACE_LOGS" "key = log_key_serialize k 0"
        "lk_collection k \<noteq> sync_collection_to_u8 Sync_ShareNotification"
    unfolding guarded_def by blast
  then show False
  proof cases
    case counter
    have "length key = 4" by (simp add: counter(2))
    moreover have "cls = VC_DocumentId \<or> (\<exists>f. cls = VC_Property f)"
      using assms(1) counter(1)
      by (cases "(cls, c)" rule: vc_subspace.cases)
        (auto simp: subspace_defs other_subspaces [unfolded subspace_defs] split: if_splits)
    ultimately show False using assms(2)
      by (auto simp: vc_serialize_def vc_serializer_def ks_new_def write_be_def write_u8_def)
  next
    case logs
    obtain n x where "cls = VC_ShareNotification n x"
      using assms(1) logs(1)
      by (cases "(cls, c)" rule: vc_subspace.cases) (auto simp: subspace_defs other_subspaces [unfolded subspace_defs] split: if_splits)
    with logs assms(2) have "log_key_serialize k 0
        = log_key_serialize \<lparr>lk_account_id = x, lk_collection = sync_collection_to_u8 Sync_ShareNotification, lk_change_id = n\<rparr> 0"
      by (simp add: vc_serialize_def vc_serializer_def log_key_serialize_def subspace_serializer_def)
    with logs(3) show False by (simp add: log_key_inject)
  qed
qed

lemma value_op_frame:
  assumes "exec_value_op map_rocks cf key vop (t, result) = Inr (t', result')" "(cf', key') \<noteq> (cf, key)"
  shows "tv_current t' cf' key' = tv_current t cf' key'"
  by (rule value_op_keeps [OF assms(1), of "\<lambda>u. tv_current u cf' key' = tv_current t cf' key'"])
    (use assms(2) in \<open>auto simp: kv_put_apply\<close>)

lemma value_op_ids:
  assumes "exec_value_op map_rocks cf key vop (t, result) = Inr (t', result')"
  shows "last_change_id result' a = last_change_id result a"
proof (cases vop)
  case (VO_MergeFnc f ps)
  then obtain r where "(case r of
        MR_Update v \<Rightarrow> Inr (tv_write cf key (Present v) (tv_touch cf key t), result)
      | MR_Skip \<Rightarrow> Inr (tv_touch cf key t, result)
      | MR_Delete \<Rightarrow> Inr (tv_write cf key Absent (tv_touch cf key t), result))
        = (Inr (t', result') :: commit_error + txn_view \<times> assigned_ids)"
    using assms by (auto simp: run_iffs)
  then show ?thesis by (cases r) auto
qed (use assms in \<open>auto simp: run_iffs last_change_id_push\<close>)

lemma quiet_op_run:
  assumes "exec_op map_rocks with_ids op (t, s) = Inr (t', s')" "quiet_op op" "guarded cf key"
  shows "tv_current t' cf key = tv_current t cf key"
proof (cases op)
  case (Op_Value cls vop)
  then obtain key' result where v: "vc_serialize cls (cs_account_id s) (cs_collection s) (cs_document_id s) 0 = Some key'"
    "exec_value_op map_rocks (vc_subspace cls (cs_collection s)) key' vop (t, cs_result s) = Inr (t', result)"
    using assms(1) by (auto simp: run_iffs class_key_def)
  have "\<not> guarded (vc_subspace cls (cs_collection s)) key'"
    using quiet_key_unguarded [OF _ v(1)] assms(2) Op_Value by blast
  with assms(3) show ?thesis by (intro value_op_frame [OF v(2)]) auto
next
  case (Op_Index field key' is_set)
  have "cf \<noteq> SUBSPACE_INDEXES" using assms(3) by (auto simp: guarded_def subspace_defs)
  with assms(1) Op_Index show ?thesis by (auto simp: run_iffs Let_def kv_put_apply split: if_splits)
qed (use assms in \<open>auto simp: run_iffs Let_def split: if_splits\<close>)

lemma set_current_ids: "set_current_change_id a res = Some (i, res') \<Longrightarrow>
    last_change_id res' b = last_change_id res b \<and> last_change_id res a = Some i"
  by (auto simp: set_current_change_id_def last_change_id_push)

lemma exec_op_ids:
  assumes "exec_op map_rocks with_ids op (t, s) = Inr (t', s')"
  shows "last_change_id (cs_result s') a = last_change_id (cs_result s) a"
  using assms value_op_ids
  by (cases op) (fastforce simp: run_iffs Let_def split: if_splits dest: set_current_ids [of _ _ _ _ a])+

text \<open>
  While an account is selected in a commit that has assigned change ids, the current change id is the
  one of that account.
\<close>

definition account_ids :: "u32 option \<Rightarrow> commit_state \<Rightarrow> bool" where
  "account_ids acc s \<longleftrightarrow> (\<forall>a. acc = Some a \<longrightarrow> cs_account_id s = a \<and> last_change_id (cs_result s) a = Some (cs_change_id s))"

lemma exec_op_other:
  assumes "exec_op map_rocks with_ids op (t, s) = Inr (t', s')" "\<not> (\<exists>a. op = Op_AccountId a)"
  shows "cs_account_id s' = cs_account_id s \<and> cs_change_id s' = cs_change_id s"
  using assms by (cases op) (auto simp: run_iffs Let_def split: if_splits)

lemma exec_op_account:
  assumes "exec_op map_rocks True op (t, s) = Inr (t', s')" "account_ids acc s"
  shows "account_ids (case op of Op_AccountId a \<Rightarrow> Some a | _ \<Rightarrow> acc) s'"
proof (cases "\<exists>a. op = Op_AccountId a")
  case True
  then obtain a where "op = Op_AccountId a" ..
  with assms show ?thesis by (auto simp: run_iffs account_ids_def dest: set_current_ids [of _ _ _ _ a])
next
  case False
  then have "account_ids acc s'"
    using assms(2) exec_op_other [OF assms(1)] exec_op_ids [OF assms(1)] by (simp add: account_ids_def)
  with False show ?thesis by (cases op) simp_all
qed

subsection \<open>The log entries of a batch\<close>

text \<open>
  The entries that the log operations of a batch write, given the change id of each account; every
  log operation must come after the selection of an account.
\<close>

fun op_logs :: "(u32 \<Rightarrow> u64) \<Rightarrow> u32 option \<Rightarrow> operation list \<Rightarrow> (log_key \<times> bytes) list" where
  "op_logs ids acc [] = []"
| "op_logs ids acc (Op_AccountId a # ops) = op_logs ids (Some a) ops"
| "op_logs ids acc (Op_Log c bs # ops) =
     (\<lparr>lk_account_id = the acc, lk_collection = log_collection_u8 c, lk_change_id = ids (the acc)\<rparr>, bs) # op_logs ids acc ops"
| "op_logs ids acc (op # ops) = op_logs ids acc ops"

fun logs_ok :: "u32 option \<Rightarrow> operation list \<Rightarrow> bool" where
  "logs_ok acc [] = True"
| "logs_ok acc (Op_AccountId a # ops) = logs_ok (Some a) ops"
| "logs_ok acc (Op_Log c bs # ops) \<longleftrightarrow> acc \<noteq> None \<and> logs_ok acc ops"
| "logs_ok acc (op # ops) = (quiet_op op \<and> logs_ok acc ops)"

definition log_lookup :: "(log_key \<times> bytes) list \<Rightarrow> kv \<Rightarrow> log_key \<Rightarrow> cell" where
  "log_lookup entries m k =
     (case map_of (rev entries) k of Some bs \<Rightarrow> Present bs | None \<Rightarrow> m SUBSPACE_LOGS (log_key_serialize k 0))"

lemma exec_logs:
  assumes "exec_ops map_rocks True ops (t, s) = Inr (t', s')" "logs_ok acc ops" "account_ids acc s"
    and "\<And>a i. last_change_id (cs_result s) a = Some i \<Longrightarrow> ids a = i"
    and "lk_collection k \<noteq> sync_collection_to_u8 Sync_ShareNotification"
  shows "tv_current t' SUBSPACE_LOGS (log_key_serialize k 0) = log_lookup (op_logs ids acc ops) (tv_current t) k"
  using assms(1-4)
proof (induction ops arbitrary: acc t s)
  case Nil
  then show ?case by (simp add: log_lookup_def)
next
  case (Cons op ops)
  obtain t1 s1 where step: "exec_op map_rocks True op (t, s) = Inr (t1, s1)" and rest: "exec_ops map_rocks True ops (t1, s1) = Inr (t', s')"
    using Cons.prems(1) by (auto simp: result_iffs)
  have ids1: "last_change_id (cs_result s1) a = Some i \<Longrightarrow> ids a = i" for a i
    using Cons.prems(4) exec_op_ids [OF step] by metis
  note acc1 = exec_op_account [OF step Cons.prems(3)]
  have g: "guarded SUBSPACE_LOGS (log_key_serialize k 0)" using assms(5) by (auto simp: guarded_def)
  show ?case
  proof (cases op)
    case (Op_AccountId a)
    then have "t1 = t" using step by (auto simp: result_iffs)
    then show ?thesis using Cons.IH [OF rest, of "Some a"] Cons.prems(2) acc1 ids1 Op_AccountId by simp
  next
    case (Op_Log c bs)
    let ?k = "\<lparr>lk_account_id = the acc, lk_collection = log_collection_u8 c, lk_change_id = ids (the acc)\<rparr>"
    obtain a where a: "acc = Some a" using Cons.prems(2) Op_Log by auto
    have "cs_account_id s = a" "cs_change_id s = ids a"
      using Cons.prems(3,4) a by (auto simp: account_ids_def)
    then have t1: "tv_current t1 = kv_put SUBSPACE_LOGS (log_key_serialize ?k 0) (Present bs) (tv_current t)" "s1 = s"
      using step Op_Log a by (auto simp: result_iffs Let_def)
    have "tv_current t' SUBSPACE_LOGS (log_key_serialize k 0) = log_lookup (op_logs ids acc ops) (tv_current t1) k"
      using Cons.IH [OF rest, of acc] Cons.prems(2) acc1 ids1 Op_Log by simp
    then show ?thesis
      using t1(1) Op_Log by (auto simp: log_lookup_def kv_put_apply log_key_inject map_add_def split: option.split)
  qed (use Cons.IH [OF rest, of acc] Cons.prems(2) acc1 ids1 quiet_op_run [OF step _ g] in
      \<open>auto simp: log_lookup_def split: option.split\<close>)
qed

lemma exec_counters:
  assumes "exec_ops map_rocks with_ids ops (t, s) = Inr (t', s')" "logs_ok acc ops"
  shows "change_counter (tv_current t') a = change_counter (tv_current t) a"
  using assms
proof (induction ops arbitrary: acc t s)
  case (Cons op ops)
  obtain t1 s1 where step: "exec_op map_rocks with_ids op (t, s) = Inr (t1, s1)" and rest: "exec_ops map_rocks with_ids ops (t1, s1) = Inr (t', s')"
    using Cons.prems(1) by (auto simp: result_iffs)
  have "guarded SUBSPACE_COUNTER (to_be_bytes a)" by (auto simp: guarded_def)
  then have "tv_current t1 SUBSPACE_COUNTER (to_be_bytes a) = tv_current t SUBSPACE_COUNTER (to_be_bytes a)"
    using quiet_op_run [OF step] step Cons.prems(2)
    by (cases op) (auto simp: result_iffs Let_def kv_put_apply subspace_defs)
  moreover obtain acc1 where "logs_ok acc1 ops" using Cons.prems(2) by (cases op) auto
  ultimately show ?case using Cons.IH [OF rest] by (simp add: change_counter_def)
qed simp

subsection \<open>The entries of a builder\<close>

lemma vm_modify_get: "vm_get (vm_modify m key dflt f) = (vm_get m)(key \<mapsto> f (case vm_get m key of Some v \<Rightarrow> v | None \<Rightarrow> dflt))"
  by (simp add: vm_modify_def case_prod_unfold vm_entry)

lemma vm_modify_unique: "vm_unique m \<Longrightarrow> vm_unique (vm_modify m key dflt f)"
  by (simp add: vm_modify_def case_prod_unfold vm_entry)

lemmas vm_modify_laws = vm_modify_get vm_modify_unique

lemma vm_new_unique [simp]: "vm_unique vm_new"
  by (simp add: vm_unique_def vm_new_def vm_keys_def)

lemma vm_new_get [simp]: "vm_get vm_new k = None"
  by (simp add: vm_get_def vm_new_def)

text \<open>The maps of a builder have one entry per key.\<close>

definition clb_unique :: "change_log_builder \<Rightarrow> bool" where
  "clb_unique c \<longleftrightarrow> vm_unique (clb_changes c) \<and> vm_unique (clb_vanished c)"

definition bb_unique :: "batch_builder \<Rightarrow> bool" where
  "bb_unique b \<longleftrightarrow> vm_unique (bb_changes b) \<and> vm_unique (bb_changed_collections b)
     \<and> (\<forall>a c. vm_get (bb_changes b) a = Some c \<longrightarrow> clb_unique c)"

lemma bb_unique_cong: "bb_changes b' = bb_changes b \<Longrightarrow> bb_changed_collections b' = bb_changed_collections b \<Longrightarrow>
    bb_unique b' = bb_unique b"
  by (simp add: bb_unique_def)

lemma bb_unique_fields [simp]:
  "bb_unique (bb_push op b) = bb_unique b" "bb_unique (bb_count sz n b) = bb_unique b"
  "bb_unique (b\<lparr>bb_has_assertions := h\<rparr>) = bb_unique b" "bb_unique (b\<lparr>bb_current_account_id := acc\<rparr>) = bb_unique b"
  "bb_unique (b\<lparr>bb_current_collection := c\<rparr>) = bb_unique b"
  "bb_unique (b\<lparr>bb_current_document_id := d\<rparr>) = bb_unique b"
  by (simp_all add: bb_unique_def bb_push_def bb_count_def)

lemma bb_unique_on_log: "bb_unique b \<Longrightarrow> (\<And>c. clb_unique c \<Longrightarrow> clb_unique (f c)) \<Longrightarrow> bb_unique (bb_on_log a f b)"
  by (auto simp: bb_unique_def bb_on_log_def vm_modify_laws clb_unique_def clb_default_def split: option.split)

lemma clb_unique_ops:
  "clb_unique c \<Longrightarrow> clb_unique (clb_on_changes sc g c)"
  "clb_unique c \<Longrightarrow> clb_unique (log_vanished_item vc item c)"
  by (simp_all add: clb_unique_def clb_on_changes_def log_vanished_item_def vm_modify_unique)

lemma write_account_log_changed:
  assumes "vm_unique (bb_changed_collections b)"
  shows "vm_unique (bb_changed_collections (write_account_log orders b (a, clb)))
    \<and> (\<forall>x. vm_get (bb_changed_collections (write_account_log orders b (a, clb))) x = None \<longleftrightarrow>
          vm_get (bb_changed_collections b) x = None \<and> (x = a \<longrightarrow> vm_iter (clb_changes clb) = []))"
proof -
  have account: "bb_changed_collections (with_account_id a b) = bb_changed_collections b"
    by (simp add: with_account_id_def)
  have sync: "vm_unique (bb_changed_collections (foldl (write_sync_log orders a) b es))
      \<and> (\<forall>x. vm_get (bb_changed_collections (foldl (write_sync_log orders a) b es)) x = None \<longleftrightarrow>
            vm_get (bb_changed_collections b) x = None \<and> (x = a \<longrightarrow> es = []))"
    if "vm_unique (bb_changed_collections b)" for b es
    using that
  proof (induction es arbitrary: b)
    case (Cons e es)
    have "vm_unique (bb_changed_collections (write_sync_log orders a b e))"
      "\<forall>x. vm_get (bb_changed_collections (write_sync_log orders a b e)) x = None \<longleftrightarrow> vm_get (bb_changed_collections b) x = None \<and> x \<noteq> a"
      using Cons.prems by (cases e; auto simp: write_sync_log_def vm_modify_laws)+
    then show ?case using Cons.IH by auto
  qed simp
  have vanished: "bb_changed_collections (foldl write_vanished_log b es) = bb_changed_collections b" for b es
    by (induction es arbitrary: b) (auto simp: write_vanished_log_def)
  show ?thesis using sync [of "with_account_id a b"] assms by (simp add: write_account_log_def vanished account)
qed

lemma serialize_changed:
  assumes "vm_unique (bb_changed_collections b)"
  shows "vm_unique (bb_changed_collections (foldl (write_account_log orders) b es))
    \<and> (\<forall>x. vm_get (bb_changed_collections (foldl (write_account_log orders) b es)) x = None \<longleftrightarrow>
          vm_get (bb_changed_collections b) x = None \<and> (\<forall>clb. (x, clb) \<in> set es \<longrightarrow> vm_iter (clb_changes clb) = []))"
  using assms
proof (induction es arbitrary: b)
  case (Cons e es)
  obtain a clb where e: "e = (a, clb)" by force
  show ?case
    using Cons.IH [of "write_account_log orders b (a, clb)"] write_account_log_changed [OF Cons.prems, of orders a clb]
    by (auto simp: e)
qed simp

lemma bb_unique_serialize: "bb_unique b \<Longrightarrow> bb_unique (serialize_changes orders b)"
proof -
  assume u: "bb_unique b"
  have "bb_changes (foldl (write_account_log orders) b es) = bb_changes b" for b es
    by (induction es arbitrary: b) (simp_all add: write_account_log_fields)
  with u serialize_changed [of "b\<lparr>bb_changes := vm_new\<rparr>" orders "vm_iter (bb_changes b)"] show ?thesis
    by (auto simp: bb_unique_def serialize_changes_def)
qed

lemma bb_step_unique: "bb_step orders b b' \<Longrightarrow> bb_unique b \<Longrightarrow> bb_unique b'"
proof (induction rule: bb_step.induct)
  case (commit b)
  let ?s = "serialize_changes orders b"
  have "bb_unique (commit_point orders b) = (if is_large_batch b then bb_unique ?s else bb_unique b)"
    by (auto simp: commit_point_def Let_def split: option.split intro!: bb_unique_cong)
  with commit bb_unique_serialize show ?case by simp
next
  case (share_notification b n a v)
  then show ?case
    by (simp add: bb_unique_def bb_log_share_notification_def bb_set_def bb_count_def bb_push_def vm_modify_unique)
next
  case (vanished b vcol item)
  then show ?case
    by (auto simp: bb_log_vanished_item_def split: option.split intro!: bb_unique_on_log clb_unique_ops)
qed (auto simp: with_account_id_def with_collection_def with_document_def bb_assert_value_def bb_index_def bb_unindex_def
    bb_add_def bb_add_and_get_def bb_set_def bb_set_fnc_def bb_merge_fnc_def bb_clear_def bb_acl_grant_def
    bb_acl_revoke_def bb_any_op_def bb_log_item_insert_def bb_log_item_update_def bb_log_item_delete_def
    bb_log_container_insert_def bb_log_container_update_def bb_log_container_delete_def
    bb_log_container_property_change_def bb_on_current_def log_item_insert_def log_item_update_def log_item_delete_def
    log_container_insert_def log_container_update_def log_container_delete_def log_container_property_update_def
    split: option.split intro!: bb_unique_on_log clb_unique_ops)

lemma bb_reachable_unique: "bb_reachable orders b \<Longrightarrow> bb_unique b"
proof (induction rule: bb_reachable.induct)
  case start
  then show ?case by (simp add: bb_unique_def) (simp add: bb_new_def)
qed (rule bb_step_unique)

text \<open>The log operations that a builder adds when it writes out the changes of its accounts.\<close>

definition entry_ops :: "set_orders \<Rightarrow> change_log_builder \<Rightarrow> operation list" where
  "entry_ops orders clb =
     map (\<lambda>(c, ch). Op_Log (LC_Sync c) (changes_serialize (fst orders) (snd orders) ch)) (vm_iter (clb_changes clb))
     @ map (\<lambda>(c, v). Op_Log (LC_Vanished c) (vanished_serialize v)) (vm_iter (clb_vanished clb))"

fun tail_ops :: "set_orders \<Rightarrow> u32 option \<Rightarrow> (u32 \<times> change_log_builder) list \<Rightarrow> operation list" where
  "tail_ops orders acc [] = []"
| "tail_ops orders acc ((a, clb) # es) =
     (if acc = Some a then [] else [Op_AccountId a]) @ entry_ops orders clb @ tail_ops orders (Some a) es"

lemma write_account_log_ops:
  "bb_ops (write_account_log orders b (a, clb))
     = bb_ops b @ (if bb_current_account_id b = Some a then [] else [Op_AccountId a]) @ entry_ops orders clb"
proof -
  have sync: "bb_ops (foldl (write_sync_log orders a) b es)
      = bb_ops b @ map (\<lambda>(c, ch). Op_Log (LC_Sync c) (changes_serialize (fst orders) (snd orders) ch)) es" for b es
    by (induction es arbitrary: b) (auto simp: write_sync_log_def)
  have vanished: "bb_ops (foldl write_vanished_log b es)
      = bb_ops b @ map (\<lambda>(c, v). Op_Log (LC_Vanished c) (vanished_serialize v)) es" for b es
    by (induction es arbitrary: b) (auto simp: write_vanished_log_def)
  show ?thesis by (auto simp: write_account_log_def sync vanished entry_ops_def with_account_id_def)
qed

lemma serialize_ops:
  "bb_ops (serialize_changes orders b) = bb_ops b @ tail_ops orders (bb_current_account_id b) (vm_iter (bb_changes b))"
proof -
  have "bb_ops (foldl (write_account_log orders) b es) = bb_ops b @ tail_ops orders (bb_current_account_id b) es" for b es
  proof (induction es arbitrary: b)
    case (Cons e es)
    obtain a clb where "e = (a, clb)" by force
    then show ?case using Cons.IH [of "write_account_log orders b (a, clb)"]
      by (simp add: write_account_log_ops write_account_log_fields)
  qed simp
  from this [of "b\<lparr>bb_changes := vm_new\<rparr>"] show ?thesis
    by (auto simp: serialize_changes_def vm_is_empty_def vm_iter_def)
qed

definition entry_logs :: "set_orders \<Rightarrow> (u32 \<Rightarrow> u64) \<Rightarrow> u32 \<times> change_log_builder \<Rightarrow> (log_key \<times> bytes) list" where
  "entry_logs orders ids e = op_logs ids (Some (fst e)) (entry_ops orders (snd e))"

lemma op_logs_log_ops:
  "op_logs ids acc (map (\<lambda>x. Op_Log (f x) (g x)) xs @ ops) =
     map (\<lambda>x. (\<lparr>lk_account_id = the acc, lk_collection = log_collection_u8 (f x), lk_change_id = ids (the acc)\<rparr>, g x)) xs
     @ op_logs ids acc ops"
  by (induction xs) simp_all

lemma logs_ok_log_ops: "acc \<noteq> None \<Longrightarrow> logs_ok acc (map (\<lambda>x. Op_Log (f x) (g x)) xs @ ops) = logs_ok acc ops"
  by (induction xs) simp_all

lemma entry_ops_maps: "entry_ops orders clb @ ops =
    map (\<lambda>x. Op_Log (LC_Sync (fst x)) (changes_serialize (fst orders) (snd orders) (snd x))) (vm_iter (clb_changes clb))
    @ map (\<lambda>x. Op_Log (LC_Vanished (fst x)) (vanished_serialize (snd x))) (vm_iter (clb_vanished clb)) @ ops"
  by (simp add: entry_ops_def case_prod_unfold)

lemma entry_logs_list: "entry_logs orders ids (a, clb) =
    map (\<lambda>x. (\<lparr>lk_account_id = a, lk_collection = sync_collection_to_u8 (fst x), lk_change_id = ids a\<rparr>,
      changes_serialize (fst orders) (snd orders) (snd x))) (vm_iter (clb_changes clb))
    @ map (\<lambda>x. (\<lparr>lk_account_id = a, lk_collection = vanished_to_u8 (fst x), lk_change_id = ids a\<rparr>,
      vanished_serialize (snd x))) (vm_iter (clb_vanished clb))"
  using entry_ops_maps [of orders clb "[]"]
  by (simp add: entry_logs_def op_logs_log_ops op_logs_log_ops [where ops = "[]", simplified])

lemma tail_logs:
  "op_logs ids acc (tail_ops orders acc es) = concat (map (entry_logs orders ids) es)"
  "logs_ok acc (tail_ops orders acc es)"
proof (induction es arbitrary: acc)
  case (Cons e es)
  obtain a clb where e: "e = (a, clb)" by force
  {
    case 1
    then show ?case using Cons(1) [of "Some a"]
      by (simp add: e entry_ops_maps op_logs_log_ops entry_logs_list)
  next
    case 2
    then show ?case using Cons(2) [of "Some a"]
      by (simp add: e entry_ops_maps logs_ok_log_ops)
  }
qed simp_all

lemma quiet_prefix:
  assumes "list_all quiet_op ops"
  shows "op_logs ids acc (ops @ tail) = op_logs ids (fst (fold op_context ops (acc, c, d))) tail"
    and "logs_ok acc (ops @ tail) = logs_ok (fst (fold op_context ops (acc, c, d))) tail"
proof -
  have "op_logs ids acc (ops @ tail) = op_logs ids (fst (fold op_context ops (acc, c, d))) tail
      \<and> logs_ok acc (ops @ tail) = logs_ok (fst (fold op_context ops (acc, c, d))) tail"
    using assms
  proof (induction ops arbitrary: acc c d)
    case (Cons op ops)
    then show ?case by (cases op) simp_all
  qed simp
  then show "op_logs ids acc (ops @ tail) = op_logs ids (fst (fold op_context ops (acc, c, d))) tail"
    "logs_ok acc (ops @ tail) = logs_ok (fst (fold op_context ops (acc, c, d))) tail" by blast+
qed

subsection \<open>One commit\<close>

text \<open>The changes that a builder has recorded for an account and collection.\<close>

definition recorded :: "batch_builder \<Rightarrow> u32 \<Rightarrow> sync_collection \<Rightarrow> changes option" where
  "recorded b a sc = (case vm_get (bb_changes b) a of Some clb \<Rightarrow> vm_get (clb_changes clb) sc | None \<Rightarrow> None)"

lemma log_collection_u8_inject: "log_collection_u8 c = log_collection_u8 c' \<longleftrightarrow> c = c'"
proof -
  have "sync_collection_to_u8 x = sync_collection_to_u8 y \<longleftrightarrow> x = y" for x y
    by (cases x; cases y) (simp_all add: sync_collection_to_u8_def)
  moreover have "vanished_to_u8 v = vanished_to_u8 w \<longleftrightarrow> v = w" for v w by (cases v; cases w) simp_all
  moreover have "sync_collection_to_u8 x \<noteq> vanished_to_u8 v" for x v
    by (cases x; cases v) (simp_all add: sync_collection_to_u8_def)
  ultimately show ?thesis by (cases c; cases c') (auto dest: sym)
qed

lemma map_of_functional:
  assumes "\<And>v. (k, v) \<in> set xs \<longleftrightarrow> r = Some v"
  shows "map_of xs k = r"
proof (cases "map_of xs k")
  case None
  then have "(k, v) \<notin> set xs" for v by (auto simp: map_of_eq_None_iff rev_image_eqI)
  with None assms show ?thesis by (cases r) auto
next
  case (Some v)
  then show ?thesis using assms [of v] by (auto dest: map_of_SomeD)
qed

lemma entry_logs_mem:
  "(k, bs) \<in> set (entry_logs orders ids (a, clb)) \<longleftrightarrow>
     (\<exists>c ch. (c, ch) \<in> set (vm_iter (clb_changes clb)) \<and> bs = changes_serialize (fst orders) (snd orders) ch
        \<and> k = \<lparr>lk_account_id = a, lk_collection = sync_collection_to_u8 c, lk_change_id = ids a\<rparr>)
   \<or> (\<exists>c v. (c, v) \<in> set (vm_iter (clb_vanished clb)) \<and> bs = vanished_serialize v
        \<and> k = \<lparr>lk_account_id = a, lk_collection = vanished_to_u8 c, lk_change_id = ids a\<rparr>)"
  unfolding entry_logs_list set_append Un_iff set_map image_iff Bex_def split_paired_Ex fst_conv snd_conv prod.inject
  by blast

lemma builder_logs:
  assumes "bb_unique b"
  shows "map_of (rev (concat (map (entry_logs orders ids) (vm_iter (bb_changes b)))))
      \<lparr>lk_account_id = a, lk_collection = sync_collection_to_u8 sc, lk_change_id = i\<rparr> =
    (if i = ids a then map_option (changes_serialize (fst orders) (snd orders)) (recorded b a sc) else None)"
proof -
  let ?entries = "concat (map (entry_logs orders ids) (vm_iter (bb_changes b)))"
  let ?k = "\<lparr>lk_account_id = a, lk_collection = sync_collection_to_u8 sc, lk_change_id = i\<rparr>"
  have other: "sync_collection_to_u8 x = sync_collection_to_u8 y \<longleftrightarrow> x = y" "sync_collection_to_u8 x \<noteq> vanished_to_u8 v" for x y v
    using log_collection_u8_inject [of "LC_Sync x" "LC_Sync y"] log_collection_u8_inject [of "LC_Sync x" "LC_Vanished v"] by simp_all
  have "(?k, bs) \<in> set ?entries \<longleftrightarrow>
      i = ids a \<and> map_option (changes_serialize (fst orders) (snd orders)) (recorded b a sc) = Some bs" for bs
  proof -
    have "(?k, bs) \<in> set ?entries \<longleftrightarrow> (\<exists>clb. vm_get (bb_changes b) a = Some clb \<and> (?k, bs) \<in> set (entry_logs orders ids (a, clb)))"
    proof -
      have acc: "lk_account_id k = fst e" if "(k, bs) \<in> set (entry_logs orders ids e)" for e k
        using that by (cases e) (auto simp: entry_logs_mem)
      have "fst e = a" if "(?k, bs) \<in> set (entry_logs orders ids e)" for e
        using acc [OF that] by simp
      moreover have "(a, clb) \<in> set (vm_iter (bb_changes b)) \<longleftrightarrow> vm_get (bb_changes b) a = Some clb" for clb
        using assms by (simp add: bb_unique_def vecmap.entries_lookup)
      ultimately show ?thesis by (simp only: set_concat set_map UN_iff bex_simps Union_iff) (metis prod.collapse)
    qed
    also have "\<dots> \<longleftrightarrow> (\<exists>clb. vm_get (bb_changes b) a = Some clb \<and> i = ids a
        \<and> (\<exists>ch. vm_get (clb_changes clb) sc = Some ch \<and> bs = changes_serialize (fst orders) (snd orders) ch))"
    proof (intro ex_cong1 conj_cong refl)
      fix clb assume "vm_get (bb_changes b) a = Some clb"
      then have "vm_unique (clb_changes clb)" using assms by (simp add: bb_unique_def clb_unique_def)
      then show "(?k, bs) \<in> set (entry_logs orders ids (a, clb)) \<longleftrightarrow> i = ids a
          \<and> (\<exists>ch. vm_get (clb_changes clb) sc = Some ch \<and> bs = changes_serialize (fst orders) (snd orders) ch)"
        by (auto simp: entry_logs_mem other vecmap.entries_lookup)
    qed
    also have "\<dots> \<longleftrightarrow> i = ids a \<and> map_option (changes_serialize (fst orders) (snd orders)) (recorded b a sc) = Some bs"
      by (cases "vm_get (bb_changes b) a") (auto simp: recorded_def)
    finally show ?thesis .
  qed
  then show ?thesis by (intro map_of_functional) (simp only: set_rev split: if_split, simp)
qed

lemma exec_ops_ids:
  "exec_ops map_rocks with_ids ops (t, s) = Inr (t', s') \<Longrightarrow> last_change_id (cs_result s') a = last_change_id (cs_result s) a"
proof (induction ops arbitrary: t s)
  case (Cons op ops)
  then obtain t1 s1 where "exec_op map_rocks with_ids op (t, s) = Inr (t1, s1)" "exec_ops map_rocks with_ids ops (t1, s1) = Inr (t', s')"
    by (auto simp: result_iffs)
  then show ?case using Cons.IH exec_op_ids [of with_ids op t s t1 s1 a] by simp
qed simp

text \<open>A log key that no log operation of the batch names is left alone.\<close>

lemma exec_log_frame:
  assumes "exec_ops map_rocks with_ids ops (t, s) = Inr (t', s')" "logs_ok acc ops"
    and "\<And>c bs. Op_Log c bs \<in> set ops \<Longrightarrow> log_collection_u8 c \<noteq> lk_collection k"
    and "lk_collection k \<noteq> sync_collection_to_u8 Sync_ShareNotification"
  shows "tv_current t' SUBSPACE_LOGS (log_key_serialize k 0) = tv_current t SUBSPACE_LOGS (log_key_serialize k 0)"
  using assms(1-3)
proof (induction ops arbitrary: acc t s)
  case (Cons op ops)
  obtain t1 s1 where step: "exec_op map_rocks with_ids op (t, s) = Inr (t1, s1)" and rest: "exec_ops map_rocks with_ids ops (t1, s1) = Inr (t', s')"
    using Cons.prems(1) by (auto simp: result_iffs)
  have "guarded SUBSPACE_LOGS (log_key_serialize k 0)" using assms(4) by (auto simp: guarded_def)
  then have "tv_current t1 SUBSPACE_LOGS (log_key_serialize k 0) = tv_current t SUBSPACE_LOGS (log_key_serialize k 0)"
  proof (cases "quiet_op op")
    case False
    then obtain c bs where op: "op = Op_Log c bs" using Cons.prems(2) by (cases op) auto
    have "log_collection_u8 c \<noteq> lk_collection k" using Cons.prems(3) [of c bs] op by simp
    with step op show ?thesis by (auto simp: result_iffs Let_def kv_put_apply log_key_inject)
  qed (rule quiet_op_run [OF step])
  moreover obtain acc1 where "logs_ok acc1 ops" using Cons.prems(2) by (cases op) auto
  moreover have "log_collection_u8 c \<noteq> lk_collection k" if "Op_Log c bs \<in> set ops" for c bs
    using Cons.prems(3) [of c bs] that by simp
  ultimately show ?case using Cons.IH [OF rest] by metis
qed simp

lemma builder_ops:
  assumes "bb_reachable orders b" "bb_commit_points b = []" "list_all quiet_op (bb_ops b)"
  defines "ops \<equiv> bb_ops (serialize_changes orders b)"
  shows "logs_ok None ops"
    and "op_logs ids None ops = concat (map (entry_logs orders ids) (vm_iter (bb_changes b)))"
    and "Op_Log c bs \<in> set ops \<Longrightarrow> \<exists>a clb. (a, clb) \<in> set (vm_iter (bb_changes b)) \<and> Op_Log c bs \<in> set (entry_ops orders clb)"
proof -
  have acc: "fst (fold op_context (bb_ops b) (None, None, None)) = bb_current_account_id b"
    using bb_reachable_inv [OF assms(1)] assms(2)
    by (auto simp: bb_inv_def open_slice_def last_point_def ops_context_def split: prod.splits)
  show "logs_ok None ops" "op_logs ids None ops = concat (map (entry_logs orders ids) (vm_iter (bb_changes b)))"
    unfolding ops_def serialize_ops quiet_prefix [OF assms(3), where c = None and d = None] acc by (rule tail_logs)+
  have "Op_Log c bs \<in> set (tail_ops orders acc es) \<Longrightarrow> \<exists>a clb. (a, clb) \<in> set es \<and> Op_Log c bs \<in> set (entry_ops orders clb)" for acc es
    by (induction es arbitrary: acc) (fastforce split: if_splits)+
  moreover have "Op_Log c bs \<notin> set (bb_ops b)" using assms(3) by (auto simp: list_all_iff)
  ultimately show "\<exists>a clb. (a, clb) \<in> set (vm_iter (bb_changes b)) \<and> Op_Log c bs \<in> set (entry_ops orders clb)"
    if "Op_Log c bs \<in> set ops" using that unfolding ops_def serialize_ops by auto
qed

lemma recorded_changed:
  assumes "bb_unique b" "recorded b a sc \<noteq> None"
  shows "a \<in> set (vm_keys (bb_changed_collections (serialize_changes orders b)))"
proof -
  obtain clb ch where clb: "vm_get (bb_changes b) a = Some clb" "vm_get (clb_changes clb) sc = Some ch"
    using assms(2) by (auto simp: recorded_def split: option.splits)
  then have "(a, clb) \<in> set (vm_iter (bb_changes b))" "vm_iter (clb_changes clb) \<noteq> []"
    using assms(1) by (auto simp: vecmap.entries_lookup bb_unique_def vm_get_map_of)
  moreover from this(1) have "\<not> vm_is_empty (bb_changes b)" by (auto simp: vm_is_empty_def vm_iter_def)
  ultimately have "vm_get (bb_changed_collections (serialize_changes orders b)) a \<noteq> None"
    using serialize_changed [of "b\<lparr>bb_changes := vm_new\<rparr>" orders "vm_iter (bb_changes b)"] assms(1)
    by (auto simp: serialize_changes_def bb_unique_def)
  then show ?thesis by (simp add: vm_get_map_of map_of_eq_None_iff vm_keys_iter)
qed

text \<open>
  What a commit of a builder that was never cut into slices does to change ids and log: every account
  with changed collections moves on by one change id, and the changes recorded for an account and
  collection become the log entry under the new change id of the account.
\<close>

lemma commit_effect:
  assumes "bb_reachable orders b" "bb_commit_points b = []" "list_all quiet_op (bb_ops b)"
    and "store_commit (fst (build_all orders b)) m = Inr (ids, m')" "sc \<noteq> Sync_ShareNotification"
  shows "m' SUBSPACE_LOGS (log_key_serialize \<lparr>lk_account_id = a, lk_collection = sync_collection_to_u8 sc, lk_change_id = i\<rparr> 0) =
      (case recorded b a sc of
         Some ch \<Rightarrow> if last_change_id ids a = Some i then Present (changes_serialize (fst orders) (snd orders) ch)
           else m SUBSPACE_LOGS (log_key_serialize \<lparr>lk_account_id = a, lk_collection = sync_collection_to_u8 sc, lk_change_id = i\<rparr> 0)
       | None \<Rightarrow> m SUBSPACE_LOGS (log_key_serialize \<lparr>lk_account_id = a, lk_collection = sync_collection_to_u8 sc, lk_change_id = i\<rparr> 0))
    \<and> (recorded b a sc \<noteq> None \<longrightarrow> last_change_id ids a = change_counter m' a)
    \<and> (change_counter m' a = change_counter m a \<and> recorded b a sc = None
       \<or> change_counter m' a = map_option (\<lambda>n. n + 1) (change_counter m a) \<and> change_counter m a \<noteq> None)"
proof -
  let ?b = "serialize_changes orders b"
  let ?batch = "\<lparr>wb_changes = bb_changed_collections ?b, wb_ops = bb_ops ?b\<rparr>"
  let ?accounts = "vm_keys (bb_changed_collections ?b)"
  let ?k = "\<lparr>lk_account_id = a, lk_collection = sync_collection_to_u8 sc, lk_change_id = i\<rparr>"
  let ?with_ids = "\<not> vm_is_empty (bb_changed_collections ?b)"
  have unique: "bb_unique b" by (rule bb_reachable_unique [OF assms(1)])
  have distinct: "distinct ?accounts" using bb_unique_serialize [OF unique] by (simp add: bb_unique_def vm_unique_def)
  have share: "lk_collection ?k \<noteq> sync_collection_to_u8 Sync_ShareNotification"
    using log_collection_u8_inject [of "LC_Sync sc" "LC_Sync Sync_ShareNotification"] assms(5) by simp
  note ops = builder_ops [OF assms(1-3)]
  obtain t s where r: "store_run ?batch m = Inr (t, s)" and final: "ids = cs_result s" "m' = tv_current t"
    using assms(4) by (auto simp: build_all_def Let_def store_commit_run result_iffs)
  obtain t1 result where start: "(if ?with_ids then assign_change_ids map_rocks ?accounts
        (rx_begin map_rocks m, assigned_ids_default) else Inr (rx_begin map_rocks m, assigned_ids_default)) = Inr (t1, result)"
    and run: "exec_ops map_rocks ?with_ids (bb_ops ?b) (t1, cs_start result) = Inr (t, s)"
    using store_runE [OF r, unfolded write_batch.simps] .
  have counters: "change_counter m' a = change_counter (tv_current t1) a"
    unfolding final by (rule exec_counters [OF run ops(1)])
  have ids: "last_change_id ids a = last_change_id result a" for a
    unfolding final using exec_ops_ids [OF run] by (simp add: cs_start_result)
  have logs: "tv_current t1 SUBSPACE_LOGS = m SUBSPACE_LOGS"
    using start assign_keeps [where P = "\<lambda>u. tv_current u SUBSPACE_LOGS = m SUBSPACE_LOGS"]
    by (auto simp: kv_put_def subspace_defs split: if_splits)
  show ?thesis
  proof (cases ?with_ids)
    case True
    from start True have assign: "assign_change_ids map_rocks ?accounts (rx_begin map_rocks m, assigned_ids_default) = Inr (t1, result)"
      by simp
    have "m' SUBSPACE_LOGS (log_key_serialize ?k 0)
        = log_lookup (op_logs (\<lambda>a. the (last_change_id result a)) None (bb_ops ?b)) (tv_current t1) ?k"
      unfolding final
      by (rule exec_logs [OF run [unfolded eqTrueI [OF True]] ops(1) _ _ share]) (auto simp: account_ids_def cs_start_result)
    then have log: "m' SUBSPACE_LOGS (log_key_serialize ?k 0) =
        (case if i = the (last_change_id result a) then map_option (changes_serialize (fst orders) (snd orders)) (recorded b a sc) else None
         of Some bs \<Rightarrow> Present bs | None \<Rightarrow> m SUBSPACE_LOGS (log_key_serialize ?k 0))"
      by (simp only: log_lookup_def ops(2) builder_logs [OF unique] logs)
    note assigned = assign_ids [OF assign distinct, simplified]
    show ?thesis
    proof (cases "recorded b a sc")
      case (Some ch)
      then have "a \<in> set ?accounts" using recorded_changed [OF unique, of a sc orders] by simp
      with assigned obtain n where "change_counter m a = Some n" "change_counter (tv_current t1) a = Some (n + 1)"
        "last_change_id result a = Some (n + 1)" by fastforce
      with log Some show ?thesis by (auto simp: ids counters)
    next
      case None
      have "change_counter (tv_current t1) a = change_counter m a
          \<or> change_counter (tv_current t1) a = map_option (\<lambda>n. n + 1) (change_counter m a) \<and> change_counter m a \<noteq> None"
        using assigned by (cases "a \<in> set ?accounts") auto
      with log None show ?thesis by (simp add: counters)
    qed
  next
    case False
    then have none: "?accounts = []" "t1 = rx_begin map_rocks m"
      using start by (auto simp: vm_is_empty_def vm_keys_def)
    then have unrecorded: "recorded b x c = None" for x c
      using recorded_changed [OF unique, of x c orders] by (cases "recorded b x c") auto
    have vanished: "log_collection_u8 c \<noteq> lk_collection ?k" if op: "Op_Log c bs \<in> set (bb_ops ?b)" for c bs
    proof -
      obtain x clb where x: "(x, clb) \<in> set (vm_iter (bb_changes b))" "Op_Log c bs \<in> set (entry_ops orders clb)"
        using ops(3) [OF op] by blast
      have "vm_get (bb_changes b) x = Some clb" using x(1) unique by (simp add: bb_unique_def vecmap.entries_lookup)
      then have "vm_get (clb_changes clb) y = None" for y using unrecorded [of x y] by (simp add: recorded_def)
      then have "vm_get (clb_changes clb) = Map.empty" by (rule ext)
      then have "vm_iter (clb_changes clb) = []" by (simp add: vm_get_map_of)
      then obtain v where "c = LC_Vanished v" using x(2) by (auto simp: entry_ops_def)
      then show ?thesis using log_collection_u8_inject [of "LC_Vanished v" "LC_Sync sc"] by simp
    qed
    have "m' SUBSPACE_LOGS (log_key_serialize ?k 0) = tv_current t1 SUBSPACE_LOGS (log_key_serialize ?k 0)"
      unfolding final by (rule exec_log_frame [OF run ops(1) vanished share])
    then show ?thesis by (simp add: none(2) unrecorded counters)
  qed
qed

subsection \<open>The history of an account\<close>

text \<open>
  A store that starts empty and on which builders are committed, with the events that the batches
  logged for one account and collection under the change ids that they were given. Change ids must
  not run over.
\<close>

inductive log_history :: "set_orders \<Rightarrow> u32 \<Rightarrow> sync_collection \<Rightarrow> kv \<Rightarrow> (u64 \<times> log_event list) list \<Rightarrow> bool"
  for orders a sc where
  start: "log_history orders a sc (\<lambda>_ _. Absent) []"
| logged: "log_history orders a sc m hist \<Longrightarrow> bb_reachable orders b \<Longrightarrow> bb_commit_points b = [] \<Longrightarrow>
    list_all quiet_op (bb_ops b) \<Longrightarrow> store_commit (fst (build_all orders b)) m = Inr (ids, m') \<Longrightarrow>
    change_counter m a \<noteq> Some (- 1) \<Longrightarrow> recorded b a sc = Some (batch_changes evs) \<Longrightarrow>
    last_change_id ids a = Some i \<Longrightarrow> log_history orders a sc m' (hist @ [(i, evs)])"
| unlogged: "log_history orders a sc m hist \<Longrightarrow> bb_reachable orders b \<Longrightarrow> bb_commit_points b = [] \<Longrightarrow>
    list_all quiet_op (bb_ops b) \<Longrightarrow> store_commit (fst (build_all orders b)) m = Inr (ids, m') \<Longrightarrow>
    change_counter m a \<noteq> Some (- 1) \<Longrightarrow> recorded b a sc = None \<Longrightarrow> log_history orders a sc m' hist"

text \<open>
  The invariant: the counter is readable and no change id is beyond it, change ids increase, and the
  log of the collection holds exactly the changes of the history.
\<close>

definition history_inv :: "set_orders \<Rightarrow> u32 \<Rightarrow> sync_collection \<Rightarrow> kv \<Rightarrow> (u64 \<times> log_event list) list \<Rightarrow> bool" where
  "history_inv orders a sc m hist \<longleftrightarrow>
     (\<exists>n. change_counter m a = Some n \<and> (\<forall>(i, evs) \<in> set hist. i \<le> n))
   \<and> sorted_wrt (<) (map fst hist)
   \<and> (\<forall>i. m SUBSPACE_LOGS (log_key_serialize \<lparr>lk_account_id = a, lk_collection = sync_collection_to_u8 sc, lk_change_id = i\<rparr> 0)
        = (case map_of hist i of
             Some evs \<Rightarrow> Present (changes_serialize (fst orders) (snd orders) (batch_changes evs)) | None \<Rightarrow> Absent))"

lemma word_less_succ: "n \<noteq> - 1 \<Longrightarrow> n < n + (1 :: u64)"
proof -
  assume "n \<noteq> - 1"
  then have "unat n \<noteq> unat (- 1 :: u64)" by (simp add: word_unat_eq_iff)
  moreover have "unat (- 1 :: u64) = 18446744073709551615"
    by (simp add: unsigned_minus_1_eq_mask mask_eq_exp_minus_1)
  ultimately have "unat n + 1 < 2 ^ 64" using unat_u64_less [of n] by simp
  then show ?thesis by (simp add: word_less_nat_alt unat_word_ariths)
qed

lemma history_step:
  assumes inv: "history_inv orders a sc m hist" and share: "sc \<noteq> Sync_ShareNotification"
    and b: "bb_reachable orders b" "bb_commit_points b = []" "list_all quiet_op (bb_ops b)"
    and commit: "store_commit (fst (build_all orders b)) m = Inr (ids, m')" and room: "change_counter m a \<noteq> Some (- 1)"
  shows "recorded b a sc = None \<Longrightarrow> history_inv orders a sc m' hist"
    and "recorded b a sc = Some (batch_changes evs) \<Longrightarrow> last_change_id ids a = Some i \<Longrightarrow> history_inv orders a sc m' (hist @ [(i, evs)])"
proof -
  obtain n where n: "change_counter m a = Some n" "\<forall>(i, evs) \<in> set hist. i \<le> n" using inv by (auto simp: history_inv_def)
  have less: "n < n + 1" using room n(1) by (intro word_less_succ) auto
  note effect = commit_effect [OF b commit share, of a]
  show "history_inv orders a sc m' hist" if "recorded b a sc = None"
  proof -
    have "\<exists>n'. change_counter m' a = Some n' \<and> n \<le> n'"
      using effect [of 0] that n(1) less_imp_le [OF less] by auto
    then show ?thesis using inv effect that n by (auto simp: history_inv_def) force
  qed
  assume r: "recorded b a sc = Some (batch_changes evs)" and i: "last_change_id ids a = Some i"
  have c: "change_counter m' a = Some (n + 1)" "i = n + 1" using effect [of 0] r i n(1) by auto
  have before: "j < i" if "(j, es) \<in> set hist" for j es
    using n(2) that less unfolding c(2) by (auto intro: le_less_trans)
  then have fresh: "map_of hist i = None" using before [of i] by (auto simp: map_of_eq_None_iff)
  show "history_inv orders a sc m' (hist @ [(i, evs)])"
    unfolding history_inv_def
  proof (intro conjI exI [of _ "n + 1"] allI)
    show "change_counter m' a = Some (n + 1)" by (rule c(1))
    show "\<forall>(j, es) \<in> set (hist @ [(i, evs)]). j \<le> n + 1" using before c(2) by (auto intro: less_imp_le)
    show "sorted_wrt (<) (map fst (hist @ [(i, evs)]))"
      using inv before by (auto simp: history_inv_def sorted_wrt_append)
    fix j
    show "m' SUBSPACE_LOGS (log_key_serialize \<lparr>lk_account_id = a, lk_collection = sync_collection_to_u8 sc, lk_change_id = j\<rparr> 0)
        = (case map_of (hist @ [(i, evs)]) j of
             Some evs \<Rightarrow> Present (changes_serialize (fst orders) (snd orders) (batch_changes evs)) | None \<Rightarrow> Absent)"
      using effect [of j] inv r i fresh by (auto simp: history_inv_def map_add_def split: option.split)
  qed
qed

lemma log_history_inv:
  assumes "log_history orders a sc m hist" "sc \<noteq> Sync_ShareNotification"
  shows "history_inv orders a sc m hist"
  using assms(1)
proof induction
  case start
  then show ?case by (simp add: history_inv_def change_counter_def)
next
  case (logged m hist b ids m' evs i)
  then show ?case using history_step(2) [OF _ assms(2)] by blast
next
  case (unlogged m hist b ids m')
  then show ?case using history_step(1) [OF _ assms(2)] by blast
qed

subsection \<open>Reading the history back\<close>

text \<open>The log entries of a store, in the order in which a scan meets them.\<close>

definition log_view :: "kv \<Rightarrow> log_store \<Rightarrow> bool" where
  "log_view m store \<longleftrightarrow>
     sorted_wrt (\<lambda>e e'. log_key_serialize (fst e) 0 < log_key_serialize (fst e') 0) store
   \<and> (\<forall>k. m SUBSPACE_LOGS (log_key_serialize k 0) = (case map_of store k of Some v \<Rightarrow> Present v | None \<Rightarrow> Absent))"

lemma sorted_maps_equal:
  fixes xs ys :: "('k::linorder \<times> 'v) list"
  assumes "sorted_wrt (<) (map fst xs)" "sorted_wrt (<) (map fst ys)" "map_of xs = map_of ys"
  shows "xs = ys"
proof (rule map_sorted_distinct_set_unique [where f = fst])
  show "sorted (map fst xs)" "distinct (map fst xs)" "sorted (map fst ys)" "distinct (map fst ys)"
    using assms(1,2) by (simp_all add: strict_sorted_iff)
  then show eq: "set xs = set ys" using assms(3) by (auto simp: map_of_is_SomeI dest!: map_of_SomeD) (metis map_of_eq_Some_iff)+
  show "inj_on fst (set xs \<union> set ys)" unfolding eq using \<open>distinct (map fst ys)\<close> by (simp add: distinct_map)
qed

lemma history_entries:
  assumes "history_inv orders a sc m hist" "log_view m store"
  shows "filter (\<lambda>(k, v). lk_account_id k = a \<and> lk_collection k = sync_collection_to_u8 sc) store
    = log_entries (fst orders) (snd orders) a (sync_collection_to_u8 sc) hist"
proof -
  let ?c = "sync_collection_to_u8 sc"
  let ?key = "\<lambda>i. \<lparr>lk_account_id = a, lk_collection = ?c, lk_change_id = i\<rparr>"
  let ?mine = "filter (\<lambda>(k, v). lk_account_id k = a \<and> lk_collection k = ?c) store"
  let ?xs = "map (\<lambda>(k, v). (lk_change_id k, v)) ?mine"
  let ?ys = "map (\<lambda>(i, evs). (i, changes_serialize (fst orders) (snd orders) (batch_changes evs))) hist"
  have key: "k = ?key (lk_change_id k)" if "(k, v) \<in> set ?mine" for k v using that by (auto intro: log_key.equality)
  have "sorted_wrt (\<lambda>e e'. log_key_serialize (fst e) 0 < log_key_serialize (fst e') 0) ?mine"
    using assms(2) by (auto simp: log_view_def intro: sorted_wrt_filter)
  then have "sorted_wrt (\<lambda>e e'. lk_change_id (fst e) < lk_change_id (fst e')) ?mine"
    by (rule sorted_wrt_mono_rel [rotated]) (auto simp: log_key_less)
  then have "sorted_wrt (<) (map fst ?xs)" by (simp add: sorted_wrt_map case_prod_unfold)
  moreover have "sorted_wrt (<) (map fst ?ys)" using assms(1) by (simp add: history_inv_def case_prod_unfold comp_def)
  moreover have "map_of ?xs = map_of ?ys"
  proof
    fix i
    have "map_of ?xs i = map_of store (?key i)"
    proof (induction store)
      case (Cons e store)
      obtain k v where e: "e = (k, v)" by force
      have "?key i = k \<longleftrightarrow> lk_account_id k = a \<and> lk_collection k = ?c \<and> i = lk_change_id k" by (cases k) auto
      with Cons show ?case by (simp add: e)
    qed simp
    moreover have "map_of ?ys i = map_option (\<lambda>evs. changes_serialize (fst orders) (snd orders) (batch_changes evs)) (map_of hist i)"
      by (induction hist) auto
    moreover have "(case map_of store (?key i) of Some v \<Rightarrow> Present v | None \<Rightarrow> Absent)
        = (case map_of hist i of Some evs \<Rightarrow> Present (changes_serialize (fst orders) (snd orders) (batch_changes evs)) | None \<Rightarrow> Absent)"
      using assms by (simp add: log_view_def history_inv_def)
    ultimately show "map_of ?xs i = map_of ?ys i" by (auto split: option.splits)
  qed
  ultimately have eq: "?xs = ?ys" by (rule sorted_maps_equal)
  have "?mine = map (\<lambda>(i, v). (?key i, v)) ?xs"
    using key by (auto simp: comp_def intro!: map_idI [symmetric])
  also have "\<dots> = log_entries (fst orders) (snd orders) a ?c hist"
    unfolding eq by (simp add: log_entries_def case_prod_unfold comp_def)
  finally show ?thesis .
qed

subsection \<open>Properties\<close>


text \<open>A batch that inserts one message, for the witnesses.\<close>

definition sample_builder :: batch_builder where
  "sample_builder = bb_log_item_insert Sync_Email None (with_document 1 (with_account_id 9 bb_new))"

definition sample_orders :: set_orders where
  "sample_orders = (sorted_list_of_set, sorted_list_of_set)"

definition sample_key :: log_key where
  "sample_key = \<lparr>lk_account_id = 9, lk_collection = sync_collection_to_u8 Sync_Email, lk_change_id = 1\<rparr>"

definition sample_bytes :: bytes where
  "sample_bytes = changes_serialize (fst sample_orders) (snd sample_orders) (batch_changes [LE_Item (Inserted 1)])"

lemma sample_reachable: "bb_reachable orders sample_builder"
  unfolding sample_builder_def
  by (intro bb_reachable.step [OF _ bb_step.item_insert] bb_reachable.step [OF _ bb_step.document]
      bb_reachable.step [OF _ bb_step.account] bb_reachable.start)

lemma sample_fields:
  "bb_ops sample_builder = [Op_AccountId 9, Op_DocumentId 1]" "bb_commit_points sample_builder = []"
  "bb_changes sample_builder = VecMap [KeyValue 9 \<lparr>clb_changes = VecMap [KeyValue Sync_Email (batch_changes [LE_Item (Inserted 1)])],
     clb_vanished = vm_new\<rparr>]"
  by (simp_all add: sample_builder_def bb_log_item_insert_def bb_on_current_def with_document_def with_account_id_def
      bb_new_def bb_push_def bb_on_log_def vm_modify_def vm_get_mut_or_insert_with_def vm_new_def log_item_insert_def
      clb_on_changes_def clb_default_def batch_changes_def build_id_def)

definition sample_store :: kv where
  "sample_store = kv_put SUBSPACE_LOGS (log_key_serialize sample_key 0) (Present sample_bytes)
     (kv_put SUBSPACE_COUNTER (to_be_bytes (9 :: u32)) (Present (to_le_bytes (1 :: u64))) (\<lambda>_ _. Absent))"

lemma sample_batch:
  "wb_ops (fst (build_all sample_orders sample_builder)) = [Op_AccountId 9, Op_DocumentId 1, Op_Log (LC_Sync Sync_Email) sample_bytes]"
  "\<not> vm_is_empty (wb_changes (fst (build_all sample_orders sample_builder)))"
  "vm_keys (wb_changes (fst (build_all sample_orders sample_builder))) = [9]"
proof -
  have acc: "bb_current_account_id sample_builder = Some 9" "bb_changed_collections sample_builder = vm_new"
    by (simp_all add: sample_builder_def bb_log_item_insert_def bb_on_current_def with_document_def with_account_id_def
        bb_new_def bb_push_def bb_on_log_def)
  show "wb_ops (fst (build_all sample_orders sample_builder)) = [Op_AccountId 9, Op_DocumentId 1, Op_Log (LC_Sync Sync_Email) sample_bytes]"
    by (simp add: build_all_def Let_def serialize_ops sample_fields acc vm_iter_def entry_ops_def vm_new_def sample_bytes_def)
  have "bb_changed_collections (serialize_changes sample_orders sample_builder)
      = vm_modify vm_new 9 cc_default (mark_changed Sync_Email (batch_changes [LE_Item (Inserted 1)]))"
    by (simp add: serialize_changes_def sample_fields vm_is_empty_def vm_iter_def write_account_log_def
        write_sync_log_def with_account_id_def acc vm_new_def)
  then show "\<not> vm_is_empty (wb_changes (fst (build_all sample_orders sample_builder)))"
    "vm_keys (wb_changes (fst (build_all sample_orders sample_builder))) = [9]"
    by (simp_all add: build_all_def Let_def vm_modify_def vm_get_mut_or_insert_with_def vm_new_def vm_is_empty_def vm_keys_def)
qed

lemma sample_commit:
  "\<exists>ids. store_commit (fst (build_all sample_orders sample_builder)) (\<lambda>_ _. Absent) = Inr (ids, sample_store)
    \<and> last_change_id ids 9 = Some 1"
  by (simp add: store_commit_run store_run_def Let_def sample_batch map_rocks_get cs_start_def
      set_current_change_id_def last_change_id_push sample_store_def sample_key_def)

lemma sample_history: "log_history sample_orders 9 Sync_Email sample_store ([] @ [(1, [LE_Item (Inserted 1)])])"
proof -
  obtain ids where "store_commit (fst (build_all sample_orders sample_builder)) (\<lambda>_ _. Absent) = Inr (ids, sample_store)"
    "last_change_id ids 9 = Some 1" using sample_commit by blast
  moreover have "recorded sample_builder 9 Sync_Email = Some (batch_changes [LE_Item (Inserted 1)])"
    by (simp add: recorded_def sample_fields vm_get_def)
  ultimately show ?thesis
    by (intro log_history.logged [OF log_history.start sample_reachable])
      (simp_all add: sample_fields change_counter_def)
qed




end
