(* ===== verification/ObjectIndex.thy ===== *)
theory ObjectIndex
  imports StoreLog Snowflake
begin

text \<open>
  Stored objects and their indexes, \<open>crates/common/src/storage/index.rs\<close>, with the notifications of
  changed shares of \<open>crates/common/src/sharing/notification.rs\<close>. An object lists its index values:
  keys of the index, properties, blobs, grants, quota and what to log. Writing, changing or deleting an
  object adds to a batch the operations that bring the rows of the document from the values of the old
  object to those of the new one. The clock, random numbers and due times that a call reads are
  arguments, given by the position of the index value; the bytes of an object and its index values are
  what its implementation of the traits gives.
\<close>

section \<open>The program\<close>

subsection \<open>Share notifications\<close>

record share_notification =
  sn_object_account_id :: u32
  sn_object_id :: u32
  sn_object_type :: collection
  sn_changed_by :: u32
  sn_old_rights :: "acl bitmap"
  sn_new_rights :: "acl bitmap"
  sn_name :: bytes

definition sn_serialize :: "share_notification \<Rightarrow> bytes" where
  "sn_serialize n = ks_chain ks_new [write_be (sn_object_account_id n), write_be (sn_object_id n),
     write_u8 (collection_to_u8 (sn_object_type n)), write_be (sn_changed_by n),
     write_be (bits (sn_old_rights n)), write_be (bits (sn_new_rights n)), write_slice (sn_name n)]"

text \<open>A name that is not UTF-8 reads as empty.\<close>

definition sn_deserialize :: "bytes \<Rightarrow> share_notification option" where
  "sn_deserialize bs =
     Option.bind (deserialize_be_u32 bs 0) (\<lambda>object_account_id.
     Option.bind (deserialize_be_u32 bs U32_LEN) (\<lambda>object_id.
     Option.bind (get_range bs (U32_LEN * 2) (U32_LEN * 2 + 1)) (\<lambda>object_type.
     Option.bind (deserialize_be_u32 bs (U32_LEN * 2 + 1)) (\<lambda>changed_by.
     Option.bind (deserialize_be_u64 bs (U32_LEN * 3 + 1)) (\<lambda>old_rights.
     Option.bind (deserialize_be_u64 bs (U32_LEN * 3 + U64_LEN + 1)) (\<lambda>new_rights.
       let name = drop (4 * 3 + 8 * 2 + 1) bs
       in Some \<lparr>sn_object_account_id = object_account_id, sn_object_id = object_id,
            sn_object_type = collection_from_u8 (hd object_type), sn_changed_by = changed_by,
            sn_old_rights = Bitmap old_rights, sn_new_rights = Bitmap new_rights,
            sn_name = (if utf8_valid name then name else [])\<rparr>))))))"

subsection \<open>Index values\<close>

datatype index_item =
    II_Vec bytes
  | II_Slice bytes
  | II_ShortInt bytes
  | II_LongInt bytes
  | II_Hash cheeky_hash
  | II_None

fun ii_as_slice :: "index_item \<Rightarrow> bytes" where
  "ii_as_slice (II_Vec v) = v"
| "ii_as_slice (II_Slice s) = s"
| "ii_as_slice (II_ShortInt s) = s"
| "ii_as_slice (II_LongInt s) = s"
| "ii_as_slice (II_Hash h) = ch_as_bytes h"
| "ii_as_slice II_None = []"

fun ii_into_owned :: "index_item \<Rightarrow> bytes" where
  "ii_into_owned (II_Vec v) = v"
| "ii_into_owned (II_Slice s) = s"
| "ii_into_owned (II_ShortInt s) = s"
| "ii_into_owned (II_LongInt s) = s"
| "ii_into_owned (II_Hash h) = ch_as_bytes h"
| "ii_into_owned II_None = []"

fun ii_is_empty :: "index_item \<Rightarrow> bool" where
  "ii_is_empty (II_Vec v) \<longleftrightarrow> v = []"
| "ii_is_empty (II_Slice s) \<longleftrightarrow> s = []"
| "ii_is_empty II_None \<longleftrightarrow> True"
| "ii_is_empty _ \<longleftrightarrow> False"

definition ii_is_none :: "index_item \<Rightarrow> bool" where
  "ii_is_none v \<longleftrightarrow> v = II_None"

definition ii_is_some :: "index_item \<Rightarrow> bool" where
  "ii_is_some v \<longleftrightarrow> \<not> ii_is_none v"

definition ii_eq :: "index_item \<Rightarrow> index_item \<Rightarrow> bool" where
  "ii_eq v w \<longleftrightarrow> ii_as_slice v = ii_as_slice w"

definition ii_from_u32 :: "u32 \<Rightarrow> index_item" where "ii_from_u32 v = II_ShortInt (to_be_bytes v)"
definition ii_from_u64 :: "u64 \<Rightarrow> index_item" where "ii_from_u64 v = II_LongInt (to_be_bytes v)"

definition ii_from_option :: "('a \<Rightarrow> index_item) \<Rightarrow> 'a option \<Rightarrow> index_item" where
  "ii_from_option f v = (case v of Some v \<Rightarrow> f v | None \<Rightarrow> II_None)"

datatype index_value =
    IV_Index u8 index_item
  | IV_Property value_class index_item
  | IV_SearchIndex search_index u64
  | IV_Blob bytes
  | IV_Quota u32
  | IV_LogContainer sync_collection
  | IV_LogContainerProperty sync_collection "u32 list"
  | IV_LogItem sync_collection "u32 option"
  | IV_Acl "acl_grant list"

text \<open>The derived equality, which compares items by their bytes.\<close>

fun iv_eq :: "index_value \<Rightarrow> index_value \<Rightarrow> bool" where
  "iv_eq (IV_Index f v) (IV_Index g w) \<longleftrightarrow> f = g \<and> ii_eq v w"
| "iv_eq (IV_Property f v) (IV_Property g w) \<longleftrightarrow> f = g \<and> ii_eq v w"
| "iv_eq v w \<longleftrightarrow> v = w"

subsection \<open>Writing one index value\<close>

record call_env =
  ce_now :: int
  ce_random :: u64
  ce_due :: task_epoch

definition notification_id :: "call_env \<Rightarrow> batch_builder \<Rightarrow> u64" where
  "notification_id env b =
     (let object_account_id = (case bb_current_account_id b of Some a \<Rightarrow> a | None \<Rightarrow> 0);
          object_type = (case bb_current_collection b of Some c \<Rightarrow> c | None \<Rightarrow> Coll_None)
      in case from_sequence_and_node_id (ce_now env) (ce_random env)
             (ucast (collection_to_u8 object_type) XOR ucast object_account_id) None of
           Some i \<Rightarrow> i | None \<Rightarrow> 0)"

definition share_change :: "batch_builder \<Rightarrow> u32 \<Rightarrow> acl bitmap \<Rightarrow> acl bitmap \<Rightarrow> share_notification" where
  "share_change b changed_by old_rights new_rights =
     \<lparr>sn_object_account_id = (case bb_current_account_id b of Some a \<Rightarrow> a | None \<Rightarrow> 0),
      sn_object_id = (case bb_current_document_id b of Some d \<Rightarrow> d | None \<Rightarrow> 0),
      sn_object_type = (case bb_current_collection b of Some c \<Rightarrow> c | None \<Rightarrow> Coll_None),
      sn_changed_by = changed_by, sn_old_rights = old_rights, sn_new_rights = new_rights, sn_name = []\<rparr>"

text \<open>Granting and revoking with a notification; the builder \<open>b0\<close> is the one at the start of the loop.\<close>

definition grant_and_notify :: "call_env \<Rightarrow> u32 \<Rightarrow> batch_builder \<Rightarrow> acl bitmap \<Rightarrow> acl_grant \<Rightarrow> batch_builder \<Rightarrow> batch_builder" where
  "grant_and_notify env changed_by b0 old_rights item b =
     bb_log_share_notification (notification_id env b0) (ag_account_id item)
       (sn_serialize (share_change b0 changed_by old_rights (ag_grants item)))
       (bb_acl_grant (ag_account_id item) (to_be_bytes (bits (ag_grants item))) b)"

definition revoke_and_notify :: "call_env \<Rightarrow> u32 \<Rightarrow> batch_builder \<Rightarrow> acl_grant \<Rightarrow> batch_builder \<Rightarrow> batch_builder" where
  "revoke_and_notify env changed_by b0 item b =
     bb_log_share_notification (notification_id env b0) (ag_account_id item)
       (sn_serialize (share_change b0 changed_by (ag_grants item) bm_new))
       (bb_acl_revoke (ag_account_id item) b)"

definition add_quota :: "u32 option \<Rightarrow> int \<Rightarrow> batch_builder \<Rightarrow> batch_builder" where
  "add_quota tenant_id v b =
     (let b = (case bb_current_account_id b of
          Some account_id \<Rightarrow> bb_add (VC_Directory (Dir_UsedQuota account_id)) v b | None \<Rightarrow> b)
      in case tenant_id of Some tenant_id \<Rightarrow> bb_add (VC_Directory (Dir_UsedQuota tenant_id)) v b | None \<Rightarrow> b)"

fun build_index :: "call_env \<Rightarrow> index_value \<Rightarrow> u32 \<Rightarrow> u32 option \<Rightarrow> bool \<Rightarrow> batch_builder \<Rightarrow> batch_builder" where
  "build_index env (IV_Index field v) changed_by tenant_id is_set b =
     (if \<not> ii_is_empty v
      then if is_set then bb_index field (ii_into_owned v) b else bb_unindex field (ii_into_owned v) b
      else b)"
| "build_index env (IV_SearchIndex index _) changed_by tenant_id is_set b =
     bb_set (VC_TaskQueue (TQ_UpdateIndex (ce_due env) index is_set)) [] b"
| "build_index env (IV_Property field v) changed_by tenant_id is_set b =
     (if \<not> ii_is_none v then if is_set then bb_set field (ii_into_owned v) b else bb_clear field b else b)"
| "build_index env (IV_Blob v) changed_by tenant_id is_set b =
     (if is_set then bb_set (VC_Blob (Blob_Link v BL_Document)) [] b
      else bb_clear (VC_Blob (Blob_Link v BL_Document)) b)"
| "build_index env (IV_Acl v) changed_by tenant_id is_set b =
     fold (\<lambda>item. if is_set then grant_and_notify env changed_by b bm_new item
                  else revoke_and_notify env changed_by b item) v b"
| "build_index env (IV_Quota used) changed_by tenant_id is_set b =
     add_quota tenant_id (if is_set then uint used else - uint used) b"
| "build_index env (IV_LogItem sync_collection prefix) changed_by tenant_id is_set b =
     (if is_set then bb_log_item_insert sync_collection prefix b else bb_log_item_delete sync_collection prefix b)"
| "build_index env (IV_LogContainer sync_collection) changed_by tenant_id is_set b =
     (if is_set then bb_log_container_insert sync_collection b else bb_log_container_delete sync_collection b)"
| "build_index env (IV_LogContainerProperty sync_collection ids) changed_by tenant_id is_set b =
     fold (bb_log_container_property_change sync_collection) ids b"

subsection \<open>Changing one index value\<close>

fun find_grant :: "u32 \<Rightarrow> acl_grant list \<Rightarrow> acl_grant option" where
  "find_grant account_id [] = None"
| "find_grant account_id (g # gs) = (if account_id = ag_account_id g then Some g else find_grant account_id gs)"

definition merge_grant :: "call_env \<Rightarrow> u32 \<Rightarrow> batch_builder \<Rightarrow> acl_grant list \<Rightarrow> acl_grant \<Rightarrow> batch_builder \<Rightarrow> batch_builder" where
  "merge_grant env changed_by b0 old_acl item b =
     (case find_grant (ag_account_id item) old_acl of
        Some current_item \<Rightarrow>
          if ag_grants item = ag_grants current_item then b
          else grant_and_notify env changed_by b0 (ag_grants current_item) item b
      | None \<Rightarrow> grant_and_notify env changed_by b0 bm_new item b)"

definition merge_acl :: "call_env \<Rightarrow> u32 \<Rightarrow> acl_grant list \<Rightarrow> acl_grant list \<Rightarrow> batch_builder \<Rightarrow> batch_builder" where
  "merge_acl env changed_by old_acl new_acl b =
     (if old_acl = [] \<and> new_acl = [] then b
      else case (old_acl \<noteq> [], new_acl \<noteq> []) of
        (True, True) \<Rightarrow>
          fold (merge_grant env changed_by b old_acl) new_acl
            (fold (\<lambda>current_item b'.
                if \<not> list_ex (\<lambda>item. ag_account_id item = ag_account_id current_item) new_acl
                then revoke_and_notify env changed_by b current_item b' else b') old_acl b)
      | (False, True) \<Rightarrow> fold (grant_and_notify env changed_by b bm_new) new_acl b
      | (True, False) \<Rightarrow> fold (revoke_and_notify env changed_by b) old_acl b
      | (False, False) \<Rightarrow> b)"

text \<open>The result is \<open>None\<close> where the code reaches \<open>unreachable!()\<close>.\<close>

definition merge_index :: "call_env \<Rightarrow> index_value \<Rightarrow> index_value \<Rightarrow> u32 \<Rightarrow> u32 option \<Rightarrow> batch_builder \<Rightarrow> batch_builder option" where
  "merge_index env current change changed_by tenant_id b =
     (case current of
        IV_Index field old_value \<Rightarrow>
          (case change of IV_Index _ new_value \<Rightarrow>
             let b = (if \<not> ii_is_empty old_value then bb_unindex field (ii_into_owned old_value) b else b)
             in Some (if \<not> ii_is_empty new_value then bb_index field (ii_into_owned new_value) b else b)
           | _ \<Rightarrow> None)
      | IV_SearchIndex index _ \<Rightarrow>
          (case change of IV_SearchIndex _ _ \<Rightarrow>
             Some (bb_set (VC_TaskQueue (TQ_UpdateIndex (ce_due env) index True)) [] b)
           | _ \<Rightarrow> None)
      | IV_Property old_field old_value \<Rightarrow>
          (case change of IV_Property new_field new_value \<Rightarrow>
             Some (if old_field \<noteq> new_field then bb_set new_field (ii_into_owned new_value) (bb_clear old_field b)
               else if \<not> ii_eq new_value old_value
               then if ii_is_some new_value then bb_set old_field (ii_into_owned new_value) b else bb_clear old_field b
               else b)
           | _ \<Rightarrow> None)
      | IV_Blob old_hash \<Rightarrow>
          (case change of IV_Blob new_hash \<Rightarrow>
             Some (bb_set (VC_Blob (Blob_Link new_hash BL_Document)) [] (bb_clear (VC_Blob (Blob_Link old_hash BL_Document)) b))
           | _ \<Rightarrow> None)
      | IV_Acl old_acl \<Rightarrow>
          (case change of IV_Acl new_acl \<Rightarrow> Some (merge_acl env changed_by old_acl new_acl b) | _ \<Rightarrow> None)
      | IV_Quota old_used \<Rightarrow>
          (case change of IV_Quota new_used \<Rightarrow> Some (add_quota tenant_id (uint new_used - uint old_used) b) | _ \<Rightarrow> None)
      | IV_LogItem sync_collection old_prefix \<Rightarrow>
          (case change of IV_LogItem _ new_prefix \<Rightarrow>
             Some (bb_log_item_insert sync_collection new_prefix (bb_log_item_delete sync_collection old_prefix b))
           | _ \<Rightarrow> None)
      | IV_LogContainerProperty sync_collection old_ids \<Rightarrow>
          (case change of IV_LogContainerProperty _ new_ids \<Rightarrow>
             Some (fold (\<lambda>i b. if i \<notin> set old_ids then bb_log_container_property_change sync_collection i b else b) new_ids
               (fold (\<lambda>i b. if i \<notin> set new_ids then bb_log_container_property_change sync_collection i b else b) old_ids b))
           | _ \<Rightarrow> None)
      | IV_LogContainer _ \<Rightarrow> None)"

subsection \<open>Writing an object\<close>

record current_object =
  co_version :: archive_version
  co_values :: "index_value list"

record new_object =
  no_bytes :: bytes
  no_versioned :: bool
  no_values :: "index_value list"

record object_index_builder =
  oib_changed_by :: u32
  oib_tenant_id :: "u32 option"
  oib_current :: "current_object option"
  oib_changes :: "new_object option"

definition oib_new :: object_index_builder where
  "oib_new = \<lparr>oib_changed_by = 0xFFFFFFFF, oib_tenant_id = None, oib_current = None, oib_changes = None\<rparr>"

definition with_current :: "current_object \<Rightarrow> object_index_builder \<Rightarrow> object_index_builder" where
  "with_current current ob = ob\<lparr>oib_current := Some current\<rparr>"

definition with_changes :: "new_object \<Rightarrow> object_index_builder \<Rightarrow> object_index_builder" where
  "with_changes changes ob = ob\<lparr>oib_changes := Some changes\<rparr>"

definition with_current_opt :: "current_object option \<Rightarrow> object_index_builder \<Rightarrow> object_index_builder" where
  "with_current_opt current ob = ob\<lparr>oib_current := current\<rparr>"

definition with_access_token :: "u32 option \<Rightarrow> u32 \<Rightarrow> object_index_builder \<Rightarrow> object_index_builder" where
  "with_access_token tenant primary_id ob = ob\<lparr>oib_tenant_id := tenant, oib_changed_by := primary_id\<rparr>"

definition with_tenant_id :: "u32 option \<Rightarrow> object_index_builder \<Rightarrow> object_index_builder" where
  "with_tenant_id tenant_id ob = ob\<lparr>oib_tenant_id := tenant_id\<rparr>"

datatype build_error = BE_Serialize | BE_Panic

definition insert_version :: "params \<Rightarrow> assigned_ids \<Rightarrow> bytes option" where
  "insert_version params ids =
     Option.bind (ai_current_change_id ids) (\<lambda>change_id.
     Option.bind (params_bytes params 0) (\<lambda>archive.
     Option.bind (params_u64 params 1) (\<lambda>offset. set_version archive offset change_id)))"

definition write_archive :: "codec_env \<Rightarrow> new_object \<Rightarrow> batch_builder \<Rightarrow> build_error + batch_builder" where
  "write_archive codec changes b =
     (if no_versioned changes
      then case serialize_versioned codec archiver_new_flags (no_bytes changes) of
          Some (offset, bs) \<Rightarrow> Inr (bb_set_fnc (VC_Property FIELD_ARCHIVE) [Param_Bytes bs, Param_U64 offset] insert_version b)
        | None \<Rightarrow> Inl BE_Serialize
      else case archiver_serialize codec archiver_new_flags (no_bytes changes) of
          Some bs \<Rightarrow> Inr (bb_set (VC_Property FIELD_ARCHIVE) bs b)
        | None \<Rightarrow> Inl BE_Serialize)"

fun build_items :: "(nat \<Rightarrow> call_env) \<Rightarrow> nat \<Rightarrow> index_value list \<Rightarrow> u32 \<Rightarrow> u32 option \<Rightarrow> bool \<Rightarrow> batch_builder \<Rightarrow> batch_builder" where
  "build_items env i [] changed_by tenant_id is_set b = b"
| "build_items env i (item # items) changed_by tenant_id is_set b =
     build_items env (Suc i) items changed_by tenant_id is_set (build_index (env i) item changed_by tenant_id is_set b)"

definition update_item :: "call_env \<Rightarrow> index_value \<Rightarrow> index_value \<Rightarrow> u32 \<Rightarrow> u32 option \<Rightarrow> batch_builder \<Rightarrow> batch_builder option" where
  "update_item env current change changed_by tenant_id b =
     (if \<not> iv_eq current change then merge_index env current change changed_by tenant_id b
      else Some (case current of
          IV_LogContainer sync_collection \<Rightarrow> bb_log_container_update sync_collection b
        | IV_LogItem sync_collection prefix \<Rightarrow> bb_log_item_update sync_collection prefix b
        | _ \<Rightarrow> b))"

fun update_items :: "(nat \<Rightarrow> call_env) \<Rightarrow> nat \<Rightarrow> (index_value \<times> index_value) list \<Rightarrow> u32 \<Rightarrow> u32 option \<Rightarrow> batch_builder \<Rightarrow> batch_builder option" where
  "update_items env i [] changed_by tenant_id b = Some b"
| "update_items env i ((current, change) # items) changed_by tenant_id b =
     Option.bind (update_item (env i) current change changed_by tenant_id b) (update_items env (Suc i) items changed_by tenant_id)"

definition oib_build :: "codec_env \<Rightarrow> (nat \<Rightarrow> call_env) \<Rightarrow> object_index_builder \<Rightarrow> batch_builder \<Rightarrow> build_error + batch_builder" where
  "oib_build codec env ob b =
     (case (oib_current ob, oib_changes ob) of
        (None, Some changes) \<Rightarrow>
          write_archive codec changes (build_items env 0 (no_values changes) (oib_changed_by ob) (oib_tenant_id ob) True b)
      | (Some current, Some changes) \<Rightarrow>
          (case update_items env 0 (zip (co_values current) (no_values changes)) (oib_changed_by ob) (oib_tenant_id ob)
              (bb_assert_value (VC_Property FIELD_ARCHIVE) (AV_Archive (co_version current)) b) of
             Some b \<Rightarrow> write_archive codec changes b
           | None \<Rightarrow> Inl BE_Panic)
      | (Some current, None) \<Rightarrow>
          Inr (bb_clear (VC_Property FIELD_ARCHIVE)
            (build_items env 0 (co_values current) (oib_changed_by ob) (oib_tenant_id ob) False
              (bb_assert_value (VC_Property FIELD_ARCHIVE) (AV_Archive (co_version current)) b)))
      | (None, None) \<Rightarrow> Inl BE_Panic)"

subsection \<open>Objects\<close>

text \<open>The index values of a mailbox, a message, a calendar and a file, stored or archived.\<close>

definition mailbox_index_values :: "acl_grant list \<Rightarrow> index_value list" where
  "mailbox_index_values acls = [IV_LogContainer Sync_Email, IV_Acl acls]"

definition message_index_values :: "u64 \<Rightarrow> u32 list \<Rightarrow> u32 \<Rightarrow> u32 \<Rightarrow> index_value list" where
  "message_index_values now mailboxes thread_id msg_size =
     [IV_Property (VC_Property 91) (if 1 \<in> set mailboxes \<or> 2 \<in> set mailboxes then ii_from_u64 now else II_None),
      IV_Quota msg_size, IV_LogItem Sync_Email (Some thread_id),
      IV_LogContainerProperty Sync_Thread [thread_id], IV_LogContainerProperty Sync_Email mailboxes]"

definition calendar_index_values :: "acl_grant list \<Rightarrow> u32 \<Rightarrow> index_value list" where
  "calendar_index_values acls used = [IV_Acl acls, IV_Quota used, IV_LogContainer Sync_Calendar]"

definition file_index_values :: "acl_grant list \<Rightarrow> u32 \<Rightarrow> bytes option \<Rightarrow> index_value list" where
  "file_index_values acls used blob_hash =
     [IV_Acl acls, IV_LogItem Sync_FileNode None, IV_Quota used]
       @ (case blob_hash of Some hash \<Rightarrow> [IV_Blob hash] | None \<Rightarrow> [])"

end
