(* ===== verification/ObjectRows.thy ===== *)
theory ObjectRows
  imports ObjectIndex
begin

text \<open>
  The rows that a document has in the store for the index values of its object, and that committing a
  change of the object, however it inserts, updates or deletes, leaves exactly the rows of the new
  object and moves the used quota by the difference of their sizes. This ties the builder of
  \<open>storage/index.rs\<close> to the batch, the commit and the keys of the store.
\<close>

section \<open>Rows of a document\<close>

datatype row = R_Index u8 bytes | R_Value value_class

fun prop_class :: "value_class \<Rightarrow> bool" where
  "prop_class (VC_Property f) \<longleftrightarrow> f \<noteq> FIELD_ARCHIVE \<and> f \<noteq> 84"
| "prop_class (VC_IndexProperty _) \<longleftrightarrow> True"
| "prop_class _ \<longleftrightarrow> False"

fun doc_class :: "value_class \<Rightarrow> bool" where
  "doc_class (VC_Acl _) \<longleftrightarrow> True"
| "doc_class (VC_Blob (Blob_Link _ BL_Document)) \<longleftrightarrow> True"
| "doc_class c \<longleftrightarrow> prop_class c"

fun doc_row :: "row \<Rightarrow> bool" where
  "doc_row (R_Index _ _) \<longleftrightarrow> True"
| "doc_row (R_Value c) \<longleftrightarrow> doc_class c"

text \<open>The rows that an index value asks for, and the rows that writing it may touch.\<close>

definition acl_row :: "acl_grant \<Rightarrow> row \<times> bytes" where
  "acl_row g = (R_Value (VC_Acl (ag_account_id g)), to_be_bytes (bits (ag_grants g)))"

fun iv_rows :: "index_value \<Rightarrow> (row \<times> bytes) list" where
  "iv_rows (IV_Index f v) = (if ii_is_empty v then [] else [(R_Index f (ii_as_slice v), [])])"
| "iv_rows (IV_Property c v) = (if ii_is_none v then [] else [(R_Value c, ii_as_slice v)])"
| "iv_rows (IV_Blob h) = [(R_Value (VC_Blob (Blob_Link h BL_Document)), [])]"
| "iv_rows (IV_Acl gs) = map acl_row gs"
| "iv_rows _ = []"

fun iv_area :: "index_value \<Rightarrow> row set" where
  "iv_area (IV_Property c v) = {R_Value c}"
| "iv_area v = fst ` set (iv_rows v)"

definition opt_rows :: "index_value option \<Rightarrow> (row \<times> bytes) list" where
  "opt_rows v = (case v of Some v \<Rightarrow> iv_rows v | None \<Rightarrow> [])"

definition pair_area :: "index_value option \<times> index_value option \<Rightarrow> row set" where
  "pair_area p = (case fst p of Some v \<Rightarrow> iv_area v | None \<Rightarrow> {}) \<union> (case snd p of Some v \<Rightarrow> iv_area v | None \<Rightarrow> {})"

text \<open>The rows of an object, and what a store holds where it should hold them.\<close>

definition obj_rows :: "index_value list \<Rightarrow> row \<Rightarrow> bytes option" where
  "obj_rows vs r = map_of (concat (map iv_rows vs)) r"

fun cell_of :: "bytes option \<Rightarrow> cell" where
  "cell_of None = Absent"
| "cell_of (Some v) = Present v"

fun row_cell :: "u32 \<Rightarrow> u8 \<Rightarrow> u32 \<Rightarrow> row \<Rightarrow> kv \<Rightarrow> cell" where
  "row_cell a c d (R_Index f k) m =
     m SUBSPACE_INDEXES (index_key_serialize \<lparr>ik_account_id = a, ik_collection = c, ik_document_id = d, ik_field = f, ik_key = k\<rparr> 0)"
| "row_cell a c d (R_Value cls) m =
     (case vc_serialize cls a c d 0 of Some key \<Rightarrow> m (vc_subspace cls c) key | None \<Rightarrow> Absent)"

section \<open>Effects of operations on rows\<close>

fun op_effect :: "operation \<Rightarrow> (row \<times> bytes option) option" where
  "op_effect (Op_Index f k is_set) = Some (R_Index f k, if is_set then Some [] else None)"
| "op_effect (Op_Value c (VO_Set v)) = Some (R_Value c, Some v)"
| "op_effect (Op_Value c VO_Clear) = Some (R_Value c, None)"
| "op_effect _ = None"

fun last_effect :: "operation list \<Rightarrow> row \<Rightarrow> bytes option option" where
  "last_effect [] r = None"
| "last_effect (op # ops) r =
     (case last_effect ops r of
        Some v \<Rightarrow> Some v
      | None \<Rightarrow> (case op_effect op of Some (r', v) \<Rightarrow> if r = r' then Some v else None | None \<Rightarrow> None))"

lemma last_effect_append:
  "last_effect (xs @ ys) r = (case last_effect ys r of Some v \<Rightarrow> Some v | None \<Rightarrow> last_effect xs r)"
  by (induction xs) (auto split: option.splits)

text \<open>Operations that turn some rows from an old to a new content and touch no other row of the document.\<close>

definition turns :: "row set \<Rightarrow> (row \<times> bytes) list \<Rightarrow> (row \<times> bytes) list \<Rightarrow> operation list \<Rightarrow> bool" where
  "turns A old new ops \<longleftrightarrow> (\<forall>r. doc_row r \<longrightarrow>
     (case last_effect ops r of
        Some v \<Rightarrow> r \<in> A \<and> v = map_of new r
      | None \<Rightarrow> r \<in> A \<longrightarrow> map_of new r = map_of old r))"

lemma turnsI:
  assumes "\<And>r v. doc_row r \<Longrightarrow> last_effect ops r = Some v \<Longrightarrow> r \<in> A \<and> v = map_of new r"
    and "\<And>r. doc_row r \<Longrightarrow> last_effect ops r = None \<Longrightarrow> r \<in> A \<Longrightarrow> map_of new r = map_of old r"
  shows "turns A old new ops"
  using assms by (auto simp: turns_def split: option.split)

lemma turns_append:
  assumes "turns A old new ops" "turns B old' new' ops'" "A \<inter> B = {}"
    and "fst ` set old \<union> fst ` set new \<subseteq> A" "fst ` set old' \<union> fst ` set new' \<subseteq> B"
  shows "turns (A \<union> B) (old @ old') (new @ new') (ops @ ops')"
proof -
  have outside: "map_of xs r = None" if "fst ` set xs \<subseteq> C" "r \<notin> C" for xs :: "(row \<times> bytes) list" and C r
    using that by (auto simp: map_of_eq_None_iff)
  have "case last_effect (ops @ ops') r of
      Some v \<Rightarrow> r \<in> A \<union> B \<and> v = map_of (new @ new') r
    | None \<Rightarrow> r \<in> A \<union> B \<longrightarrow> map_of (new @ new') r = map_of (old @ old') r" if doc: "doc_row r" for r
  proof (cases "r \<in> B")
    case True
    then have "r \<notin> A" using assms(3) by blast
    then have "map_of old r = None" "map_of new r = None" "last_effect ops r = None"
      using assms(4) assms(1) doc by (auto intro: outside simp: turns_def split: option.splits)
    then show ?thesis using assms(2) doc True
      by (auto simp: turns_def last_effect_append map_add_def split: option.splits)
  next
    case False
    then have "map_of old' r = None" "map_of new' r = None" "last_effect ops' r = None"
      using assms(5) assms(2) doc by (auto intro: outside simp: turns_def split: option.splits)
    then show ?thesis using assms(1) doc False
      by (auto simp: turns_def last_effect_append map_add_def split: option.splits)
  qed
  then show ?thesis by (simp add: turns_def)
qed

section \<open>Operations that the builder adds\<close>

definition adds :: "operation list \<Rightarrow> batch_builder \<Rightarrow> batch_builder \<Rightarrow> bool" where
  "adds ops b b' \<longleftrightarrow> bb_ops b' = bb_ops b @ ops \<and> bb_current_account_id b' = bb_current_account_id b
     \<and> bb_current_collection b' = bb_current_collection b \<and> bb_current_document_id b' = bb_current_document_id b"

lemma adds_refl: "adds [] b b"
  by (simp add: adds_def)

lemma adds_trans: "adds xs b b' \<Longrightarrow> adds ys b' b'' \<Longrightarrow> adds (xs @ ys) b b''"
  by (simp add: adds_def)

lemma adds_op:
  "adds [Op_Index f k True] b (bb_index f k b)" "adds [Op_Index f k False] b (bb_unindex f k b)"
  "adds [Op_Value cls (VO_Set v)] b (bb_set cls v b)" "adds [Op_Value cls VO_Clear] b (bb_clear cls b)"
  "adds [Op_Value cls (VO_AtomicAdd i)] b (bb_add cls i b)" "adds [Op_AssertValue cls x] b (bb_assert_value cls x b)"
  "adds [Op_Value cls (VO_SetFnc sf ps)] b (bb_set_fnc cls ps sf b)"
  "adds [Op_Value (VC_Acl g) (VO_Set v)] b (bb_acl_grant g v b)" "adds [Op_Value (VC_Acl g) VO_Clear] b (bb_acl_revoke g b)"
  "adds [Op_Value (VC_ShareNotification n g) (VO_Set v)] b (bb_log_share_notification n g v b)"
  by (simp_all add: adds_def bb_push_def bb_count_def bb_index_def bb_unindex_def bb_set_def bb_clear_def bb_add_def
      bb_assert_value_def bb_set_fnc_def bb_acl_grant_def bb_acl_revoke_def bb_log_share_notification_def)

lemma adds_log:
  "adds [] b (bb_log_item_insert sc p b)" "adds [] b (bb_log_item_update sc p b)" "adds [] b (bb_log_item_delete sc p b)"
  "adds [] b (bb_log_container_insert sc b)" "adds [] b (bb_log_container_update sc b)" "adds [] b (bb_log_container_delete sc b)"
  "adds [] b (bb_log_container_property_change sc i b)"
  by (simp_all add: adds_def bb_log_item_insert_def bb_log_item_update_def bb_log_item_delete_def bb_log_container_insert_def
      bb_log_container_update_def bb_log_container_delete_def bb_log_container_property_change_def bb_on_current_def bb_on_log_def
      split: option.split)

lemma adds_fold:
  assumes "\<And>x b. adds (f x) b (g x b)"
  shows "adds (concat (map f xs)) b (fold g xs b)"
  by (induction xs arbitrary: b) (auto simp: adds_refl intro: adds_trans assms)

text \<open>
  The operations for one index value: they may only set and clear rows of the document and add to
  quotas, besides rows that no object has.
\<close>

fun row_op :: "(u8 \<Rightarrow> u8 \<Rightarrow> bool) \<Rightarrow> u8 \<Rightarrow> operation \<Rightarrow> bool" where
  "row_op hash_field c (Op_Index _ _ _) \<longleftrightarrow> True"
| "row_op hash_field c (Op_AssertValue _ _) \<longleftrightarrow> True"
| "row_op hash_field c (Op_Value cls vop) \<longleftrightarrow> vc_wf hash_field c cls
     \<and> (doc_class cls \<longrightarrow> vop = VO_Clear \<or> (\<exists>v. vop = VO_Set v))
     \<and> ((\<exists>u. cls = VC_Directory (Dir_UsedQuota u)) \<longrightarrow> (\<exists>i. vop = VO_AtomicAdd i))"
| "row_op hash_field c _ \<longleftrightarrow> False"

fun op_quota :: "u32 \<Rightarrow> operation \<Rightarrow> int" where
  "op_quota u (Op_Value (VC_Directory (Dir_UsedQuota v)) (VO_AtomicAdd i)) = (if u = v then i else 0)"
| "op_quota u _ = 0"

definition ops_quota :: "u32 \<Rightarrow> operation list \<Rightarrow> int" where
  "ops_quota u ops = sum_list (map (op_quota u) ops)"

lemma ops_quota_simps [simp]:
  "ops_quota u [] = 0" "ops_quota u (op # ops) = op_quota u op + ops_quota u ops" "ops_quota u (xs @ ys) = ops_quota u xs + ops_quota u ys"
  by (simp_all add: ops_quota_def)

fun iv_used :: "index_value \<Rightarrow> int" where
  "iv_used (IV_Quota used) = uint used"
| "iv_used _ = 0"

definition opt_used :: "index_value option \<Rightarrow> int" where
  "opt_used v = (case v of Some v \<Rightarrow> iv_used v | None \<Rightarrow> 0)"

fun iv_ok :: "(u8 \<Rightarrow> u8 \<Rightarrow> bool) \<Rightarrow> u8 \<Rightarrow> index_value \<Rightarrow> bool" where
  "iv_ok hash_field c (IV_Index f v) \<longleftrightarrow> (ii_as_slice v = [] \<longrightarrow> ii_is_empty v)"
| "iv_ok hash_field c (IV_Property cls v) \<longleftrightarrow> prop_class cls \<and> vc_wf hash_field c cls \<and> (ii_as_slice v = [] \<longrightarrow> ii_is_none v)"
| "iv_ok hash_field c (IV_Blob h) \<longleftrightarrow> length h = 32"
| "iv_ok hash_field c (IV_Acl gs) \<longleftrightarrow> distinct (map ag_account_id gs)"
| "iv_ok hash_field c _ \<longleftrightarrow> True"

definition item_done ::
  "u32 \<Rightarrow> (u8 \<Rightarrow> u8 \<Rightarrow> bool) \<Rightarrow> u8 \<Rightarrow> index_value option \<times> index_value option \<Rightarrow> operation list \<Rightarrow> bool" where
  "item_done a hash_field c p ops \<longleftrightarrow> turns (pair_area p) (opt_rows (fst p)) (opt_rows (snd p)) ops
     \<and> list_all (row_op hash_field c) ops \<and> ops_quota a ops = opt_used (snd p) - opt_used (fst p)"

lemma into_owned [simp]: "ii_into_owned v = ii_as_slice v"
  by (cases v) simp_all

lemma empty_slice: "ii_is_empty v \<Longrightarrow> ii_as_slice v = []"
  by (cases v) auto

lemma prop_doc_class: "prop_class cls \<Longrightarrow> doc_class cls"
  by (cases cls) auto

lemma prop_not_quota: "prop_class cls \<Longrightarrow> cls \<noteq> VC_Directory x"
  by (cases cls) auto

lemma quota_of_other [simp]: "cls \<noteq> VC_Directory (Dir_UsedQuota u) \<Longrightarrow> op_quota u (Op_Value cls vop) = 0"
  by (cases "(u, Op_Value cls vop)" rule: op_quota.cases) auto

lemma quota_of_set [simp]: "op_quota u (Op_Value cls (VO_Set v)) = 0" "op_quota u (Op_Value cls VO_Clear) = 0"
  by (cases "(u, Op_Value cls (VO_Set v))" rule: op_quota.cases; simp)
    (cases "(u, Op_Value cls VO_Clear)" rule: op_quota.cases; simp)

subsection \<open>Grants\<close>

lemma find_grant_None: "find_grant i gs = None \<longleftrightarrow> i \<notin> ag_account_id ` set gs"
  by (induction gs) auto

lemma find_grant_Some: "find_grant i gs = Some g \<Longrightarrow> g \<in> set gs \<and> ag_account_id g = i"
  by (induction gs) (auto split: if_splits)

lemma map_of_acl_rows: "map_of (map acl_row gs) r =
    (case r of R_Value (VC_Acl i) \<Rightarrow> map_option (\<lambda>g. to_be_bytes (bits (ag_grants g))) (find_grant i gs) | _ \<Rightarrow> None)"
  by (induction gs) (auto simp: acl_row_def split: row.split value_class.split)

lemma acl_effects:
  assumes "\<And>g. doc_row r \<Longrightarrow> last_effect (f g) r = (if r = R_Value (VC_Acl (ag_account_id g)) then eff g else None)"
    and "distinct (map ag_account_id gs)" "doc_row r"
  shows "last_effect (concat (map f gs)) r = (case r of R_Value (VC_Acl i) \<Rightarrow> Option.bind (find_grant i gs) eff | _ \<Rightarrow> None)"
  using assms(2)
proof (induction gs)
  case Nil
  then show ?case by (simp split: row.split value_class.split)
next
  case (Cons g gs)
  show ?case
  proof (cases "r = R_Value (VC_Acl (ag_account_id g))")
    case True
    moreover have "find_grant (ag_account_id g) gs = None" using Cons.prems by (simp add: find_grant_None)
    ultimately show ?thesis using Cons assms(1) [OF assms(3)] by (simp add: last_effect_append)
  next
    case False
    then show ?thesis using Cons assms(1) [OF assms(3)]
      by (auto simp: last_effect_append split: row.splits value_class.splits option.splits)
  qed
qed

definition grant_ops :: "call_env \<Rightarrow> u32 \<Rightarrow> batch_builder \<Rightarrow> acl bitmap \<Rightarrow> acl_grant \<Rightarrow> operation list" where
  "grant_ops env changed_by b0 old g =
     [Op_Value (VC_Acl (ag_account_id g)) (VO_Set (to_be_bytes (bits (ag_grants g)))),
      Op_Value (VC_ShareNotification (notification_id env b0) (ag_account_id g))
        (VO_Set (sn_serialize (share_change b0 changed_by old (ag_grants g))))]"

definition revoke_ops :: "call_env \<Rightarrow> u32 \<Rightarrow> batch_builder \<Rightarrow> acl_grant \<Rightarrow> operation list" where
  "revoke_ops env changed_by b0 g =
     [Op_Value (VC_Acl (ag_account_id g)) VO_Clear,
      Op_Value (VC_ShareNotification (notification_id env b0) (ag_account_id g))
        (VO_Set (sn_serialize (share_change b0 changed_by (ag_grants g) bm_new)))]"

definition merge_ops :: "call_env \<Rightarrow> u32 \<Rightarrow> batch_builder \<Rightarrow> acl_grant list \<Rightarrow> acl_grant \<Rightarrow> operation list" where
  "merge_ops env changed_by b0 old g =
     (case find_grant (ag_account_id g) old of
        Some g' \<Rightarrow> if ag_grants g = ag_grants g' then [] else grant_ops env changed_by b0 (ag_grants g') g
      | None \<Rightarrow> grant_ops env changed_by b0 bm_new g)"

lemma adds_grant: "adds (grant_ops env cb b0 old g) b (grant_and_notify env cb b0 old g b)"
  using adds_trans [OF adds_op(8) adds_op(10)] by (simp add: grant_ops_def grant_and_notify_def)

lemma adds_revoke: "adds (revoke_ops env cb b0 g) b (revoke_and_notify env cb b0 g b)"
  using adds_trans [OF adds_op(9) adds_op(10)] by (simp add: revoke_ops_def revoke_and_notify_def)

lemma adds_merge: "adds (merge_ops env cb b0 old g) b (merge_grant env cb b0 old g b)"
  by (auto simp: merge_ops_def merge_grant_def adds_refl adds_grant split: option.split)

lemma grant_effects:
  "doc_row r \<Longrightarrow> last_effect (grant_ops env cb b0 old g) r
     = (if r = R_Value (VC_Acl (ag_account_id g)) then Some (Some (to_be_bytes (bits (ag_grants g)))) else None)"
  "doc_row r \<Longrightarrow> last_effect (revoke_ops env cb b0 g) r = (if r = R_Value (VC_Acl (ag_account_id g)) then Some None else None)"
  by (auto simp: grant_ops_def revoke_ops_def)

lemma grant_ops_ok:
  "list_all (row_op hf c) (grant_ops env cb b0 old g)" "list_all (row_op hf c) (revoke_ops env cb b0 g)"
  "list_all (row_op hf c) (merge_ops env cb b0 olds g)"
  "ops_quota a (grant_ops env cb b0 old g) = 0" "ops_quota a (revoke_ops env cb b0 g) = 0" "ops_quota a (merge_ops env cb b0 olds g) = 0"
  by (auto simp: grant_ops_def revoke_ops_def merge_ops_def split: option.split)

lemma concat_ops_ok:
  assumes "\<And>x. list_all (row_op hf c) (f x)" "\<And>x. ops_quota a (f x) = 0"
  shows "list_all (row_op hf c) (concat (map f xs))" "ops_quota a (concat (map f xs)) = 0"
  using assms by (induction xs) simp_all

lemma acl_area: "iv_area (IV_Acl gs) = (\<lambda>g. R_Value (VC_Acl (ag_account_id g))) ` set gs"
  by (force simp: acl_row_def)

lemma acl_row_in_area: "R_Value (VC_Acl i) \<in> iv_area (IV_Acl gs) \<longleftrightarrow> find_grant i gs \<noteq> None"
  unfolding acl_area using find_grant_None by (auto simp del: not_None_eq)

lemma grants_turn:
  assumes "distinct (map ag_account_id gs)"
  shows "turns (iv_area (IV_Acl gs)) [] (map acl_row gs) (concat (map (grant_ops env cb b0 old) gs))"
proof -
  have eff: "last_effect (concat (map (grant_ops env cb b0 old) gs)) r
      = (case r of R_Value (VC_Acl i) \<Rightarrow> Option.bind (find_grant i gs) (\<lambda>g. Some (Some (to_be_bytes (bits (ag_grants g)))))
         | _ \<Rightarrow> None)" if "doc_row r" for r
    by (rule acl_effects [OF grant_effects(1) assms that])
  show ?thesis
  proof (rule turnsI)
    fix r v assume doc: "doc_row r" and "last_effect (concat (map (grant_ops env cb b0 old) gs)) r = Some v"
    then show "r \<in> iv_area (IV_Acl gs) \<and> v = map_of (map acl_row gs) r"
      unfolding eff [OF doc] map_of_acl_rows
      by (auto simp: acl_row_in_area Option.bind_eq_Some_conv simp del: iv_area.simps split: row.splits value_class.splits)
  next
    fix r assume doc: "doc_row r" and "last_effect (concat (map (grant_ops env cb b0 old) gs)) r = None" "r \<in> iv_area (IV_Acl gs)"
    then show "map_of (map acl_row gs) r = map_of [] r"
      unfolding eff [OF doc] map_of_acl_rows
      by (auto simp: Option.bind_eq_None_conv split: row.splits value_class.splits)
  qed
qed

lemma revokes_turn:
  assumes "distinct (map ag_account_id gs)"
  shows "turns (iv_area (IV_Acl gs)) (map acl_row gs) [] (concat (map (revoke_ops env cb b0) gs))"
proof -
  have eff: "last_effect (concat (map (revoke_ops env cb b0) gs)) r
      = (case r of R_Value (VC_Acl i) \<Rightarrow> Option.bind (find_grant i gs) (\<lambda>_. Some None) | _ \<Rightarrow> None)" if "doc_row r" for r
    by (rule acl_effects [OF grant_effects(2) assms that])
  show ?thesis
  proof (rule turnsI)
    fix r v assume doc: "doc_row r" and "last_effect (concat (map (revoke_ops env cb b0) gs)) r = Some v"
    then show "r \<in> iv_area (IV_Acl gs) \<and> v = map_of [] r"
      unfolding eff [OF doc]
      by (auto simp: acl_row_in_area Option.bind_eq_Some_conv simp del: iv_area.simps split: row.splits value_class.splits)
  next
    fix r assume doc: "doc_row r" and "last_effect (concat (map (revoke_ops env cb b0) gs)) r = None" "r \<in> iv_area (IV_Acl gs)"
    then show "map_of [] r = map_of (map acl_row gs) r"
      unfolding eff [OF doc] map_of_acl_rows
      by (auto simp: Option.bind_eq_None_conv split: row.splits value_class.splits)
  qed
qed

text \<open>Both passes over changed grants: revoking those that are gone, granting those that differ.\<close>

definition acl_change_ops :: "call_env \<Rightarrow> u32 \<Rightarrow> batch_builder \<Rightarrow> acl_grant list \<Rightarrow> acl_grant list \<Rightarrow> operation list" where
  "acl_change_ops env cb b0 old new =
     concat (map (\<lambda>g. if ag_account_id g \<in> ag_account_id ` set new then [] else revoke_ops env cb b0 g) old)
     @ concat (map (merge_ops env cb b0 old) new)"

lemma acl_change_effect:
  assumes "distinct (map ag_account_id old)" "distinct (map ag_account_id new)" "doc_row r"
  shows "last_effect (acl_change_ops env cb b0 old new) r =
    (case r of
       R_Value (VC_Acl i) \<Rightarrow>
         (case find_grant i new of
            Some g \<Rightarrow> if (\<exists>g'. find_grant i old = Some g' \<and> ag_grants g = ag_grants g') then None
              else Some (Some (to_be_bytes (bits (ag_grants g))))
          | None \<Rightarrow> if find_grant i old = None then None else Some None)
     | _ \<Rightarrow> None)"
proof -
  let ?eff = "\<lambda>g. if (\<exists>g'. find_grant (ag_account_id g) old = Some g' \<and> ag_grants g = ag_grants g') then None
    else Some (Some (to_be_bytes (bits (ag_grants g))))"
  have "last_effect (merge_ops env cb b0 old g) r = (if r = R_Value (VC_Acl (ag_account_id g)) then ?eff g else None)" for g
    using grant_effects(1) [OF assms(3)] by (auto simp: merge_ops_def split: option.split)
  note new = acl_effects [OF this assms(2,3)]
  have "last_effect (if ag_account_id g \<in> ag_account_id ` set new then [] else revoke_ops env cb b0 g) r
      = (if r = R_Value (VC_Acl (ag_account_id g)) then (if find_grant (ag_account_id g) new = None then Some None else None) else None)" for g
    by (cases "find_grant (ag_account_id g) new = None") (simp_all add: find_grant_None grant_effects(2) [OF assms(3)])
  note old = acl_effects [OF this assms(1,3)]
  show ?thesis
  proof (cases "\<exists>i. r = R_Value (VC_Acl i)")
    case True
    then obtain i where r: "r = R_Value (VC_Acl i)" by blast
    have "ag_account_id g = i" if "find_grant i gs = Some g" for g gs using find_grant_Some [OF that] by simp
    then show ?thesis unfolding acl_change_ops_def last_effect_append new old unfolding r
      by (cases "find_grant i new"; cases "find_grant i old") auto
  next
    case False
    then show ?thesis unfolding acl_change_ops_def last_effect_append new old by (auto split: row.split value_class.split)
  qed
qed

lemma acl_change_turns:
  assumes "distinct (map ag_account_id old)" "distinct (map ag_account_id new)"
  shows "turns (iv_area (IV_Acl old) \<union> iv_area (IV_Acl new)) (map acl_row old) (map acl_row new) (acl_change_ops env cb b0 old new)"
proof (rule turnsI)
  fix r v assume doc: "doc_row r" and "last_effect (acl_change_ops env cb b0 old new) r = Some v"
  then show "r \<in> iv_area (IV_Acl old) \<union> iv_area (IV_Acl new) \<and> v = map_of (map acl_row new) r"
    unfolding acl_change_effect [OF assms doc] map_of_acl_rows
    by (auto simp: acl_row_in_area simp del: iv_area.simps split: row.splits value_class.splits option.splits if_splits)
next
  fix r assume doc: "doc_row r" and "last_effect (acl_change_ops env cb b0 old new) r = None"
  then show "map_of (map acl_row new) r = map_of (map acl_row old) r"
    unfolding acl_change_effect [OF assms doc] map_of_acl_rows
    by (auto split: row.splits value_class.splits option.splits if_splits)
qed

lemma adds_acl_change: "adds (acl_change_ops env cb b old new) b
    (fold (merge_grant env cb b old) new
      (fold (\<lambda>g b'. if \<not> list_ex (\<lambda>item. ag_account_id item = ag_account_id g) new then revoke_and_notify env cb b g b' else b') old b))"
  unfolding acl_change_ops_def
proof (rule adds_trans)
  have "adds (if ag_account_id g \<in> ag_account_id ` set new then [] else revoke_ops env cb b g) b'
      (if \<not> list_ex (\<lambda>item. ag_account_id item = ag_account_id g) new then revoke_and_notify env cb b g b' else b')" for g b'
    by (auto simp: adds_refl adds_revoke list_ex_iff image_iff)
  then show "adds (concat (map (\<lambda>g. if ag_account_id g \<in> ag_account_id ` set new then [] else revoke_ops env cb b g) old)) b
      (fold (\<lambda>g b'. if \<not> list_ex (\<lambda>item. ag_account_id item = ag_account_id g) new then revoke_and_notify env cb b g b' else b') old b)"
    by (rule adds_fold)
qed (rule adds_fold [OF adds_merge])

lemma acl_change_ok:
  "list_all (row_op hf c) (acl_change_ops env cb b0 old new)" "ops_quota a (acl_change_ops env cb b0 old new) = 0"
  unfolding acl_change_ops_def by (simp_all add: concat_ops_ok grant_ops_ok)

subsection \<open>One index value\<close>

lemmas item_defs = item_done_def turns_def pair_area_def opt_rows_def opt_used_def

lemma add_quota_done:
  assumes "bb_current_account_id b = Some a" "tenant \<noteq> Some a"
  shows "\<exists>ops. adds ops b (add_quota tenant i b) \<and> (\<forall>r. last_effect ops r = None)
    \<and> list_all (row_op hf c) ops \<and> ops_quota a ops = i"
proof (cases tenant)
  case None
  then show ?thesis using assms(1)
    by (intro exI [of _ "[Op_Value (VC_Directory (Dir_UsedQuota a)) (VO_AtomicAdd i)]"]) (simp add: adds_op add_quota_def)
next
  case (Some u)
  then show ?thesis using assms adds_trans [OF adds_op(5) adds_op(5)]
    by (intro exI [of _ "[Op_Value (VC_Directory (Dir_UsedQuota a)) (VO_AtomicAdd i), Op_Value (VC_Directory (Dir_UsedQuota u)) (VO_AtomicAdd i)]"])
      (auto simp: add_quota_def)
qed

lemma build_acl_done:
  assumes "distinct (map ag_account_id gs)"
  shows "\<exists>ops. adds ops b (build_index env (IV_Acl gs) cb tenant is_set b)
    \<and> item_done a hf c (if is_set then (None, Some (IV_Acl gs)) else (Some (IV_Acl gs), None)) ops"
proof (cases is_set)
  case True
  have "adds (concat (map (grant_ops env cb b bm_new) gs)) b (fold (grant_and_notify env cb b bm_new) gs b)"
    by (rule adds_fold [OF adds_grant])
  with True grants_turn [OF assms] show ?thesis
    by (intro exI [of _ "concat (map (grant_ops env cb b bm_new) gs)"])
      (simp add: item_done_def pair_area_def opt_rows_def opt_used_def concat_ops_ok grant_ops_ok)
next
  case False
  have "adds (concat (map (revoke_ops env cb b) gs)) b (fold (revoke_and_notify env cb b) gs b)"
    by (rule adds_fold [OF adds_revoke])
  with False revokes_turn [OF assms] show ?thesis
    by (intro exI [of _ "concat (map (revoke_ops env cb b) gs)"])
      (simp add: item_done_def pair_area_def opt_rows_def opt_used_def concat_ops_ok grant_ops_ok)
qed

lemma adds_nothing:
  assumes "\<And>x b. adds [] b (f x b)"
  shows "adds [] b (fold f xs b)"
  using adds_fold [of "\<lambda>_. []" f, OF assms] by (simp add: concat_eq_Nil_conv [THEN iffD2])

lemma build_index_done:
  assumes "iv_ok hf c v" "bb_current_account_id b = Some a" "tenant \<noteq> Some a"
  shows "\<exists>ops. adds ops b (build_index env v cb tenant is_set b)
    \<and> item_done a hf c (if is_set then (None, Some v) else (Some v, None)) ops"
proof (cases v)
  case (IV_Index f x)
  then show ?thesis
    by (intro exI [of _ "if ii_is_empty x then [] else [Op_Index f (ii_as_slice x) is_set]"])
      (auto simp: adds_refl adds_op item_defs)
next
  case (IV_Property cls x)
  then show ?thesis using assms(1)
    by (intro exI [of _ "if ii_is_none x then [] else [Op_Value cls (if is_set then VO_Set (ii_as_slice x) else VO_Clear)]"])
      (auto simp: adds_refl adds_op item_defs prop_not_quota)
next
  case (IV_SearchIndex index h)
  then show ?thesis
    by (intro exI [of _ "[Op_Value (VC_TaskQueue (TQ_UpdateIndex (ce_due env) index is_set)) (VO_Set [])]"])
      (auto simp: adds_op item_defs)
next
  case (IV_Blob h)
  then show ?thesis using assms(1)
    by (intro exI [of _ "[Op_Value (VC_Blob (Blob_Link h BL_Document)) (if is_set then VO_Set [] else VO_Clear)]"])
      (auto simp: adds_op item_defs)
next
  case (IV_Quota used)
  with add_quota_done [OF assms(2,3)] show ?thesis by (fastforce simp: item_defs)
next
  case (IV_Acl gs)
  with assms(1) have "distinct (map ag_account_id gs)" by simp
  then show ?thesis unfolding IV_Acl by (rule build_acl_done)
next
  case (IV_LogContainerProperty sc ids)
  then show ?thesis by (intro exI [of _ "[]"]) (simp add: adds_nothing adds_log item_defs)
qed (intro exI [of _ "[]"]; simp add: adds_log item_defs)+

fun compatible :: "index_value \<Rightarrow> index_value \<Rightarrow> bool" where
  "compatible (IV_Index f v) w \<longleftrightarrow> (\<exists>v'. w = IV_Index f v')"
| "compatible (IV_Property cls v) w \<longleftrightarrow> (\<exists>cls' v'. w = IV_Property cls' v' \<and> (cls' = cls \<or> \<not> ii_is_none v'))"
| "compatible (IV_SearchIndex i h) w \<longleftrightarrow> (\<exists>i' h'. w = IV_SearchIndex i' h')"
| "compatible (IV_Blob h) w \<longleftrightarrow> (\<exists>h'. w = IV_Blob h')"
| "compatible (IV_Quota u) w \<longleftrightarrow> (\<exists>u'. w = IV_Quota u')"
| "compatible (IV_LogContainer sc) w \<longleftrightarrow> w = IV_LogContainer sc"
| "compatible (IV_LogContainerProperty sc ids) w \<longleftrightarrow> (\<exists>sc' ids'. w = IV_LogContainerProperty sc' ids')"
| "compatible (IV_LogItem sc p) w \<longleftrightarrow> (\<exists>sc' p'. w = IV_LogItem sc' p')"
| "compatible (IV_Acl gs) w \<longleftrightarrow> (\<exists>gs'. w = IV_Acl gs')"

lemma merge_acl_done:
  assumes "distinct (map ag_account_id old)" "distinct (map ag_account_id new)"
  shows "\<exists>ops. adds ops b (merge_acl env cb old new b) \<and> item_done a hf c (Some (IV_Acl old), Some (IV_Acl new)) ops"
proof -
  have both: "item_done a hf c (Some (IV_Acl old), Some (IV_Acl new)) (acl_change_ops env cb b old new)"
    using acl_change_turns [OF assms] by (simp add: item_done_def pair_area_def opt_rows_def opt_used_def acl_change_ok)
  show ?thesis
  proof (cases "old = [] \<or> new = []")
    case False
    with both adds_acl_change show ?thesis by (intro exI [of _ "acl_change_ops env cb b old new"]) (simp add: merge_acl_def)
  next
    case True
    consider "old = []" "new = []" | "old = []" "new \<noteq> []" | "old \<noteq> []" "new = []" using True by blast
    then show ?thesis
    proof cases
      case 1
      then show ?thesis by (intro exI [of _ "[]"]) (simp add: merge_acl_def adds_refl item_defs)
    next
      case 2
      with build_acl_done [OF assms(2), where is_set = True and a = a and hf = hf and c = c]
      show ?thesis by (fastforce simp: merge_acl_def item_defs)
    next
      case 3
      with build_acl_done [OF assms(1), where is_set = False and a = a and hf = hf and c = c]
      show ?thesis by (fastforce simp: merge_acl_def item_defs)
    qed
  qed
qed

lemma none_slice: "ii_is_none v \<Longrightarrow> ii_as_slice v = []"
  by (simp add: ii_is_none_def)

lemma update_index_done:
  assumes "iv_ok hf c (IV_Index f x)" "iv_ok hf c (IV_Index f y)"
  shows "\<exists>ops b'. update_item env (IV_Index f x) (IV_Index f y) cb tenant b = Some b' \<and> adds ops b b'
    \<and> item_done a hf c (Some (IV_Index f x), Some (IV_Index f y)) ops"
  using assms
  by (intro exI [of _ "if ii_eq x y then [] else (if ii_is_empty x then [] else [Op_Index f (ii_as_slice x) False])
      @ (if ii_is_empty y then [] else [Op_Index f (ii_as_slice y) True])"])
    (auto simp: update_item_def merge_index_def Let_def adds_refl adds_op ii_eq_def item_defs empty_slice
      intro: adds_trans [OF adds_op(2) adds_op(1), simplified])

lemma update_property_done:
  assumes "iv_ok hf c (IV_Property cls x)" "iv_ok hf c (IV_Property cls' y)" "cls' = cls \<or> \<not> ii_is_none y"
  shows "\<exists>ops b'. update_item env (IV_Property cls x) (IV_Property cls' y) cb tenant b = Some b' \<and> adds ops b b'
    \<and> item_done a hf c (Some (IV_Property cls x), Some (IV_Property cls' y)) ops"
proof (cases "cls' = cls")
  case True
  with assms show ?thesis
    by (intro exI [of _ "if ii_eq x y then [] else [Op_Value cls (if ii_is_none y then VO_Clear else VO_Set (ii_as_slice y))]"])
      (auto simp: update_item_def merge_index_def adds_refl adds_op ii_eq_def ii_is_some_def item_defs prop_not_quota dest: none_slice)
next
  case False
  with assms show ?thesis
    by (intro exI [of _ "[Op_Value cls VO_Clear, Op_Value cls' (VO_Set (ii_as_slice y))]"])
      (auto simp: update_item_def merge_index_def ii_eq_def item_defs prop_not_quota
        intro: adds_trans [OF adds_op(4) adds_op(3), simplified])
qed

lemma update_item_done:
  assumes "compatible v w" "iv_ok hf c v" "iv_ok hf c w" "bb_current_account_id b = Some a" "tenant \<noteq> Some a"
  shows "\<exists>ops b'. update_item env v w cb tenant b = Some b' \<and> adds ops b b' \<and> item_done a hf c (Some v, Some w) ops"
proof (cases v)
  case (IV_Index f x)
  with assms(1) obtain y where "w = IV_Index f y" by auto
  with IV_Index update_index_done assms(2,3) show ?thesis by simp
next
  case (IV_Property cls x)
  with assms(1) obtain cls' y where "w = IV_Property cls' y" "cls' = cls \<or> \<not> ii_is_none y" by auto
  with IV_Property update_property_done assms(2,3) show ?thesis by blast
next
  case (IV_SearchIndex i h)
  with assms(1) obtain i' h' where "w = IV_SearchIndex i' h'" by auto
  with IV_SearchIndex show ?thesis
    by (intro exI [of _ "if i = i' \<and> h = h' then [] else [Op_Value (VC_TaskQueue (TQ_UpdateIndex (ce_due env) i True)) (VO_Set [])]"])
      (auto simp: update_item_def merge_index_def adds_refl adds_op item_defs)
next
  case (IV_Blob h)
  with assms(1) obtain h' where "w = IV_Blob h'" by auto
  with IV_Blob assms(2,3) show ?thesis
    by (intro exI [of _ "if h = h' then [] else [Op_Value (VC_Blob (Blob_Link h BL_Document)) VO_Clear, Op_Value (VC_Blob (Blob_Link h' BL_Document)) (VO_Set [])]"])
      (auto simp: update_item_def merge_index_def adds_refl item_defs intro: adds_trans [OF adds_op(4) adds_op(3), simplified])
next
  case (IV_Quota used)
  with assms(1) obtain used' where "w = IV_Quota used'" by auto
  moreover obtain ops where "adds ops b (add_quota tenant (uint used' - uint used) b)" "\<forall>r. last_effect ops r = None"
    "list_all (row_op hf c) ops" "ops_quota a ops = uint used' - uint used" using add_quota_done [OF assms(4,5)] by blast
  ultimately show ?thesis using IV_Quota
    by (intro exI [of _ "if used = used' then [] else ops"]) (auto simp: update_item_def merge_index_def adds_refl item_defs)
next
  case (IV_Acl gs)
  with assms(1) obtain gs' where w: "w = IV_Acl gs'" by auto
  obtain ops where "adds ops b (merge_acl env cb gs gs' b)" "item_done a hf c (Some (IV_Acl gs), Some (IV_Acl gs')) ops"
    using merge_acl_done assms(2,3) unfolding IV_Acl w iv_ok.simps by blast
  moreover have "item_done a hf c (Some (IV_Acl gs), Some (IV_Acl gs)) []" by (simp add: item_defs)
  ultimately show ?thesis unfolding IV_Acl w
    by (intro exI [of _ "if gs = gs' then [] else ops"]) (auto simp: update_item_def merge_index_def adds_refl)
next
  case (IV_LogContainerProperty sc ids)
  with assms(1) obtain sc' ids' where "w = IV_LogContainerProperty sc' ids'" by auto
  moreover have "adds [] b (fold (\<lambda>i b. if P i then bb_log_container_property_change sc i b else b) js b)" for P js b
    by (rule adds_nothing) (simp add: adds_refl adds_log)
  ultimately show ?thesis using IV_LogContainerProperty adds_trans
    by (intro exI [of _ "[]"]) (fastforce simp: update_item_def merge_index_def adds_refl item_defs)
next
  case (IV_LogItem sc p)
  with assms(1) obtain sc' p' where "w = IV_LogItem sc' p'" by auto
  with IV_LogItem show ?thesis
    by (intro exI [of _ "[]"]) (auto simp: update_item_def merge_index_def adds_log item_defs
        intro: adds_trans [OF adds_log(3) adds_log(1), simplified])
next
  case (IV_LogContainer sc)
  with assms(1) show ?thesis by (intro exI [of _ "[]"]) (auto simp: update_item_def adds_log item_defs)
qed

section \<open>Whole objects\<close>

definition pairs_area :: "(index_value option \<times> index_value option) list \<Rightarrow> row set" where
  "pairs_area ps = (\<Union>p \<in> set ps. pair_area p)"

fun apart :: "(index_value option \<times> index_value option) list \<Rightarrow> bool" where
  "apart [] \<longleftrightarrow> True"
| "apart (p # ps) \<longleftrightarrow> pair_area p \<inter> pairs_area ps = {} \<and> apart ps"

lemma rows_in_area: "fst ` set (iv_rows v) \<subseteq> iv_area v"
  by (cases v) auto

lemma opt_rows_in_area: "fst ` set (opt_rows (fst p)) \<union> fst ` set (opt_rows (snd p)) \<subseteq> pair_area p"
  using rows_in_area by (auto simp: opt_rows_def pair_area_def split: option.split)

lemma pairs_area_Cons: "pairs_area (p # ps) = pair_area p \<union> pairs_area ps"
  by (simp add: pairs_area_def)

lemma concat_rows_in_area:
  assumes "\<And>p. fst ` set (f p) \<subseteq> pair_area p"
  shows "fst ` set (concat (map f ps)) \<subseteq> pairs_area ps"
proof (induction ps)
  case (Cons p ps)
  have "fst ` set (concat (map f (p # ps))) = fst ` set (f p) \<union> fst ` set (concat (map f ps))" by (simp add: image_Un)
  also have "\<dots> \<subseteq> pairs_area (p # ps)" unfolding pairs_area_Cons by (rule Un_mono [OF assms Cons.IH])
  finally show ?case .
qed simp

lemma all_rows_in_area:
  "fst ` set (concat (map (\<lambda>p. opt_rows (fst p)) ps)) \<union> fst ` set (concat (map (\<lambda>p. opt_rows (snd p)) ps)) \<subseteq> pairs_area ps"
  by (rule Un_least; rule concat_rows_in_area; use opt_rows_in_area in blast)

lemma items_done:
  assumes "list_all2 (item_done a hf c) ps opss" "apart ps"
  shows "turns (pairs_area ps) (concat (map (\<lambda>p. opt_rows (fst p)) ps)) (concat (map (\<lambda>p. opt_rows (snd p)) ps)) (concat opss)
    \<and> list_all (row_op hf c) (concat opss)
    \<and> ops_quota a (concat opss) = (\<Sum>p\<leftarrow>ps. opt_used (snd p)) - (\<Sum>p\<leftarrow>ps. opt_used (fst p))"
  using assms
proof (induction ps opss rule: list_all2_induct)
  case Nil
  then show ?case by (simp add: turns_def pairs_area_def)
next
  case (Cons p ps ops opss)
  then have item: "turns (pair_area p) (opt_rows (fst p)) (opt_rows (snd p)) ops" by (simp add: item_done_def)
  have "turns (pair_area p \<union> pairs_area ps) (opt_rows (fst p) @ concat (map (\<lambda>p. opt_rows (fst p)) ps))
      (opt_rows (snd p) @ concat (map (\<lambda>p. opt_rows (snd p)) ps)) (ops @ concat opss)"
    using Cons by (intro turns_append [OF item _ _ opt_rows_in_area all_rows_in_area]) simp_all
  then show ?case using Cons by (simp add: item_done_def pairs_area_Cons)
qed

lemma build_items_done:
  assumes "list_all (iv_ok hf c) vs" "bb_current_account_id b = Some a" "tenant \<noteq> Some a"
  shows "\<exists>opss. adds (concat opss) b (build_items env i vs cb tenant is_set b)
    \<and> list_all2 (item_done a hf c) (map (\<lambda>v. if is_set then (None, Some v) else (Some v, None)) vs) opss"
  using assms(1,2)
proof (induction vs arbitrary: i b)
  case Nil
  then show ?case by (intro exI [of _ "[]"]) (simp add: adds_refl)
next
  case (Cons v vs)
  then obtain ops where ops: "adds ops b (build_index (env i) v cb tenant is_set b)"
    "item_done a hf c (if is_set then (None, Some v) else (Some v, None)) ops"
    using build_index_done [of hf c v b a tenant "env i" cb is_set] assms(3) by auto
  then have "bb_current_account_id (build_index (env i) v cb tenant is_set b) = Some a" using Cons.prems by (simp add: adds_def)
  then obtain opss where "adds (concat opss) (build_index (env i) v cb tenant is_set b) (build_items env i (v # vs) cb tenant is_set b)"
    "list_all2 (item_done a hf c) (map (\<lambda>v. if is_set then (None, Some v) else (Some v, None)) vs) opss"
    using Cons.IH [of "build_index (env i) v cb tenant is_set b" "Suc i"] Cons.prems by auto
  with ops show ?case by (intro exI [of _ "ops # opss"]) (auto intro: adds_trans)
qed

lemma update_items_done:
  assumes "list_all (\<lambda>(v, w). compatible v w \<and> iv_ok hf c v \<and> iv_ok hf c w) ps" "bb_current_account_id b = Some a" "tenant \<noteq> Some a"
  shows "\<exists>opss b'. update_items env i ps cb tenant b = Some b' \<and> adds (concat opss) b b'
    \<and> list_all2 (item_done a hf c) (map (\<lambda>(v, w). (Some v, Some w)) ps) opss"
  using assms(1,2)
proof (induction ps arbitrary: i b)
  case Nil
  then show ?case by (intro exI [of _ "[]"]) (simp add: adds_refl)
next
  case (Cons p ps)
  obtain v w where p: "p = (v, w)" by force
  with Cons.prems obtain ops b1 where ops: "update_item (env i) v w cb tenant b = Some b1" "adds ops b b1"
    "item_done a hf c (Some v, Some w) ops" using update_item_done [of v w hf c b a tenant "env i" cb] assms(3) by auto
  then have "bb_current_account_id b1 = Some a" using Cons.prems by (simp add: adds_def)
  then obtain opss b' where "update_items env (Suc i) ps cb tenant b1 = Some b'" "adds (concat opss) b1 b'"
    "list_all2 (item_done a hf c) (map (\<lambda>(v, w). (Some v, Some w)) ps) opss"
    using Cons.IH [of b1 "Suc i"] Cons.prems by auto
  with ops p show ?case by (intro exI [of _ "ops # opss"]) (auto intro: adds_trans)
qed

end
