(* ===== verification/ObjectCommit.thy ===== *)
theory ObjectCommit
  imports ObjectRows
begin

text \<open>
  From a change of an object to the rows in the store after its commit: the operations that
  \<open>ObjectIndexBuilder::build\<close> adds to a batch, the log entries that are written behind them, and
  their run in a transaction.
\<close>

section \<open>The operations of a change\<close>

definition old_values :: "object_index_builder \<Rightarrow> index_value list" where
  "old_values ob = (case oib_current ob of Some x \<Rightarrow> co_values x | None \<Rightarrow> [])"

definition new_values :: "object_index_builder \<Rightarrow> index_value list" where
  "new_values ob = (case oib_changes ob of Some x \<Rightarrow> no_values x | None \<Rightarrow> [])"

definition change_pairs :: "object_index_builder \<Rightarrow> (index_value option \<times> index_value option) list" where
  "change_pairs ob =
     (case (oib_current ob, oib_changes ob) of
        (None, Some new) \<Rightarrow> map (\<lambda>v. (None, Some v)) (no_values new)
      | (Some old, None) \<Rightarrow> map (\<lambda>v. (Some v, None)) (co_values old)
      | (Some old, Some new) \<Rightarrow> map (\<lambda>(v, w). (Some v, Some w)) (zip (co_values old) (no_values new))
      | (None, None) \<Rightarrow> [])"

text \<open>
  What the code takes for granted of the index values of an object: values are well formed, the old and
  the new object list the same kinds of values in the same order, and different positions have different
  rows.
\<close>

definition change_ok :: "(u8 \<Rightarrow> u8 \<Rightarrow> bool) \<Rightarrow> u8 \<Rightarrow> object_index_builder \<Rightarrow> bool" where
  "change_ok hash_field c ob \<longleftrightarrow> list_all (iv_ok hash_field c) (old_values ob) \<and> list_all (iv_ok hash_field c) (new_values ob)
     \<and> apart (change_pairs ob)
     \<and> (oib_current ob \<noteq> None \<and> oib_changes ob \<noteq> None \<longrightarrow> list_all2 compatible (old_values ob) (new_values ob))"

definition used :: "index_value list \<Rightarrow> int" where
  "used vs = (\<Sum>v\<leftarrow>vs. iv_used v)"

definition change_done :: "u32 \<Rightarrow> (u8 \<Rightarrow> u8 \<Rightarrow> bool) \<Rightarrow> u8 \<Rightarrow> object_index_builder \<Rightarrow> operation list \<Rightarrow> bool" where
  "change_done a hash_field c ob ops \<longleftrightarrow>
     turns (pairs_area (change_pairs ob)) (concat (map iv_rows (old_values ob))) (concat (map iv_rows (new_values ob))) ops
     \<and> list_all (row_op hash_field c) ops \<and> ops_quota a ops = used (new_values ob) - used (old_values ob)"

definition neutral :: "(u8 \<Rightarrow> u8 \<Rightarrow> bool) \<Rightarrow> u8 \<Rightarrow> u32 \<Rightarrow> operation list \<Rightarrow> bool" where
  "neutral hash_field c a ops \<longleftrightarrow> (\<forall>r. doc_row r \<longrightarrow> last_effect ops r = None) \<and> list_all (row_op hash_field c) ops \<and> ops_quota a ops = 0"

lemma change_done_neutral:
  assumes "change_done a hf c ob ops" "neutral hf c a xs" "neutral hf c a ys"
  shows "change_done a hf c ob (xs @ ops @ ys)"
  using assms by (auto simp: change_done_def neutral_def turns_def last_effect_append split: option.splits)

lemma neutral_nil: "neutral hf c a []"
  by (simp add: neutral_def)

lemma archive_neutral:
  "neutral hf c a [Op_AssertValue cls x]" "neutral hf c a [Op_Value (VC_Property FIELD_ARCHIVE) vop]"
  by (auto simp: neutral_def split: option.split) (cases vop; auto)+

lemma write_archive_adds:
  assumes "write_archive codec new b = Inr b'"
  shows "\<exists>ops. adds ops b b' \<and> neutral hf c a ops"
proof -
  consider bs where "b' = bb_set (VC_Property FIELD_ARCHIVE) bs b" | ps where "b' = bb_set_fnc (VC_Property FIELD_ARCHIVE) ps insert_version b"
    using assms by (auto simp: write_archive_def split: if_splits option.splits prod.splits)
  then show ?thesis by cases (use adds_op(3,7) archive_neutral(2) in blast)+
qed

lemma zip_values:
  assumes "list_all2 R xs ys"
  shows "map (\<lambda>p. f (fst p)) (map (\<lambda>(v, w). (Some v, Some w)) (zip xs ys)) = map (\<lambda>v. f (Some v)) xs"
    "map (\<lambda>p. f (snd p)) (map (\<lambda>(v, w). (Some v, Some w)) (zip xs ys)) = map (\<lambda>w. f (Some w)) ys"
  using assms by (induction rule: list_all2_induct) simp_all

lemma opt_simps: "opt_rows (Some v) = iv_rows v" "opt_rows None = []" "opt_used (Some v) = iv_used v" "opt_used None = 0"
  by (simp_all add: opt_rows_def opt_used_def)

lemma pairs_values:
  assumes "oib_current ob \<noteq> None \<and> oib_changes ob \<noteq> None \<longrightarrow> list_all2 compatible (old_values ob) (new_values ob)"
  shows "concat (map (\<lambda>p. opt_rows (fst p)) (change_pairs ob)) = concat (map iv_rows (old_values ob))"
    "concat (map (\<lambda>p. opt_rows (snd p)) (change_pairs ob)) = concat (map iv_rows (new_values ob))"
    "(\<Sum>p\<leftarrow>change_pairs ob. opt_used (fst p)) = used (old_values ob)"
    "(\<Sum>p\<leftarrow>change_pairs ob. opt_used (snd p)) = used (new_values ob)"
proof -
  consider "oib_current ob = None" | "oib_changes ob = None" | old new where "oib_current ob = Some old" "oib_changes ob = Some new" by blast
  then have "concat (map (\<lambda>p. opt_rows (fst p)) (change_pairs ob)) = concat (map iv_rows (old_values ob))
    \<and> concat (map (\<lambda>p. opt_rows (snd p)) (change_pairs ob)) = concat (map iv_rows (new_values ob))
    \<and> (\<Sum>p\<leftarrow>change_pairs ob. opt_used (fst p)) = used (old_values ob)
    \<and> (\<Sum>p\<leftarrow>change_pairs ob. opt_used (snd p)) = used (new_values ob)"
  proof cases
    case 3
    with assms have all: "list_all2 compatible (co_values old) (no_values new)" by (simp add: old_values_def new_values_def)
    show ?thesis using 3 zip_values [OF all, of opt_rows] zip_values [OF all, of opt_used]
      by (simp add: change_pairs_def old_values_def new_values_def used_def opt_simps del: map_map)
  qed (auto simp: change_pairs_def old_values_def new_values_def used_def opt_simps comp_def split: option.split)
  then show "concat (map (\<lambda>p. opt_rows (fst p)) (change_pairs ob)) = concat (map iv_rows (old_values ob))"
    "concat (map (\<lambda>p. opt_rows (snd p)) (change_pairs ob)) = concat (map iv_rows (new_values ob))"
    "(\<Sum>p\<leftarrow>change_pairs ob. opt_used (fst p)) = used (old_values ob)"
    "(\<Sum>p\<leftarrow>change_pairs ob. opt_used (snd p)) = used (new_values ob)" by auto
qed

lemma pairs_done:
  assumes "list_all2 (item_done a hf c) (change_pairs ob) opss" "change_ok hf c ob"
  shows "change_done a hf c ob (concat opss)"
  using items_done [OF assms(1)] assms(2) unfolding change_ok_def
  by (simp add: change_done_def pairs_values)

lemma oib_build_done:
  assumes build: "oib_build codec env ob b = Inr b'" and ok: "change_ok hf c ob"
    and acc: "bb_current_account_id b = Some a" "oib_tenant_id ob \<noteq> Some a"
  shows "\<exists>ops. adds ops b b' \<and> change_done a hf c ob ops"
proof -
  let ?cb = "oib_changed_by ob" and ?tenant = "oib_tenant_id ob"
  have archive: "\<exists>ops. adds ops b b' \<and> change_done a hf c ob ops"
    if "adds (xs @ concat opss) b b1" "neutral hf c a xs" "list_all2 (item_done a hf c) (change_pairs ob) opss"
      "adds ys b1 b'" "neutral hf c a ys" for xs opss b1 ys
    using change_done_neutral [OF pairs_done [OF that(3) ok] that(2,5)] adds_trans [OF that(1,4)] by auto
  show ?thesis
  proof (cases "oib_current ob")
    case None
    then obtain new where new: "oib_changes ob = Some new" using build by (auto simp: oib_build_def split: option.splits)
    obtain opss where opss: "adds (concat opss) b (build_items env 0 (no_values new) ?cb ?tenant True b)"
      "list_all2 (item_done a hf c) (change_pairs ob) opss"
      using build_items_done [of hf c "no_values new" b a ?tenant env 0 ?cb True] ok acc None new
      by (auto simp: change_ok_def new_values_def change_pairs_def)
    obtain ys where "adds ys (build_items env 0 (no_values new) ?cb ?tenant True b) b'" "neutral hf c a ys"
      using write_archive_adds build None new by (fastforce simp: oib_build_def)
    with opss show ?thesis using archive [of "[]" opss] neutral_nil by auto
  next
    case old: (Some old)
    let ?b = "bb_assert_value (VC_Property FIELD_ARCHIVE) (AV_Archive (co_version old)) b"
    let ?xs = "[Op_AssertValue (VC_Property FIELD_ARCHIVE) (AV_Archive (co_version old))]"
    have b: "adds ?xs b ?b" "neutral hf c a ?xs" by (rule adds_op archive_neutral)+
    then have acc': "bb_current_account_id ?b = Some a" using acc by (simp add: adds_def)
    show ?thesis
    proof (cases "oib_changes ob")
      case None
      obtain opss where opss: "adds (concat opss) ?b (build_items env 0 (co_values old) ?cb ?tenant False ?b)"
        "list_all2 (item_done a hf c) (change_pairs ob) opss"
        using build_items_done [of hf c "co_values old" ?b a ?tenant env 0 ?cb False] ok acc(2) acc' None old
        by (auto simp: change_ok_def old_values_def change_pairs_def)
      have "b' = bb_clear (VC_Property FIELD_ARCHIVE) (build_items env 0 (co_values old) ?cb ?tenant False ?b)"
        using build None old by (simp add: oib_build_def)
      then show ?thesis using archive [OF adds_trans [OF b(1) opss(1)] b(2) opss(2) _ archive_neutral(2)] adds_op(4) by metis
    next
      case (Some new)
      then have "list_all (\<lambda>(v, w). compatible v w \<and> iv_ok hf c v \<and> iv_ok hf c w) (zip (co_values old) (no_values new))"
        using ok old by (auto simp: change_ok_def old_values_def new_values_def list_all2_iff list_all_iff dest: set_zip_leftD set_zip_rightD)
      then obtain opss b1 where opss: "update_items env 0 (zip (co_values old) (no_values new)) ?cb ?tenant ?b = Some b1"
        "adds (concat opss) ?b b1" "list_all2 (item_done a hf c) (change_pairs ob) opss"
        using update_items_done [of hf c _ ?b a ?tenant env 0 ?cb] acc(2) acc' Some old by (fastforce simp: change_pairs_def)
      obtain ys where "adds ys b1 b'" "neutral hf c a ys"
        using write_archive_adds build Some old opss(1) by (fastforce simp: oib_build_def)
      then show ?thesis using archive [OF adds_trans [OF b(1) opss(2)] b(2) opss(3)] by blast
    qed
  qed
qed

section \<open>Running the operations\<close>

fun row_wf :: "(u8 \<Rightarrow> u8 \<Rightarrow> bool) \<Rightarrow> u8 \<Rightarrow> row \<Rightarrow> bool" where
  "row_wf hash_field c (R_Index _ _) \<longleftrightarrow> True"
| "row_wf hash_field c (R_Value cls) \<longleftrightarrow> vc_wf hash_field c cls"

definition in_context :: "u32 \<Rightarrow> u8 \<Rightarrow> u32 \<Rightarrow> commit_state \<Rightarrow> bool" where
  "in_context a c d s \<longleftrightarrow> cs_account_id s = a \<and> cs_collection s = c \<and> cs_document_id s = d"

lemma class_keys_apart:
  assumes "vc_serialize cls a c d 0 = Some key" "vc_serialize cls' a' c d' 0 = Some key" "vc_subspace cls c = vc_subspace cls' c"
    and "vc_wf hf c cls" "vc_wf hf c cls'"
  shows "cls = cls'"
proof -
  let ?k = "\<lambda>a d cls. \<lparr>vk_account_id = a, vk_collection = c, vk_document_id = d, vk_class = cls\<rparr>"
  have "vk_same (?k a d cls) (?k a' d' cls')"
    by (rule value_keys_same [where flags = 0 and bs = key and hash_field = hf])
      (use assms in \<open>simp_all add: value_key_serialize_def value_key_subspace_def\<close>)
  then show ?thesis by (simp add: vk_same_def)
qed

lemma blob_op_subspace_neq: "blob_op_subspace x \<noteq> SUBSPACE_INDEXES" "blob_op_subspace x \<noteq> SUBSPACE_LOGS" "blob_op_subspace x \<noteq> SUBSPACE_COUNTER"
  by (cases x; simp add: subspace_defs)+

lemma queue_subspace_neq: "queue_subspace x \<noteq> SUBSPACE_INDEXES"
  by (cases x; simp add: subspace_defs)

lemma value_not_index: "vc_wf hf c cls \<Longrightarrow> vc_subspace cls c \<noteq> SUBSPACE_INDEXES"
  by (cases "(cls, c)" rule: vc_subspace.cases)
    (auto simp: subspace_defs blob_op_subspace_neq [unfolded subspace_defs] queue_subspace_neq [unfolded subspace_defs])

lemma doc_subspace:
  assumes "doc_class cls"
  shows "vc_subspace cls c \<noteq> SUBSPACE_LOGS" "vc_subspace cls c \<noteq> SUBSPACE_COUNTER"
  using assms by (cases cls; auto simp: subspace_defs blob_op_subspace_neq [unfolded subspace_defs])+

lemma index_key_same:
  "index_key_serialize \<lparr>ik_account_id = a, ik_collection = c, ik_document_id = d, ik_field = f, ik_key = k\<rparr> 0
     = index_key_serialize \<lparr>ik_account_id = a, ik_collection = c, ik_document_id = d, ik_field = f', ik_key = k'\<rparr> 0
   \<longleftrightarrow> f = f' \<and> k = k'"
  by (simp add: index_key_serialize_def subspace_serializer_def)

lemma value_op_elsewhere:
  assumes "exec_value_op map_rocks cf key vop (t, result) = Inr (t', result')" "cf' \<noteq> cf \<or> k' \<noteq> key"
  shows "tv_current t' cf' k' = tv_current t cf' k'"
  by (rule value_op_keeps [OF assms(1), where P = "\<lambda>x. tv_current x cf' k' = tv_current t cf' k'"])
    (use assms(2) in \<open>auto simp: kv_put_apply\<close>)

lemma exec_row_value:
  assumes "exec_op map_rocks with_ids (Op_Value cls vop) (t, s) = Inr (t', s')" "row_op hf c (Op_Value cls vop)" "in_context a c d s"
    and "doc_row r" "row_wf hf c r"
  shows "row_cell a c d r (tv_current t') =
    (case op_effect (Op_Value cls vop) of Some (r', v) \<Rightarrow> if r = r' then cell_of v else row_cell a c d r (tv_current t)
     | None \<Rightarrow> row_cell a c d r (tv_current t))"
proof -
  obtain key res where key: "vc_serialize cls a c d 0 = Some key"
    and ex: "exec_value_op map_rocks (vc_subspace cls c) key vop (t, cs_result s) = Inr (t', res)"
    using assms(1,3) by (auto simp: class_key_def result_iffs in_context_def)
  show ?thesis
  proof (cases "r = R_Value cls")
    case True
    with assms(2,4) have "vop = VO_Clear \<or> (\<exists>v. vop = VO_Set v)" by simp
    with True key ex show ?thesis by (auto simp: result_iffs kv_put_apply)
  next
    case False
    then have same: "row_cell a c d r (tv_current t') = row_cell a c d r (tv_current t)"
    proof (cases r)
      case (R_Index f k)
      have "SUBSPACE_INDEXES \<noteq> vc_subspace cls c" using assms(2) value_not_index [of hf c cls] by simp
      then show ?thesis unfolding R_Index row_cell.simps by (intro value_op_elsewhere [OF ex]) simp
    next
      case (R_Value cls')
      have wf: "vc_wf hf c cls" "vc_wf hf c cls'" using assms(2,5) R_Value by simp_all
      have "vc_subspace cls' c \<noteq> vc_subspace cls c \<or> key' \<noteq> key" if "vc_serialize cls' a c d 0 = Some key'" for key'
        using class_keys_apart [OF key _ _ wf] that R_Value False by metis
      then show ?thesis using R_Value by (auto split: option.split intro: value_op_elsewhere [OF ex])
    qed
    then show ?thesis using False by (cases vop) simp_all
  qed
qed

lemma exec_row:
  assumes "exec_op map_rocks with_ids op (t, s) = Inr (t', s')" "row_op hf c op" "in_context a c d s" "doc_row r" "row_wf hf c r"
  shows "row_cell a c d r (tv_current t') =
    (case op_effect op of Some (r', v) \<Rightarrow> if r = r' then cell_of v else row_cell a c d r (tv_current t)
     | None \<Rightarrow> row_cell a c d r (tv_current t))"
proof (cases op)
  case (Op_Value cls vop)
  with exec_row_value [OF _ _ assms(3-)] assms(1,2) show ?thesis by blast
next
  case (Op_Index f k is_set)
  with assms(1,3) have t': "tv_current t' = kv_put SUBSPACE_INDEXES
      (index_key_serialize \<lparr>ik_account_id = a, ik_collection = c, ik_document_id = d, ik_field = f, ik_key = k\<rparr> 0)
      (if is_set then Present [] else Absent) (tv_current t)"
    by (auto simp: Let_def in_context_def result_iffs)
  show ?thesis
  proof (cases r)
    case (R_Index f' k')
    then show ?thesis by (auto simp: Op_Index t' kv_put_apply index_key_same)
  next
    case (R_Value cls)
    with assms(5) value_not_index show ?thesis by (auto simp: Op_Index t' kv_put_apply split: option.split)
  qed
next
  case (Op_AssertValue cls x)
  with assms(1) have "tv_current t' = tv_current t" by (auto simp: run_iffs Let_def split: if_splits)
  with Op_AssertValue show ?thesis by simp
qed (use assms(2) in simp_all)

lemma exec_context:
  assumes "exec_op map_rocks with_ids op (t, s) = Inr (t', s')" "row_op hf c op" "in_context a c d s"
  shows "in_context a c d s'"
  using assms by (cases op) (auto simp: run_iffs Let_def in_context_def split: if_splits)

lemma exec_rows:
  assumes "exec_ops map_rocks with_ids ops (t, s) = Inr (t', s')" "list_all (row_op hf c) ops" "in_context a c d s"
    and r: "doc_row r" "row_wf hf c r"
  shows "row_cell a c d r (tv_current t') =
    (case last_effect ops r of Some v \<Rightarrow> cell_of v | None \<Rightarrow> row_cell a c d r (tv_current t))"
  using assms(1-3)
proof (induction ops arbitrary: t s)
  case (Cons op ops)
  then obtain t1 s1 where op: "exec_op map_rocks with_ids op (t, s) = Inr (t1, s1)" and ops: "exec_ops map_rocks with_ids ops (t1, s1) = Inr (t', s')"
    by (auto simp: result_iffs)
  from Cons.IH [OF ops] exec_context [OF op] exec_row [OF op _ _ r] Cons.prems(2,3) show ?case
    by (auto split: option.split)
qed simp

subsection \<open>Used quota\<close>

definition quota_key :: "u32 \<Rightarrow> bytes" where
  "quota_key u = directory_key (Dir_UsedQuota u) ks_new"

definition used_quota :: "kv \<Rightarrow> u32 \<Rightarrow> u64 option" where
  "used_quota m u = cell_counter (m SUBSPACE_QUOTA (quota_key u))"

lemma quota_class_key: "vc_serialize (VC_Directory (Dir_UsedQuota u)) a c d 0 = Some (quota_key u)"
  by (simp add: vc_serialize_def vc_serializer_def quota_key_def Let_def)

lemma cell_counter_merge:
  "cell_counter x = Some n \<Longrightarrow> cell_counter (cell_merge x (to_le_bytes (i :: u64))) = Some (n + i)"
  by (cases x) (auto simp: numeric_value_merge_def)

lemma exec_quota:
  assumes "exec_op map_rocks with_ids op (t, s) = Inr (t', s')" "row_op hf c op" "in_context a c d s"
    and n: "used_quota (tv_current t) u = Some n"
  shows "used_quota (tv_current t') u = Some (n + word_of_int (op_quota u op))"
proof (cases op)
  case (Op_Value cls vop)
  obtain key res where key: "vc_serialize cls a c d 0 = Some key"
    and ex: "exec_value_op map_rocks (vc_subspace cls c) key vop (t, cs_result s) = Inr (t', res)"
    using assms(1,3) by (auto simp: Op_Value class_key_def result_iffs in_context_def)
  show ?thesis
  proof (cases "cls = VC_Directory (Dir_UsedQuota u)")
    case True
    moreover from this assms(2) obtain i where "vop = VO_AtomicAdd i" by (auto simp: Op_Value)
    moreover from True key have "key = quota_key u" by (simp add: quota_class_key)
    ultimately show ?thesis using ex n by (auto simp: Op_Value used_quota_def kv_put_apply cell_counter_merge)
  next
    case False
    have wf: "vc_wf hf c cls" "vc_wf hf c (VC_Directory (Dir_UsedQuota u))" using assms(2) Op_Value by simp_all
    have "SUBSPACE_QUOTA \<noteq> vc_subspace cls c \<or> quota_key u \<noteq> key"
      using class_keys_apart [OF key _ _ wf, of a d] quota_class_key [of u a c d] False by auto
    from value_op_elsewhere [OF ex this] n False show ?thesis by (simp add: Op_Value used_quota_def)
  qed
next
  case (Op_Index f k is_set)
  have "SUBSPACE_QUOTA \<noteq> SUBSPACE_INDEXES" by (simp add: subspace_defs)
  with assms(1) n Op_Index show ?thesis by (auto simp: Let_def result_iffs used_quota_def kv_put_apply split: if_splits)
next
  case (Op_AssertValue cls x)
  with assms(1) have "tv_current t' = tv_current t" by (auto simp: run_iffs Let_def split: if_splits)
  with Op_AssertValue n show ?thesis by simp
qed (use assms(2) in simp_all)

lemma exec_quotas:
  assumes "exec_ops map_rocks with_ids ops (t, s) = Inr (t', s')" "list_all (row_op hf c) ops" "in_context a c d s"
    and "used_quota (tv_current t) u = Some n"
  shows "used_quota (tv_current t') u = Some (n + word_of_int (ops_quota u ops))"
  using assms
proof (induction ops arbitrary: t s n)
  case (Cons op ops)
  then obtain t1 s1 where op: "exec_op map_rocks with_ids op (t, s) = Inr (t1, s1)" and ops: "exec_ops map_rocks with_ids ops (t1, s1) = Inr (t', s')"
    by (auto simp: result_iffs)
  have ok: "row_op hf c op" "list_all (row_op hf c) ops" using Cons.prems(2) by simp_all
  from Cons.IH [OF ops ok(2) exec_context [OF op ok(1) Cons.prems(3)] exec_quota [OF op ok(1) Cons.prems(3,4)]]
  show ?case by (simp add: add.assoc)
qed simp

subsection \<open>The log behind them\<close>

lemma exec_tail:
  assumes "exec_ops map_rocks with_ids (tail_ops orders acc es) (t, s) = Inr (t', s')" "cf \<noteq> SUBSPACE_LOGS"
  shows "tv_current t' cf = tv_current t cf"
proof -
  have "list_all (\<lambda>op. case op of Op_AccountId _ \<Rightarrow> True | Op_Log _ _ \<Rightarrow> True | _ \<Rightarrow> False) (tail_ops orders acc es)"
    by (induction orders acc es rule: tail_ops.induct) (auto simp: entry_ops_def list_all_iff split: prod.split)
  moreover have "tv_current t' cf = tv_current t cf"
    if "exec_ops map_rocks with_ids ops (t, s) = Inr (t', s')"
      "list_all (\<lambda>op. case op of Op_AccountId _ \<Rightarrow> True | Op_Log _ _ \<Rightarrow> True | _ \<Rightarrow> False) ops" for ops
    using that
  proof (induction ops arbitrary: t s)
    case (Cons op ops)
    then obtain t1 s1 where op: "exec_op map_rocks with_ids op (t, s) = Inr (t1, s1)" and ops: "exec_ops map_rocks with_ids ops (t1, s1) = Inr (t', s')"
      by (auto simp: result_iffs)
    have "tv_current t1 cf = tv_current t cf"
      using op Cons.prems(2) assms(2) by (cases op) (auto simp: result_iffs Let_def kv_put_def split: if_splits)
    then show ?case using Cons.IH [OF ops] Cons.prems(2) by simp
  qed simp
  ultimately show ?thesis using assms(1) by blast
qed

subsection \<open>The commit\<close>

definition for_document :: "u32 \<Rightarrow> collection \<Rightarrow> u32 \<Rightarrow> batch_builder" where
  "for_document a coll d = with_document d (with_collection coll (with_account_id a bb_new))"

lemma for_document_simps:
  "bb_ops (for_document a coll d) = [Op_AccountId a, Op_Collection coll, Op_DocumentId d]"
  "bb_current_account_id (for_document a coll d) = Some a"
  by (simp_all add: for_document_def with_document_def with_collection_def with_account_id_def bb_new_def bb_push_def)

lemma committed_change:
  assumes build: "oib_build codec env ob (for_document a coll d) = Inr b"
    and commit: "store_commit (fst (build_all orders b)) m = Inr (ids, m')"
    and ok: "change_ok hf (collection_to_u8 coll) ob" and tenant: "oib_tenant_id ob \<noteq> Some a"
  obtains ops with_ids t s t' s' where "change_done a hf (collection_to_u8 coll) ob ops"
    "exec_ops map_rocks with_ids ops (t, s) = Inr (t', s')" "in_context a (collection_to_u8 coll) d s"
    "\<And>cf. cf \<noteq> SUBSPACE_COUNTER \<Longrightarrow> tv_current t cf = m cf" "\<And>cf. cf \<noteq> SUBSPACE_LOGS \<Longrightarrow> m' cf = tv_current t' cf"
proof -
  obtain ops where ops: "adds ops (for_document a coll d) b" "change_done a hf (collection_to_u8 coll) ob ops"
    using oib_build_done [OF build ok for_document_simps(2) tenant] by blast
  let ?pre = "[Op_AccountId a, Op_Collection coll, Op_DocumentId d]"
  let ?batch = "fst (build_all orders b)" and ?tail = "tail_ops orders (bb_current_account_id b) (vm_iter (bb_changes b))"
  let ?with_ids = "\<not> vm_is_empty (wb_changes ?batch)"
  have wb: "wb_ops ?batch = ?pre @ ops @ ?tail"
    using ops(1) by (simp add: build_all_def Let_def serialize_ops adds_def for_document_simps)
  obtain t3 s3 where run: "store_run ?batch m = Inr (t3, s3)" and m': "m' = tv_current t3"
    using commit by (auto simp: store_commit_run result_iffs)
  obtain t0 result where start: "(if ?with_ids then assign_change_ids map_rocks (vm_keys (wb_changes ?batch))
        (rx_begin map_rocks m, assigned_ids_default) else Inr (rx_begin map_rocks m, assigned_ids_default)) = Inr (t0, result)"
    and all: "exec_ops map_rocks ?with_ids (?pre @ ops @ ?tail) (t0, cs_start result) = Inr (t3, s3)"
    using store_runE [OF run, unfolded wb] .
  have t0: "tv_current t0 cf = m cf" if "cf \<noteq> SUBSPACE_COUNTER" for cf
    using start assign_keeps [where P = "\<lambda>t. tv_current t cf = m cf"] that
    by (auto simp: kv_put_def split: if_splits)
  obtain t1 s1 t2 s2 where pre: "exec_ops map_rocks ?with_ids ?pre (t0, cs_start result) = Inr (t1, s1)"
    and mid: "exec_ops map_rocks ?with_ids ops (t1, s1) = Inr (t2, s2)"
    and tail: "exec_ops map_rocks ?with_ids ?tail (t2, s2) = Inr (t3, s3)"
    using all unfolding exec_ops_append result_iffs by auto
  have "t1 = t0" by (rule context_ops_keep [OF pre]) simp
  moreover have "ctx_matches (Some a, Some coll, Some d) s1"
    using exec_ops_ctx [OF pre, of "(None, None, None)"] by simp
  then have "in_context a (collection_to_u8 coll) d s1" by (simp add: in_context_def)
  ultimately show thesis using that [OF ops(2) mid] t0 exec_tail [OF tail] m' by simp
qed

subsection \<open>Objects\<close>

text \<open>Messages, mailboxes, calendars and files meet what the code takes for granted; a file must not turn into a folder.\<close>

definition changes_between :: "index_value list \<Rightarrow> index_value list \<Rightarrow> object_index_builder \<Rightarrow> bool" where
  "changes_between vs ws ob \<longleftrightarrow> map_option co_values (oib_current ob) = Some vs \<and> map_option no_values (oib_changes ob) = Some ws"

lemma changes_ok:
  assumes "changes_between vs ws ob" "list_all (iv_ok hf c) vs" "list_all (iv_ok hf c) ws" "list_all2 compatible vs ws"
    and "apart (map (\<lambda>(v, w). (Some v, Some w)) (zip vs ws))"
  shows "change_ok hf c ob"
  using assms by (auto simp: changes_between_def change_ok_def old_values_def new_values_def change_pairs_def)

lemma be_bytes_nonempty: "to_be_bytes (v :: u64) \<noteq> []"
  by (simp flip: length_greater_0_conv)

lemma object_changes_ok:
  "changes_between (message_index_values now ms th sz) (message_index_values now' ms' th' sz') ob \<Longrightarrow> change_ok hf c ob"
  "changes_between (mailbox_index_values acls) (mailbox_index_values acls') ob \<Longrightarrow>
     distinct (map ag_account_id acls) \<Longrightarrow> distinct (map ag_account_id acls') \<Longrightarrow> change_ok hf c ob"
  "changes_between (calendar_index_values acls n) (calendar_index_values acls' n') ob \<Longrightarrow>
     distinct (map ag_account_id acls) \<Longrightarrow> distinct (map ag_account_id acls') \<Longrightarrow> change_ok hf c ob"
  "changes_between (file_index_values acls n blob) (file_index_values acls' n' blob') ob \<Longrightarrow>
     distinct (map ag_account_id acls) \<Longrightarrow> distinct (map ag_account_id acls') \<Longrightarrow>
     (case (blob, blob') of (None, None) \<Rightarrow> True | (Some h, Some h') \<Rightarrow> length h = 32 \<and> length h' = 32 | _ \<Rightarrow> False) \<Longrightarrow>
     change_ok hf c ob"
proof -
  note defs = pairs_area_def pair_area_def message_index_values_def mailbox_index_values_def calendar_index_values_def
    file_index_values_def ii_from_u64_def be_bytes_nonempty FIELD_ARCHIVE_def ii_is_none_def acl_row_def
  show "changes_between (message_index_values now ms th sz) (message_index_values now' ms' th' sz') ob \<Longrightarrow> change_ok hf c ob"
    by (erule changes_ok) (auto simp: defs)
  show "changes_between (mailbox_index_values acls) (mailbox_index_values acls') ob \<Longrightarrow>
     distinct (map ag_account_id acls) \<Longrightarrow> distinct (map ag_account_id acls') \<Longrightarrow> change_ok hf c ob"
    by (erule changes_ok) (auto simp: defs)
  show "changes_between (calendar_index_values acls n) (calendar_index_values acls' n') ob \<Longrightarrow>
     distinct (map ag_account_id acls) \<Longrightarrow> distinct (map ag_account_id acls') \<Longrightarrow> change_ok hf c ob"
    by (erule changes_ok) (auto simp: defs)
  show "changes_between (file_index_values acls n blob) (file_index_values acls' n' blob') ob \<Longrightarrow>
     distinct (map ag_account_id acls) \<Longrightarrow> distinct (map ag_account_id acls') \<Longrightarrow>
     (case (blob, blob') of (None, None) \<Rightarrow> True | (Some h, Some h') \<Rightarrow> length h = 32 \<and> length h' = 32 | _ \<Rightarrow> False) \<Longrightarrow>
     change_ok hf c ob"
    by (erule changes_ok; cases blob; cases blob') (auto simp: defs)
qed

text \<open>A notification of a changed share reads back as it was written.\<close>

lemma share_notification_roundtrip:
  assumes "utf8_valid (sn_name n)"
  shows "sn_deserialize (sn_serialize n) = Some n"
proof -
  let ?bs = "sn_serialize n"
  have bs: "?bs = to_be_bytes (sn_object_account_id n) @ to_be_bytes (sn_object_id n) @ [collection_to_u8 (sn_object_type n)]
      @ to_be_bytes (sn_changed_by n) @ to_be_bytes (bits (sn_old_rights n)) @ to_be_bytes (bits (sn_new_rights n)) @ sn_name n"
    by (simp add: sn_serialize_def ks_new_def write_be_def write_u8_def write_slice_def)
  have "collection_from_u8 (collection_to_u8 c) = c" for c by (cases c) (simp_all add: collection_from_u8_def collection_to_u8_def)
  then show ?thesis using assms
    by (simp add: bs sn_deserialize_def deserialize_be_u32_def deserialize_be_u64_def get_range_def len_defs Let_def)
qed

text \<open>An object with an index key and a quota, written to an empty store.\<close>

definition sample_env :: "nat \<Rightarrow> call_env" where
  "sample_env = (\<lambda>_. \<lparr>ce_now = 0, ce_random = 0, ce_due = TaskEpoch 0\<rparr>)"

definition sample_change :: object_index_builder where
  "sample_change = with_changes \<lparr>no_bytes = [7], no_versioned = False, no_values = [IV_Index 5 (II_Vec [1]), IV_Quota 5]\<rparr> oib_new"

lemma sample_values: "new_values sample_change = [IV_Index 5 (II_Vec [1]), IV_Quota 5]" "old_values sample_change = []"
  by (simp_all add: sample_change_def new_values_def old_values_def with_changes_def oib_new_def)

lemma sample_change_pairs: "change_pairs sample_change = [(None, Some (IV_Index 5 (II_Vec [1]))), (None, Some (IV_Quota 5))]"
  by (simp add: sample_change_def change_pairs_def with_changes_def oib_new_def)

lemma sample_change_area: "pairs_area (change_pairs sample_change) = {R_Index 5 [1]}"
  by (simp add: sample_change_pairs pairs_area_def pair_area_def)

lemma sample_change_ok: "change_ok (\<lambda>_ _. False) c sample_change" "oib_tenant_id sample_change \<noteq> Some a"
  by (simp_all add: change_ok_def sample_values sample_change_pairs pairs_area_def pair_area_def)
    (simp_all add: sample_change_def with_changes_def oib_new_def)

lemma sample_commits:
  "\<exists>b ids m'. oib_build stored_codec sample_env sample_change (for_document 9 Coll_SieveScript 1) = Inr b
    \<and> store_commit (fst (build_all sample_orders b)) (\<lambda>_ _. Absent) = Inr (ids, m')"
proof -
  let ?b = "bb_set (VC_Property FIELD_ARCHIVE) (plain_frame stored_codec archiver_new_flags [7])
    (bb_add (VC_Directory (Dir_UsedQuota 9)) 5 (bb_index 5 [1] (for_document 9 Coll_SieveScript 1)))"
  have "oib_build stored_codec sample_env sample_change (for_document 9 Coll_SieveScript 1) = Inr ?b"
    by (simp add: oib_build_def sample_change_def with_changes_def oib_new_def add_quota_def write_archive_def
        archiver_serialize_def COMPRESS_WATERMARK_def Let_def for_document_simps bb_index_def bb_count_def bb_push_def)
  moreover have "bb_changes ?b = vm_new" "bb_changed_collections ?b = vm_new"
    by (simp_all add: for_document_def with_document_def with_collection_def with_account_id_def bb_new_def bb_push_def
        bb_set_def bb_add_def bb_index_def bb_count_def)
  then have "fst (build_all sample_orders ?b) = \<lparr>wb_changes = vm_new, wb_ops = bb_ops ?b\<rparr>"
    by (simp add: build_all_def serialize_changes_def vm_is_empty_def vm_new_def Let_def)
  moreover have "bb_ops ?b = [Op_AccountId 9, Op_Collection Coll_SieveScript, Op_DocumentId 1, Op_Index 5 [1] True,
      Op_Value (VC_Directory (Dir_UsedQuota 9)) (VO_AtomicAdd 5),
      Op_Value (VC_Property FIELD_ARCHIVE) (VO_Set (plain_frame stored_codec archiver_new_flags [7]))]"
    by (simp add: bb_set_def bb_add_def bb_index_def bb_count_def bb_push_def for_document_simps)
  moreover have "vm_is_empty (vm_new :: (u32, changed_collection) vec_map)" by (simp add: vm_is_empty_def vm_new_def)
  ultimately show ?thesis
    by (simp add: store_commit_run store_run_def Let_def class_key_def quota_class_key vc_serialize_def)
qed

section \<open>Properties\<close>



text \<open>
  C12: the used quota of an account follows its objects: a commit that inserts, changes or deletes an
  object adds to the counter the quota of the new object and takes away that of the old one, as the
  64-bit counter wraps.
\<close>

theorem committed_quota_follows_object:
  assumes "oib_build codec env ob (for_document a coll d) = Inr b"
    and "store_commit (fst (build_all orders b)) m = Inr (ids, m')"
    and "change_ok hash_field (collection_to_u8 coll) ob" "oib_tenant_id ob \<noteq> Some a"
    and "used_quota m a = Some n"
  shows "used_quota m' a = Some (n + word_of_int (used (new_values ob)) - word_of_int (used (old_values ob)))"
proof -
  let ?c = "collection_to_u8 coll"
  obtain ops with_ids t s t' s' where d: "change_done a hash_field ?c ob ops"
    and ex: "exec_ops map_rocks with_ids ops (t, s) = Inr (t', s')" and ctx: "in_context a ?c d s"
    and t: "\<And>cf. cf \<noteq> SUBSPACE_COUNTER \<Longrightarrow> tv_current t cf = m cf" and t': "\<And>cf. cf \<noteq> SUBSPACE_LOGS \<Longrightarrow> m' cf = tv_current t' cf"
    using committed_change [OF assms(1-4)] by blast
  have "SUBSPACE_QUOTA \<noteq> SUBSPACE_COUNTER" "SUBSPACE_QUOTA \<noteq> SUBSPACE_LOGS" by (simp_all add: subspace_defs)
  then have "used_quota (tv_current t) a = Some n" "used_quota m' a = used_quota (tv_current t') a"
    using t t' assms(5) by (simp_all add: used_quota_def)
  moreover have "list_all (row_op hash_field ?c) ops" and delta: "ops_quota a ops = used (new_values ob) - used (old_values ob)"
    using d by (simp_all add: change_done_def)
  ultimately show ?thesis using exec_quotas [OF ex _ ctx] by (simp add: delta wi_hom_sub [symmetric] add_diff_eq)
qed

theorem committed_quota_follows_object_witness:
  "\<exists>b ids m'. oib_build stored_codec sample_env sample_change (for_document 9 Coll_SieveScript 1) = Inr b
    \<and> store_commit (fst (build_all sample_orders b)) (\<lambda>_ _. Absent) = Inr (ids, m') \<and> used_quota m' 9 = Some 5"
proof -
  obtain b ids m' where s: "oib_build stored_codec sample_env sample_change (for_document 9 Coll_SieveScript 1) = Inr b"
    "store_commit (fst (build_all sample_orders b)) (\<lambda>_ _. Absent) = Inr (ids, m')" using sample_commits by blast
  have "used_quota (\<lambda>_ _. Absent) 9 = Some 0" by (simp add: used_quota_def)
  from committed_quota_follows_object [OF s sample_change_ok this] s show ?thesis by (simp add: sample_values used_def)
qed

end
