(* ===== verification/ExprParser.thy ===== *)
theory ExprParser
  imports Prelude
begin

text \<open>
  The parser of configuration expressions, \<open>crates/common/src/expr/parser.rs\<close>, with the tokens and
  the items of the compiled form from \<open>expr/mod.rs\<close>. Tokens go through a stack of operators into
  postfix code; a logical operator leaves a jump over its right operand, whose distance is filled in
  when the operator is written out. Floats and compiled regular expressions are types that the parser
  only passes on. Stacks have their top in front.
\<close>

section \<open>The program\<close>

subsection \<open>Tokens and items\<close>

datatype binary_operator =
    BO_Add | BO_Subtract | BO_Multiply | BO_Divide
  | BO_And | BO_Or | BO_Xor
  | BO_Eq | BO_Ne | BO_Lt | BO_Le | BO_Gt | BO_Ge

datatype unary_operator = UO_Not | UO_Minus

datatype 'f const_value = C_Integer int | C_Float 'f | C_String bytes

datatype setting = Set_Hostname | Set_ReportDomain | Set_NodeId | Set_Other bytes

datatype ('f, 'r) token =
    T_Variable u32
  | T_Global bytes
  | T_Capture u32
  | T_Function bytes u32 u32
  | T_Constant "'f const_value"
  | T_Setting setting
  | T_Regex 'r
  | T_BinaryOperator binary_operator
  | T_UnaryOperator unary_operator
  | T_OpenParen
  | T_CloseParen
  | T_OpenBracket
  | T_CloseBracket
  | T_Comma

datatype ('f, 'r) expression_item =
    X_Variable u32
  | X_Global bytes
  | X_Setting setting
  | X_Capture u32
  | X_Constant "'f const_value"
  | X_BinaryOperator binary_operator
  | X_UnaryOperator unary_operator
  | X_Regex 'r
  | X_JmpIf bool u32
  | X_Function u32 u32
  | X_ArrayAccess
  | X_ArrayBuild u32

fun precedence :: "binary_operator \<Rightarrow> int" where
  "precedence BO_Multiply = 7"
| "precedence BO_Divide = 7"
| "precedence BO_Add = 6"
| "precedence BO_Subtract = 6"
| "precedence BO_Gt = 5"
| "precedence BO_Ge = 5"
| "precedence BO_Lt = 5"
| "precedence BO_Le = 5"
| "precedence BO_Eq = 4"
| "precedence BO_Ne = 4"
| "precedence BO_Xor = 3"
| "precedence BO_And = 2"
| "precedence BO_Or = 1"

definition ID_ARRAY_ACCESS :: u32 where "ID_ARRAY_ACCESS = - 1"
definition ID_ARRAY_BUILD :: u32 where "ID_ARRAY_BUILD = - 1 - 1"

subsection \<open>The state of the parser\<close>

type_synonym ('f, 'r) op_stack = "(('f, 'r) token \<times> nat option) list"

record ('f, 'r) expression_parser =
  ep_output :: "('f, 'r) expression_item list"
  ep_operator_stack :: "('f, 'r) op_stack"
  ep_arg_count :: "int list"

definition ep_new :: "('f, 'r) expression_parser" where
  "ep_new = \<lparr>ep_output = [], ep_operator_stack = [], ep_arg_count = []\<rparr>"

datatype parse_error =
    PE_Tokenizer bytes
  | PE_MismatchedParentheses
  | PE_FunctionArguments
  | PE_MissingArrayIndex
  | PE_MatchesArguments
  | PE_ConfigGetArguments
  | PE_InvalidToken
  | PE_Panic

definition i32_saturate :: "int \<Rightarrow> int" where
  "i32_saturate i = max (- (2 ^ 31)) (min (2 ^ 31 - 1) i)"

text \<open>The entry below the top, or the top when there is no other, gains an argument if it builds an array.\<close>

fun count_item :: "('f, 'r) token \<times> nat option \<Rightarrow> ('f, 'r) token \<times> nat option" where
  "count_item (T_Function name i num_args, j) = (T_Function name i (if i = ID_ARRAY_BUILD then num_args + 1 else num_args), j)"
| "count_item e = e"

fun count_array_item :: "('f, 'r) op_stack \<Rightarrow> ('f, 'r) op_stack" where
  "count_array_item [] = []"
| "count_array_item [e] = [count_item e]"
| "count_array_item (e # e' # stk) = e # count_item e' # stk"

definition inc_arg_count :: "('f, 'r) expression_parser \<Rightarrow> ('f, 'r) expression_parser" where
  "inc_arg_count p =
     (case ep_arg_count p of
        x # xs \<Rightarrow> p\<lparr>ep_arg_count := i32_saturate (x + 1) # xs, ep_operator_stack := count_array_item (ep_operator_stack p)\<rparr>
      | [] \<Rightarrow> p)"

definition dec_arg_count :: "('f, 'r) expression_parser \<Rightarrow> ('f, 'r) expression_parser" where
  "dec_arg_count p = (case ep_arg_count p of x # xs \<Rightarrow> p\<lparr>ep_arg_count := i32_saturate (x - 1) # xs\<rparr> | [] \<Rightarrow> p)"

text \<open>Indexing the output out of bounds would panic.\<close>

definition update_jmp_pos :: "nat option \<Rightarrow> ('f, 'r) expression_item list \<Rightarrow> ('f, 'r) expression_item list option" where
  "update_jmp_pos jmp_pos output =
     (case jmp_pos of
        None \<Rightarrow> Some output
      | Some j \<Rightarrow>
          if j < length output
          then Some (case output ! j of X_JmpIf val _ \<Rightarrow> output[j := X_JmpIf val (of_nat (length output - j))] | _ \<Rightarrow> output)
          else None)"

subsection \<open>Writing out operators\<close>

text \<open>Before a binary operator: unary operators and binary operators that bind at least as tightly.\<close>

fun pop_tighter :: "binary_operator \<Rightarrow> ('f, 'r) op_stack \<Rightarrow> ('f, 'r) expression_item list
    \<Rightarrow> (('f, 'r) op_stack \<times> ('f, 'r) expression_item list) option" where
  "pop_tighter bop [] output = Some ([], output)"
| "pop_tighter bop ((t, jmp_pos) # stk) output =
     (case t of
        T_BinaryOperator top_bop \<Rightarrow>
          if precedence bop \<le> precedence top_bop
          then Option.bind (update_jmp_pos jmp_pos output) (\<lambda>output. pop_tighter bop stk (output @ [X_BinaryOperator top_bop]))
          else Some ((t, jmp_pos) # stk, output)
      | T_UnaryOperator top_uop \<Rightarrow> pop_tighter bop stk (output @ [X_UnaryOperator top_uop])
      | _ \<Rightarrow> Some ((t, jmp_pos) # stk, output))"

text \<open>At a comma: all operators down to the next opening token or function.\<close>

fun pop_operators :: "('f, 'r) op_stack \<Rightarrow> ('f, 'r) expression_item list
    \<Rightarrow> (('f, 'r) op_stack \<times> ('f, 'r) expression_item list) option" where
  "pop_operators [] output = Some ([], output)"
| "pop_operators ((t, jmp_pos) # stk) output =
     (case t of
        T_BinaryOperator bop \<Rightarrow>
          Option.bind (update_jmp_pos jmp_pos output) (\<lambda>output. pop_operators stk (output @ [X_BinaryOperator bop]))
      | T_UnaryOperator uop \<Rightarrow> pop_operators stk (output @ [X_UnaryOperator uop])
      | _ \<Rightarrow> Some ((t, jmp_pos) # stk, output))"

text \<open>At a closing token: all operators down to the matching opening token, which is removed.\<close>

fun is_open :: "bool \<Rightarrow> ('f, 'r) token \<Rightarrow> bool" where
  "is_open paren T_OpenParen = paren"
| "is_open paren T_OpenBracket = (\<not> paren)"
| "is_open paren _ = False"

fun pop_to_open :: "bool \<Rightarrow> ('f, 'r) op_stack \<Rightarrow> ('f, 'r) expression_item list
    \<Rightarrow> parse_error + ('f, 'r) op_stack \<times> ('f, 'r) expression_item list" where
  "pop_to_open paren [] output = Inl PE_MismatchedParentheses"
| "pop_to_open paren ((t, jmp_pos) # stk) output =
     (if is_open paren t then Inr (stk, output)
      else case t of
        T_BinaryOperator bop \<Rightarrow>
          (case update_jmp_pos jmp_pos output of
             Some output \<Rightarrow> pop_to_open paren stk (output @ [X_BinaryOperator bop]) | None \<Rightarrow> Inl PE_Panic)
      | T_UnaryOperator uop \<Rightarrow> pop_to_open paren stk (output @ [X_UnaryOperator uop])
      | _ \<Rightarrow> Inl PE_MismatchedParentheses)"

text \<open>Behind a closing token: the function that the parentheses or brackets belong to.\<close>

definition function_item :: "u32 \<Rightarrow> u32 \<Rightarrow> ('f, 'r) expression_item" where
  "function_item i num_args =
     (if i = ID_ARRAY_ACCESS then X_ArrayAccess else if i = ID_ARRAY_BUILD then X_ArrayBuild num_args else X_Function i num_args)"

definition close_call :: "('f, 'r) expression_parser \<Rightarrow> parse_error + ('f, 'r) expression_parser" where
  "close_call p =
     (case ep_operator_stack p of
        (T_Function name i num_args, _) # stk \<Rightarrow>
          (case ep_arg_count p of
             [] \<Rightarrow> Inl PE_Panic
           | got_args # args \<Rightarrow>
               if got_args \<noteq> sint num_args
               then Inl (if i \<noteq> - 1 then PE_FunctionArguments else PE_MissingArrayIndex)
               else Inr \<lparr>ep_output = ep_output p @ [function_item i num_args], ep_operator_stack = stk, ep_arg_count = args\<rparr>)
      | (T_Regex regex, _) # stk \<Rightarrow>
          (case ep_arg_count p of
             [] \<Rightarrow> Inl PE_Panic
           | got_args # args \<Rightarrow>
               if got_args \<noteq> 1 then Inl PE_MatchesArguments
               else Inr \<lparr>ep_output = ep_output p @ [X_Regex regex], ep_operator_stack = stk, ep_arg_count = args\<rparr>)
      | (T_Setting setting, _) # stk \<Rightarrow>
          (case ep_arg_count p of
             [] \<Rightarrow> Inl PE_Panic
           | got_args # args \<Rightarrow>
               if got_args \<noteq> 0 then Inl PE_ConfigGetArguments
               else Inr \<lparr>ep_output = ep_output p @ [X_Setting setting], ep_operator_stack = stk, ep_arg_count = args\<rparr>)
      | _ \<Rightarrow> Inr p)"

subsection \<open>One token\<close>

definition push_output :: "('f, 'r) expression_item \<Rightarrow> ('f, 'r) expression_parser \<Rightarrow> ('f, 'r) expression_parser" where
  "push_output item p = p\<lparr>ep_output := ep_output p @ [item]\<rparr>"

definition push_operator :: "('f, 'r) token \<Rightarrow> nat option \<Rightarrow> ('f, 'r) expression_parser \<Rightarrow> ('f, 'r) expression_parser" where
  "push_operator t jmp_pos p = p\<lparr>ep_operator_stack := (t, jmp_pos) # ep_operator_stack p\<rparr>"

definition push_count :: "int \<Rightarrow> ('f, 'r) expression_parser \<Rightarrow> ('f, 'r) expression_parser" where
  "push_count n p = p\<lparr>ep_arg_count := n # ep_arg_count p\<rparr>"

definition parse_close :: "bool \<Rightarrow> ('f, 'r) expression_parser \<Rightarrow> parse_error + ('f, 'r) expression_parser" where
  "parse_close paren p =
     (case pop_to_open paren (ep_operator_stack p) (ep_output p) of
        Inl e \<Rightarrow> Inl e
      | Inr (stk, output) \<Rightarrow> close_call (p\<lparr>ep_operator_stack := stk, ep_output := output\<rparr>))"

definition parse_binary :: "binary_operator \<Rightarrow> ('f, 'r) expression_parser \<Rightarrow> parse_error + ('f, 'r) expression_parser" where
  "parse_binary bop p =
     (let p = dec_arg_count p in
      case pop_tighter bop (ep_operator_stack p) (ep_output p) of
        None \<Rightarrow> Inl PE_Panic
      | Some (stk, output) \<Rightarrow>
          let p = p\<lparr>ep_operator_stack := stk, ep_output := output\<rparr>
          in Inr (case bop of
               BO_And \<Rightarrow> push_operator (T_BinaryOperator bop) (Some (length output)) (push_output (X_JmpIf False 0) p)
             | BO_Or \<Rightarrow> push_operator (T_BinaryOperator bop) (Some (length output)) (push_output (X_JmpIf True 0) p)
             | _ \<Rightarrow> push_operator (T_BinaryOperator bop) None p))"

definition parse_open_bracket :: "bool \<Rightarrow> ('f, 'r) expression_parser \<Rightarrow> ('f, 'r) expression_parser" where
  "parse_open_bracket last_is_var_or_fnc p =
     push_operator T_OpenBracket None
       (if last_is_var_or_fnc
        then push_operator (T_Function [97, 114, 114, 97, 121] ID_ARRAY_ACCESS 2) None (push_count 1 p)
        else push_operator (T_Function [97, 114, 114, 97, 121] ID_ARRAY_BUILD 0) None (push_count 0 (inc_arg_count p)))"

definition parse_call :: "('f, 'r) token \<Rightarrow> ('f, 'r) expression_parser \<Rightarrow> ('f, 'r) expression_parser" where
  "parse_call t p = push_operator t None (push_count 0 (inc_arg_count p))"

definition parse_comma :: "('f, 'r) expression_parser \<Rightarrow> parse_error + ('f, 'r) expression_parser" where
  "parse_comma p =
     (case pop_operators (ep_operator_stack p) (ep_output p) of
        None \<Rightarrow> Inl PE_Panic
      | Some (stk, output) \<Rightarrow> Inr (p\<lparr>ep_operator_stack := stk, ep_output := output\<rparr>))"

text \<open>The flag says whether the token ends a variable, a call or a bracketed expression.\<close>

fun parse_token :: "('f, 'r) token \<Rightarrow> bool \<Rightarrow> ('f, 'r) expression_parser \<Rightarrow> parse_error + ('f, 'r) expression_parser \<times> bool" where
  "parse_token (T_Variable v) last_var p = Inr (push_output (X_Variable v) (inc_arg_count p), True)"
| "parse_token (T_Constant c) last_var p = Inr (push_output (X_Constant c) (inc_arg_count p), False)"
| "parse_token (T_Global g) last_var p = Inr (push_output (X_Global g) (inc_arg_count p), False)"
| "parse_token (T_Capture c) last_var p = Inr (push_output (X_Capture c) (inc_arg_count p), False)"
| "parse_token (T_UnaryOperator uop) last_var p = Inr (push_operator (T_UnaryOperator uop) None p, False)"
| "parse_token T_OpenParen last_var p = Inr (push_operator T_OpenParen None p, False)"
| "parse_token T_CloseParen last_var p = map_sum (\<lambda>e. e) (\<lambda>p. (p, True)) (parse_close True p)"
| "parse_token T_CloseBracket last_var p = map_sum (\<lambda>e. e) (\<lambda>p. (p, True)) (parse_close False p)"
| "parse_token (T_BinaryOperator bop) last_var p = map_sum (\<lambda>e. e) (\<lambda>p. (p, False)) (parse_binary bop p)"
| "parse_token (T_Function name i num_args) last_var p = Inr (parse_call (T_Function name i num_args) p, False)"
| "parse_token (T_Regex regex) last_var p = Inr (parse_call (T_Regex regex) p, False)"
| "parse_token (T_Setting setting) last_var p = Inr (parse_call (T_Setting setting) p, False)"
| "parse_token T_OpenBracket last_var p = Inr (parse_open_bracket last_var p, False)"
| "parse_token T_Comma last_var p = map_sum (\<lambda>e. e) (\<lambda>p. (p, False)) (parse_comma p)"

subsection \<open>All tokens\<close>

fun parse_tokens :: "('f, 'r) token list \<Rightarrow> ('f, 'r) expression_parser \<times> bool \<Rightarrow> parse_error + ('f, 'r) expression_parser \<times> bool" where
  "parse_tokens [] s = Inr s"
| "parse_tokens (t # ts) (p, last_var) = (case parse_token t last_var p of Inl e \<Rightarrow> Inl e | Inr s \<Rightarrow> parse_tokens ts s)"

fun pop_rest :: "('f, 'r) op_stack \<Rightarrow> ('f, 'r) expression_item list \<Rightarrow> parse_error + ('f, 'r) expression_item list" where
  "pop_rest [] output = Inr output"
| "pop_rest ((t, jmp_pos) # stk) output =
     (case t of
        T_BinaryOperator bop \<Rightarrow>
          (case update_jmp_pos jmp_pos output of
             Some output \<Rightarrow> pop_rest stk (output @ [X_BinaryOperator bop]) | None \<Rightarrow> Inl PE_Panic)
      | T_UnaryOperator uop \<Rightarrow> pop_rest stk (output @ [X_UnaryOperator uop])
      | _ \<Rightarrow> Inl PE_InvalidToken)"

text \<open>
  The tokenizer is given by the tokens it yields and by the error, if any, with which it stops.
\<close>

definition parse :: "('f, 'r) token list \<times> bytes option \<Rightarrow> parse_error + ('f, 'r) expression_item list" where
  "parse tokens =
     (case parse_tokens (fst tokens) (ep_new, False) of
        Inl e \<Rightarrow> Inl e
      | Inr (p, _) \<Rightarrow>
          (case snd tokens of
             Some e \<Rightarrow> Inl (PE_Tokenizer e)
           | None \<Rightarrow> pop_rest (ep_operator_stack p) (ep_output p)))"

end
