(* ===== verification/ExprCompile.thy ===== *)
theory ExprCompile
  imports ExprParser
begin

text \<open>
  What the parser does with the text of an expression: the syntax trees of expressions with the tokens
  of their text, and the code that the parser writes for them.
\<close>

section \<open>Expressions\<close>

datatype ('f, 'r) expr =
    E_Variable u32
  | E_Constant "'f const_value"
  | E_Global bytes
  | E_Capture u32
  | E_Setting setting
  | E_Regex 'r "('f, 'r) expr"
  | E_Call bytes u32 "('f, 'r) expr list"
  | E_Paren "('f, 'r) expr"
  | E_Index "('f, 'r) expr" "('f, 'r) expr"
  | E_Array "('f, 'r) expr list"
  | E_Unary unary_operator "('f, 'r) expr"
  | E_Binary binary_operator "('f, 'r) expr" "('f, 'r) expr"

fun separated :: "'a list list \<Rightarrow> 'a \<Rightarrow> 'a list" where
  "separated [] s = []"
| "separated [xs] s = xs"
| "separated (xs # ys # zs) s = xs @ s # separated (ys # zs) s"

fun tokens :: "('f, 'r) expr \<Rightarrow> ('f, 'r) token list" where
  "tokens (E_Variable v) = [T_Variable v]"
| "tokens (E_Constant c) = [T_Constant c]"
| "tokens (E_Global g) = [T_Global g]"
| "tokens (E_Capture c) = [T_Capture c]"
| "tokens (E_Setting s) = [T_Setting s, T_OpenParen, T_CloseParen]"
| "tokens (E_Regex r e) = T_Regex r # T_OpenParen # tokens e @ [T_CloseParen]"
| "tokens (E_Call name i args) =
     T_Function name i (of_nat (length args)) # T_OpenParen # separated (map tokens args) T_Comma @ [T_CloseParen]"
| "tokens (E_Paren e) = T_OpenParen # tokens e @ [T_CloseParen]"
| "tokens (E_Index b i) = tokens b @ T_OpenBracket # tokens i @ [T_CloseBracket]"
| "tokens (E_Array es) = T_OpenBracket # separated (map tokens es) T_Comma @ [T_CloseBracket]"
| "tokens (E_Unary u e) = T_UnaryOperator u # tokens e"
| "tokens (E_Binary op l r) = tokens l @ T_BinaryOperator op # tokens r"

fun jump :: "binary_operator \<Rightarrow> nat \<Rightarrow> ('f, 'r) expression_item list" where
  "jump BO_And n = [X_JmpIf False (of_nat n)]"
| "jump BO_Or n = [X_JmpIf True (of_nat n)]"
| "jump _ n = []"

fun code :: "('f, 'r) expr \<Rightarrow> ('f, 'r) expression_item list" where
  "code (E_Variable v) = [X_Variable v]"
| "code (E_Constant c) = [X_Constant c]"
| "code (E_Global g) = [X_Global g]"
| "code (E_Capture c) = [X_Capture c]"
| "code (E_Setting s) = [X_Setting s]"
| "code (E_Regex r e) = code e @ [X_Regex r]"
| "code (E_Call name i args) = concat (map code args) @ [X_Function i (of_nat (length args))]"
| "code (E_Paren e) = code e"
| "code (E_Index b i) = code b @ code i @ [X_ArrayAccess]"
| "code (E_Array es) = concat (map code es) @ [X_ArrayBuild (of_nat (length es))]"
| "code (E_Unary u e) = code e @ [X_UnaryOperator u]"
| "code (E_Binary op l r) = code l @ jump op (Suc (length (code r))) @ code r @ [X_BinaryOperator op]"

text \<open>
  The text of a tree is read back as the tree when operands that bind less tightly stand in
  parentheses, only variables, calls and bracketed expressions are indexed, and the elements of an
  array do not start with an operator or a parenthesis.
\<close>

fun level :: "('f, 'r) expr \<Rightarrow> int" where
  "level (E_Binary op l r) = precedence op"
| "level (E_Unary u e) = 8"
| "level e = 9"

fun counted :: "('f, 'r) expr \<Rightarrow> bool" where
  "counted (E_Unary u e) = False"
| "counted (E_Paren e) = False"
| "counted (E_Index b i) = counted b"
| "counted (E_Binary op l r) = counted l"
| "counted e = True"

fun ends :: "('f, 'r) expr \<Rightarrow> bool" where
  "ends (E_Constant c) = False"
| "ends (E_Global g) = False"
| "ends (E_Capture c) = False"
| "ends (E_Unary u e) = ends e"
| "ends (E_Binary op l r) = ends r"
| "ends e = True"

fun expr_ok :: "('f, 'r) expr \<Rightarrow> bool" where
  "expr_ok (E_Regex r e) = expr_ok e"
| "expr_ok (E_Call name i args) = (list_all expr_ok args \<and> length args < 2 ^ 31 \<and> i \<noteq> ID_ARRAY_ACCESS \<and> i \<noteq> ID_ARRAY_BUILD)"
| "expr_ok (E_Paren e) = expr_ok e"
| "expr_ok (E_Index b i) = (expr_ok b \<and> expr_ok i \<and> level b = 9 \<and> ends b)"
| "expr_ok (E_Array es) = (list_all expr_ok es \<and> list_all counted es \<and> length es < 2 ^ 31)"
| "expr_ok (E_Unary u e) = (expr_ok e \<and> 8 \<le> level e)"
| "expr_ok (E_Binary op l r) = (expr_ok l \<and> expr_ok r \<and> precedence op \<le> level l \<and> precedence op < level r)"
| "expr_ok _ = True"

section \<open>Operators that wait on the stack\<close>

fun flush :: "('f, 'r) op_stack \<Rightarrow> ('f, 'r) expression_item list \<Rightarrow> ('f, 'r) expression_item list option" where
  "flush [] out = Some out"
| "flush ((T_BinaryOperator op, j) # stk) out = Option.bind (update_jmp_pos j out) (\<lambda>out. flush stk (out @ [X_BinaryOperator op]))"
| "flush ((T_UnaryOperator u, j) # stk) out = flush stk (out @ [X_UnaryOperator u])"
| "flush _ out = None"

fun waiting :: "int \<Rightarrow> ('f, 'r) token \<times> nat option \<Rightarrow> bool" where
  "waiting lv (T_BinaryOperator op, j) = (lv \<le> precedence op)"
| "waiting lv (T_UnaryOperator u, j) = True"
| "waiting lv _ = False"

lemma flush_append: "flush (p @ q) out = Option.bind (flush p out) (flush q)"
  by (induction p out rule: flush.induct) (simp_all add: bind_assoc cong: Option.bind_cong)

lemma waiting_mono: "waiting lv e \<Longrightarrow> lv' \<le> lv \<Longrightarrow> waiting lv' e"
  by (induction lv e rule: waiting.induct) simp_all

text \<open>The top of a stack on which an expression is read.\<close>

fun plain :: "('f, 'r) op_stack \<Rightarrow> bool" where
  "plain ((T_Function name i n, j) # stk) = False"
| "plain ((T_Regex r, j) # stk) = False"
| "plain ((T_Setting s, j) # stk) = False"
| "plain _ = True"

fun fits :: "int \<Rightarrow> ('f, 'r) op_stack \<Rightarrow> bool" where
  "fits lv ((T_BinaryOperator op, j) # stk) = (precedence op < lv)"
| "fits lv ((T_UnaryOperator u, j) # stk) = (8 \<le> lv)"
| "fits lv _ = True"

lemma pop_tighter_waiting:
  assumes "list_all (waiting (precedence op)) pend" "flush pend out = Some out'" "fits (precedence op) stk"
  shows "pop_tighter op (pend @ stk) out = Some (stk, out')"
  using assms(1,2)
proof (induction pend out rule: flush.induct)
  case (1 out)
  have "\<not> 8 \<le> precedence op" by (cases op) simp_all
  with 1 assms(3) show ?case by (cases "(precedence op, stk)" rule: fits.cases) auto
qed (auto simp: Option.bind_eq_Some_conv)

lemma pop_operators_waiting:
  assumes "list_all (waiting lv) pend" "flush pend out = Some out'" "t = T_OpenParen \<or> t = T_OpenBracket"
  shows "pop_operators (pend @ (t, j) # stk) out = Some ((t, j) # stk, out')"
  using assms(1,2)
proof (induction pend out rule: flush.induct)
  case (1 out)
  with assms(3) show ?case by auto
qed (auto simp: Option.bind_eq_Some_conv)

lemma pop_to_open_waiting:
  assumes "list_all (waiting lv) pend" "flush pend out = Some out'" "is_open paren t"
  shows "pop_to_open paren (pend @ (t, j) # stk) out = Inr (stk, out')"
  using assms(1,2)
proof (induction pend out rule: flush.induct)
  case (1 out)
  with assms(3) show ?case by simp
qed (auto simp: Option.bind_eq_Some_conv)

lemma pop_rest_waiting:
  assumes "list_all (waiting lv) pend" "flush pend out = Some out'"
  shows "pop_rest pend out = Inr out'"
  using assms by (induction pend out rule: flush.induct) (auto simp: Option.bind_eq_Some_conv)

section \<open>The parser writes the code of an expression\<close>

fun counted_up :: "int list \<Rightarrow> int list" where
  "counted_up [] = []"
| "counted_up (x # xs) = (x + 1) # xs"

fun room :: "int list \<Rightarrow> bool" where
  "room [] = True"
| "room (x # xs) = (0 \<le> x \<and> x + 1 < 2 ^ 31)"

definition bumped :: "('f, 'r) expr \<Rightarrow> int list \<Rightarrow> ('f, 'r) op_stack \<Rightarrow> ('f, 'r) op_stack" where
  "bumped e args stk = (if counted e \<and> args \<noteq> [] then count_array_item stk else stk)"

text \<open>
  Reading the text of an expression appends its code, once the operators that it leaves on the stack
  are written out, and counts as one argument.
\<close>

definition parses :: "('f, 'r) expr \<Rightarrow> bool" where
  "parses e \<longleftrightarrow>
     (\<forall>out stk args ts. plain stk \<longrightarrow> fits (level e) stk \<longrightarrow> room args \<longrightarrow>
        (\<exists>out' pend.
           parse_tokens (tokens e @ ts) (\<lparr>ep_output = out, ep_operator_stack = stk, ep_arg_count = args\<rparr>, False) =
             parse_tokens ts (\<lparr>ep_output = out', ep_operator_stack = pend @ bumped e args stk, ep_arg_count = counted_up args\<rparr>, ends e)
           \<and> flush pend out' = Some (out @ code e) \<and> list_all (waiting (level e)) pend \<and> (level e = 9 \<longrightarrow> pend = [])))"

lemma parsesI:
  assumes "\<And>out stk args ts. plain stk \<Longrightarrow> fits (level e) stk \<Longrightarrow> room args \<Longrightarrow>
      \<exists>out' pend.
        parse_tokens (tokens e @ ts) (\<lparr>ep_output = out, ep_operator_stack = stk, ep_arg_count = args\<rparr>, False) =
          parse_tokens ts (\<lparr>ep_output = out', ep_operator_stack = pend @ bumped e args stk, ep_arg_count = counted_up args\<rparr>, ends e)
        \<and> flush pend out' = Some (out @ code e) \<and> list_all (waiting (level e)) pend \<and> (level e = 9 \<longrightarrow> pend = [])"
  shows "parses e"
  using assms unfolding parses_def by blast

lemma parsesE:
  assumes "parses e" "plain stk" "fits (level e) stk" "room args"
  obtains out' pend where
    "parse_tokens (tokens e @ ts) (\<lparr>ep_output = out, ep_operator_stack = stk, ep_arg_count = args\<rparr>, False) =
       parse_tokens ts (\<lparr>ep_output = out', ep_operator_stack = pend @ bumped e args stk, ep_arg_count = counted_up args\<rparr>, ends e)"
    "flush pend out' = Some (out @ code e)" "list_all (waiting (level e)) pend" "level e = 9 \<longrightarrow> pend = []"
  using assms unfolding parses_def by blast

lemma inc_arg_count_eq [simp]:
  "room args \<Longrightarrow> inc_arg_count \<lparr>ep_output = out, ep_operator_stack = stk, ep_arg_count = args\<rparr> =
     \<lparr>ep_output = out, ep_operator_stack = (if args = [] then stk else count_array_item stk), ep_arg_count = counted_up args\<rparr>"
  by (cases args) (simp_all add: inc_arg_count_def i32_saturate_def)

lemma dec_arg_count_eq [simp]:
  "room args \<Longrightarrow> dec_arg_count \<lparr>ep_output = out, ep_operator_stack = stk, ep_arg_count = counted_up args\<rparr> =
     \<lparr>ep_output = out, ep_operator_stack = stk, ep_arg_count = args\<rparr>"
  by (cases args) (simp_all add: dec_arg_count_def i32_saturate_def)

lemma plain_cases:
  assumes "plain stk"
  obtains (Nil) "stk = []"
    | (Cons) t j stk' where "stk = (t, j) # stk'" "count_item (t, j) = (t, j)"
  using assms by (cases stk rule: plain.cases) auto

lemma plain_count: "plain stk \<Longrightarrow> plain (count_array_item stk)"
  by (cases stk rule: plain.cases; cases "tl stk") auto

lemma fits_count: "fits lv (count_array_item stk) = fits lv stk"
proof (cases stk rule: count_array_item.cases)
  case (2 e)
  then show ?thesis by (cases e rule: count_item.cases) auto
next
  case (3 e e' stk')
  then show ?thesis by (cases "fst e"; cases e) auto
qed simp

lemma plain_bumped [simp]: "plain stk \<Longrightarrow> plain (bumped e args stk)"
  by (simp add: bumped_def plain_count)

lemma fits_bumped [simp]: "fits lv (bumped e args stk) = fits lv stk"
  by (simp add: bumped_def fits_count)

lemma count_above_plain: "plain stk \<Longrightarrow> count_item (t, j) = (t, j) \<Longrightarrow> count_array_item ((t, j) # stk) = (t, j) # stk"
  by (erule plain_cases) auto

lemma bumped_above_plain: "plain stk \<Longrightarrow> count_item (t, j) = (t, j) \<Longrightarrow> bumped e args ((t, j) # stk) = (t, j) # stk"
  by (simp add: bumped_def count_above_plain)

lemma fits_mono: "fits lv stk \<Longrightarrow> lv \<le> lv' \<Longrightarrow> fits lv' stk"
  by (cases "(lv, stk)" rule: fits.cases) auto

lemma room_counted_up [simp]: "counted_up args = [] \<longleftrightarrow> args = []"
  by (cases args) auto

lemma parse_token_step: "parse_token t l p = Inr s \<Longrightarrow> parse_tokens (t # ts) (p, l) = parse_tokens ts s"
  by simp

lemma close_call_plain: "plain stk \<Longrightarrow>
    close_call \<lparr>ep_output = out, ep_operator_stack = stk, ep_arg_count = args\<rparr> =
      Inr \<lparr>ep_output = out, ep_operator_stack = stk, ep_arg_count = args\<rparr>"
  by (cases stk rule: plain.cases) (auto simp: close_call_def)

lemma parse_close_waiting:
  assumes "list_all (waiting lv) pend" "flush pend out = Some out'" "is_open paren t"
  shows "parse_close paren \<lparr>ep_output = out, ep_operator_stack = pend @ (t, j) # stk, ep_arg_count = args\<rparr> =
    close_call \<lparr>ep_output = out', ep_operator_stack = stk, ep_arg_count = args\<rparr>"
  using pop_to_open_waiting [OF assms] by (simp add: parse_close_def)

lemma parse_comma_waiting:
  assumes "list_all (waiting lv) pend" "flush pend out = Some out'" "t = T_OpenParen \<or> t = T_OpenBracket"
  shows "parse_comma \<lparr>ep_output = out, ep_operator_stack = pend @ (t, j) # stk, ep_arg_count = args\<rparr> =
    Inr \<lparr>ep_output = out', ep_operator_stack = (t, j) # stk, ep_arg_count = args\<rparr>"
  using pop_operators_waiting [OF assms] by (simp add: parse_comma_def)

subsection \<open>Operators and parentheses\<close>

lemma parses_atoms [simp]:
  "parses (E_Variable v)" "parses (E_Constant c)" "parses (E_Global g)" "parses (E_Capture n)"
  by (rule parsesI; simp add: push_output_def bumped_def)+

lemma parses_unary:
  assumes "parses e" "8 \<le> level e"
  shows "parses (E_Unary u e)"
proof (rule parsesI)
  fix out and stk :: "('a, 'b) op_stack" and args ts
  assume *: "plain stk" "fits (level (E_Unary u e)) stk" "room args"
  obtain out' pend where e:
    "parse_tokens (tokens e @ ts) (\<lparr>ep_output = out, ep_operator_stack = (T_UnaryOperator u, None) # stk, ep_arg_count = args\<rparr>, False) =
       parse_tokens ts (\<lparr>ep_output = out', ep_operator_stack = pend @ bumped e args ((T_UnaryOperator u, None) # stk),
         ep_arg_count = counted_up args\<rparr>, ends e)"
    "flush pend out' = Some (out @ code e)" "list_all (waiting (level e)) pend"
    by (rule parsesE [OF assms(1), of "(T_UnaryOperator u, None) # stk"]) (use * assms(2) in auto)
  have "list_all (waiting 8) pend"
    using e(3) assms(2) by (auto simp: list_all_iff intro: waiting_mono)
  with e * show "\<exists>out' pend.
      parse_tokens (tokens (E_Unary u e) @ ts) (\<lparr>ep_output = out, ep_operator_stack = stk, ep_arg_count = args\<rparr>, False) =
        parse_tokens ts (\<lparr>ep_output = out', ep_operator_stack = pend @ bumped (E_Unary u e) args stk, ep_arg_count = counted_up args\<rparr>,
          ends (E_Unary u e))
      \<and> flush pend out' = Some (out @ code (E_Unary u e)) \<and> list_all (waiting (level (E_Unary u e))) pend
      \<and> (level (E_Unary u e) = 9 \<longrightarrow> pend = [])"
    by (intro exI [of _ out'] exI [of _ "pend @ [(T_UnaryOperator u, None)]"])
      (simp add: push_operator_def bumped_above_plain flush_append, simp add: bumped_def)
qed

fun jump_pos :: "binary_operator \<Rightarrow> nat \<Rightarrow> nat option" where
  "jump_pos BO_And n = Some n"
| "jump_pos BO_Or n = Some n"
| "jump_pos _ n = None"

lemma update_jmp_pos_jump:
  "update_jmp_pos (jump_pos op (length out)) (out @ jump op n @ c) = Some (out @ jump op (Suc (length c)) @ c)"
  by (cases op) (simp_all add: update_jmp_pos_def)

lemma parse_binary_waiting:
  assumes "list_all (waiting (precedence op)) pend" "flush pend out = Some out'" "fits (precedence op) stk" "room args"
  shows "parse_binary op \<lparr>ep_output = out, ep_operator_stack = pend @ stk, ep_arg_count = counted_up args\<rparr> =
    Inr \<lparr>ep_output = out' @ jump op 0, ep_operator_stack = (T_BinaryOperator op, jump_pos op (length out')) # stk, ep_arg_count = args\<rparr>"
  using pop_tighter_waiting [OF assms(1-3)] assms(4)
  by (cases op) (simp_all add: parse_binary_def push_operator_def push_output_def)

lemma parses_binary:
  assumes "parses l" "parses r" "precedence op \<le> level l" "precedence op < level r"
  shows "parses (E_Binary op l r)"
proof (rule parsesI)
  fix out and stk :: "('a, 'b) op_stack" and args ts
  assume *: "plain stk" "fits (level (E_Binary op l r)) stk" "room args"
  let ?stk = "(T_BinaryOperator op, jump_pos op (length (out @ code l))) # bumped l args stk"
  obtain out1 pend1 where l:
    "parse_tokens (tokens l @ T_BinaryOperator op # tokens r @ ts)
       (\<lparr>ep_output = out, ep_operator_stack = stk, ep_arg_count = args\<rparr>, False) =
     parse_tokens (T_BinaryOperator op # tokens r @ ts)
       (\<lparr>ep_output = out1, ep_operator_stack = pend1 @ bumped l args stk, ep_arg_count = counted_up args\<rparr>, ends l)"
    "flush pend1 out1 = Some (out @ code l)" "list_all (waiting (level l)) pend1"
    by (rule parsesE [OF assms(1) *(1) fits_mono [OF *(2)] *(3), where out = out and ts = "T_BinaryOperator op # tokens r @ ts"])
      (use assms(3) in simp, rule that)
  have w: "list_all (waiting (precedence op)) pend1"
    using l(3) assms(3) by (auto simp: list_all_iff intro: waiting_mono)
  obtain out2 pend2 where r:
    "parse_tokens (tokens r @ ts) (\<lparr>ep_output = out @ code l @ jump op 0, ep_operator_stack = ?stk, ep_arg_count = args\<rparr>, False) =
       parse_tokens ts (\<lparr>ep_output = out2, ep_operator_stack = pend2 @ bumped r args ?stk, ep_arg_count = counted_up args\<rparr>, ends r)"
    "flush pend2 out2 = Some ((out @ code l @ jump op 0) @ code r)" "list_all (waiting (level r)) pend2"
    by (rule parsesE [OF assms(2) _ _ *(3), where stk = ?stk and out = "out @ code l @ jump op 0" and ts = ts])
      (use * assms(4) in simp, use assms(4) in simp, rule that)
  have "list_all (waiting (precedence op)) pend2"
    using r(3) assms(4) by (auto simp: list_all_iff intro: waiting_mono)
  moreover have "parse_tokens (tokens (E_Binary op l r) @ ts) (\<lparr>ep_output = out, ep_operator_stack = stk, ep_arg_count = args\<rparr>, False) =
      parse_tokens ts (\<lparr>ep_output = out2, ep_operator_stack = pend2 @ ?stk, ep_arg_count = counted_up args\<rparr>, ends r)"
    using l(1) r(1) parse_binary_waiting [OF w l(2), of "bumped l args stk" args] * by (simp add: bumped_above_plain)
  moreover have "flush (pend2 @ [(T_BinaryOperator op, jump_pos op (length (out @ code l)))]) out2 = Some (out @ code (E_Binary op l r))"
    using r(2) update_jmp_pos_jump [of op "out @ code l" 0 "code r"] by (simp add: flush_append)
  moreover have "bumped (E_Binary op l r) args stk = bumped l args stk"
    by (simp add: bumped_def)
  moreover have "precedence op \<noteq> 9" by (cases op) simp_all
  ultimately show "\<exists>out' pend.
      parse_tokens (tokens (E_Binary op l r) @ ts) (\<lparr>ep_output = out, ep_operator_stack = stk, ep_arg_count = args\<rparr>, False) =
        parse_tokens ts (\<lparr>ep_output = out', ep_operator_stack = pend @ bumped (E_Binary op l r) args stk, ep_arg_count = counted_up args\<rparr>,
          ends (E_Binary op l r))
      \<and> flush pend out' = Some (out @ code (E_Binary op l r)) \<and> list_all (waiting (level (E_Binary op l r))) pend
      \<and> (level (E_Binary op l r) = 9 \<longrightarrow> pend = [])"
    by (intro exI [of _ out2] exI [of _ "pend2 @ [(T_BinaryOperator op, jump_pos op (length (out @ code l)))]"])
      (simp del: tokens.simps code.simps)
qed

text \<open>
  An expression between an opening and a closing token, which hands its value to what stands below
  the opening token.
\<close>

lemma parse_enclosed:
  assumes "parses e" "is_open paren t" "t = T_OpenParen \<or> t = T_OpenBracket" "room args"
    and "bumped e args ((t, None) # stk) = (t, None) # stk"
    and "c = (if paren then T_CloseParen else T_CloseBracket)"
    and "close_call \<lparr>ep_output = out @ code e, ep_operator_stack = stk, ep_arg_count = counted_up args\<rparr> = Inr p"
  shows "parse_tokens (tokens e @ c # ts) (\<lparr>ep_output = out, ep_operator_stack = (t, None) # stk, ep_arg_count = args\<rparr>, False) =
    parse_tokens ts (p, True)"
proof -
  obtain out' pend where e:
    "parse_tokens (tokens e @ c # ts) (\<lparr>ep_output = out, ep_operator_stack = (t, None) # stk, ep_arg_count = args\<rparr>, False) =
       parse_tokens (c # ts) (\<lparr>ep_output = out', ep_operator_stack = pend @ bumped e args ((t, None) # stk),
         ep_arg_count = counted_up args\<rparr>, ends e)"
    "flush pend out' = Some (out @ code e)" "list_all (waiting (level e)) pend"
    by (rule parsesE [OF assms(1) _ _ assms(4), where stk = "(t, None) # stk" and out = out and ts = "c # ts"])
      (use assms(3) in fastforce, use assms(3) in fastforce, rule that)
  show ?thesis
    using e(1) assms(5-7) parse_close_waiting [OF e(3,2) assms(2), of None stk "counted_up args"]
    by (cases paren) simp_all
qed

lemma parses_primaryI:
  assumes "level e = 9"
    and "\<And>out stk args ts. plain stk \<Longrightarrow> room args \<Longrightarrow>
      parse_tokens (tokens e @ ts) (\<lparr>ep_output = out, ep_operator_stack = stk, ep_arg_count = args\<rparr>, False) =
        parse_tokens ts (\<lparr>ep_output = out @ code e, ep_operator_stack = bumped e args stk, ep_arg_count = counted_up args\<rparr>, ends e)"
  shows "parses e"
proof (rule parsesI)
  fix out and stk :: "('a, 'b) op_stack" and args ts
  assume "plain stk" "room args"
  from assms(2) [OF this, of ts out] show "\<exists>out' pend.
      parse_tokens (tokens e @ ts) (\<lparr>ep_output = out, ep_operator_stack = stk, ep_arg_count = args\<rparr>, False) =
        parse_tokens ts (\<lparr>ep_output = out', ep_operator_stack = pend @ bumped e args stk, ep_arg_count = counted_up args\<rparr>, ends e)
      \<and> flush pend out' = Some (out @ code e) \<and> list_all (waiting (level e)) pend \<and> (level e = 9 \<longrightarrow> pend = [])"
    by (intro exI [of _ "out @ code e"] exI [of _ "[]"]) simp
qed

lemma parses_paren:
  assumes "parses e"
  shows "parses (E_Paren e)"
proof (rule parses_primaryI)
  fix out and stk :: "('a, 'b) op_stack" and args ts
  assume *: "plain stk" "room args"
  show "parse_tokens (tokens (E_Paren e) @ ts) (\<lparr>ep_output = out, ep_operator_stack = stk, ep_arg_count = args\<rparr>, False) =
      parse_tokens ts (\<lparr>ep_output = out @ code (E_Paren e), ep_operator_stack = bumped (E_Paren e) args stk, ep_arg_count = counted_up args\<rparr>,
        ends (E_Paren e))"
    using parse_enclosed [OF assms, of True T_OpenParen args stk T_CloseParen out, OF _ _ _ _ _ close_call_plain] *
    by (simp add: push_operator_def bumped_above_plain, simp add: bumped_def)
qed simp

lemma parses_regex:
  assumes "parses e"
  shows "parses (E_Regex r e)"
proof (rule parses_primaryI)
  fix out and stk :: "('a, 'b) op_stack" and args ts
  assume *: "plain stk" "room args"
  let ?stk = "if args = [] then stk else count_array_item stk"
  have "parse_tokens (tokens e @ T_CloseParen # ts)
      (\<lparr>ep_output = out, ep_operator_stack = (T_OpenParen, None) # (T_Regex r, None) # ?stk, ep_arg_count = 0 # counted_up args\<rparr>, False) =
    parse_tokens ts (\<lparr>ep_output = out @ code e @ [X_Regex r], ep_operator_stack = ?stk, ep_arg_count = counted_up args\<rparr>, True)"
    by (rule parse_enclosed [OF assms, of True]) (simp_all add: bumped_def close_call_def)
  with * show "parse_tokens (tokens (E_Regex r e) @ ts) (\<lparr>ep_output = out, ep_operator_stack = stk, ep_arg_count = args\<rparr>, False) =
      parse_tokens ts (\<lparr>ep_output = out @ code (E_Regex r e), ep_operator_stack = bumped (E_Regex r e) args stk, ep_arg_count = counted_up args\<rparr>,
        ends (E_Regex r e))"
    by (simp add: parse_call_def push_operator_def push_count_def bumped_def)
qed simp

lemma parses_setting: "parses (E_Setting s)"
  by (rule parses_primaryI)
    (simp_all add: parse_call_def push_operator_def push_count_def bumped_def parse_close_def close_call_def)

subsection \<open>Lists of expressions\<close>

text \<open>The stack below the opening token may count the elements.\<close>

lemma precedence_nonneg: "0 \<le> precedence op"
  by (cases op) simp_all

lemma precedence_lt: "precedence op < 9"
  by (cases op) simp_all

lemma level_nonneg: "0 \<le> level e"
  by (cases e rule: level.cases) (simp_all add: precedence_nonneg)

lemma parse_element:
  assumes "parses e" "t = T_OpenParen \<or> t = T_OpenBracket" "int k + 1 < 2 ^ 31"
    and "bumped e (int k # args) ((t, None) # S k) = (t, None) # S (Suc k)"
  shows "\<exists>out' pend last_var.
    parse_tokens (tokens e @ ts) (\<lparr>ep_output = out, ep_operator_stack = (t, None) # S k, ep_arg_count = int k # args\<rparr>, False) =
      parse_tokens ts (\<lparr>ep_output = out', ep_operator_stack = pend @ (t, None) # S (Suc k), ep_arg_count = int (Suc k) # args\<rparr>, last_var)
    \<and> flush pend out' = Some (out @ code e) \<and> list_all (waiting 0) pend"
proof -
  have ctx: "plain ((t, None) # S k)" "fits (level e) ((t, None) # S k)" "room (int k # args)"
    using assms(2,3) by auto
  obtain out' pend where e:
    "parse_tokens (tokens e @ ts) (\<lparr>ep_output = out, ep_operator_stack = (t, None) # S k, ep_arg_count = int k # args\<rparr>, False) =
       parse_tokens ts (\<lparr>ep_output = out', ep_operator_stack = pend @ (t, None) # S (Suc k), ep_arg_count = int (Suc k) # args\<rparr>, ends e)"
    "flush pend out' = Some (out @ code e)" "list_all (waiting (level e)) pend"
    by (rule parsesE [OF assms(1) ctx, where out = out and ts = ts], rule that) (simp_all add: assms(4) add.commute)
  then have "list_all (waiting 0) pend"
    by (auto simp: list_all_iff intro: waiting_mono [OF _ level_nonneg])
  with e show ?thesis by blast
qed

lemma parse_elements:
  assumes "\<forall>e\<in>set es. parses e" "t = T_OpenParen \<or> t = T_OpenBracket"
    and "\<forall>j<length es. bumped (es ! j) (int (k + j) # args) ((t, None) # S (k + j)) = (t, None) # S (Suc (k + j))"
    and "k + length es < 2 ^ 31"
  shows "\<exists>out' pend last_var.
    parse_tokens (separated (map tokens es) T_Comma @ ts) (\<lparr>ep_output = out, ep_operator_stack = (t, None) # S k, ep_arg_count = int k # args\<rparr>, False) =
      parse_tokens ts (\<lparr>ep_output = out', ep_operator_stack = pend @ (t, None) # S (k + length es), ep_arg_count = int (k + length es) # args\<rparr>, last_var)
    \<and> flush pend out' = Some (out @ concat (map code es)) \<and> list_all (waiting 0) pend"
  using assms(1,3,4)
proof (induction es arbitrary: out k rule: induct_list012)
  case 1
  show ?case by (intro exI [of _ out] exI [of _ "[]"] exI [of _ False]) simp
next
  case (2 e)
  then show ?case
    using parse_element [of e t k args S ts out] assms(2) by simp
next
  case (3 e e' es)
  let ?rest = "separated (map tokens (e' # es)) T_Comma @ ts"
  obtain out1 pend1 l1 where e:
    "parse_tokens (tokens e @ T_Comma # ?rest) (\<lparr>ep_output = out, ep_operator_stack = (t, None) # S k, ep_arg_count = int k # args\<rparr>, False) =
       parse_tokens (T_Comma # ?rest) (\<lparr>ep_output = out1, ep_operator_stack = pend1 @ (t, None) # S (Suc k), ep_arg_count = int (Suc k) # args\<rparr>, l1)"
    "flush pend1 out1 = Some (out @ code e)" "list_all (waiting 0) pend1"
    using parse_element [of e t k args S "T_Comma # ?rest" out] assms(2) 3(3,5) spec [OF 3(4), of 0] by fastforce
  have "parse_tokens (tokens e @ T_Comma # ?rest) (\<lparr>ep_output = out, ep_operator_stack = (t, None) # S k, ep_arg_count = int k # args\<rparr>, False) =
      parse_tokens ?rest (\<lparr>ep_output = out @ code e, ep_operator_stack = (t, None) # S (Suc k), ep_arg_count = int (Suc k) # args\<rparr>, False)"
    using e(1) parse_comma_waiting [OF e(3,2) assms(2)] by simp
  moreover have "\<forall>j<length (e' # es). bumped ((e' # es) ! j) (int (Suc k + j) # args) ((t, None) # S (Suc k + j)) = (t, None) # S (Suc (Suc k + j))"
    using 3(4) by (metis Suc_less_eq add_Suc_shift length_Cons nth_Cons_Suc)
  ultimately show ?case using 3(2) [of "Suc k" "out @ code e"] 3(3,5) by simp
qed

lemma parse_enclosed_elements:
  assumes "\<forall>e\<in>set es. parses e" "t = T_OpenParen \<or> t = T_OpenBracket" "is_open paren t"
    and "\<forall>j<length es. bumped (es ! j) (int j # args) ((t, None) # S j) = (t, None) # S (Suc j)"
    and "length es < 2 ^ 31" "c = (if paren then T_CloseParen else T_CloseBracket)"
  shows "parse_tokens (separated (map tokens es) T_Comma @ c # ts)
      (\<lparr>ep_output = out, ep_operator_stack = (t, None) # S 0, ep_arg_count = 0 # args\<rparr>, False) =
    (case close_call \<lparr>ep_output = out @ concat (map code es), ep_operator_stack = S (length es), ep_arg_count = int (length es) # args\<rparr> of
       Inl e \<Rightarrow> Inl e | Inr p \<Rightarrow> parse_tokens ts (p, True))"
proof -
  obtain out' pend l where es:
    "parse_tokens (separated (map tokens es) T_Comma @ c # ts) (\<lparr>ep_output = out, ep_operator_stack = (t, None) # S 0, ep_arg_count = 0 # args\<rparr>, False) =
       parse_tokens (c # ts) (\<lparr>ep_output = out', ep_operator_stack = pend @ (t, None) # S (length es), ep_arg_count = int (length es) # args\<rparr>, l)"
    "flush pend out' = Some (out @ concat (map code es))" "list_all (waiting 0) pend"
    using parse_elements [where es = es and t = t and k = 0 and args = args and S = S and ts = "c # ts" and out = out] assms(1,2,4,5) by auto
  show ?thesis
    using es(1) assms(6) parse_close_waiting [OF es(3,2) assms(3), of None "S (length es)"]
    by (cases paren) (simp_all split: sum.splits)
qed

lemma sint_of_nat: "n < 2 ^ 31 \<Longrightarrow> sint (of_nat n :: u32) = int n"
  by (simp add: signed_of_nat signed_take_bit_int_eq_self)

lemma parses_call:
  assumes "\<forall>e\<in>set es. parses e" "length es < 2 ^ 31" "i \<noteq> ID_ARRAY_ACCESS" "i \<noteq> ID_ARRAY_BUILD"
  shows "parses (E_Call name i es)"
proof (rule parses_primaryI)
  fix out and stk :: "('a, 'b) op_stack" and args ts
  assume *: "plain stk" "room args"
  let ?stk = "if args = [] then stk else count_array_item stk"
  have "parse_tokens (separated (map tokens es) T_Comma @ T_CloseParen # ts)
      (\<lparr>ep_output = out, ep_operator_stack = (T_OpenParen, None) # (T_Function name i (of_nat (length es)), None) # ?stk,
        ep_arg_count = 0 # counted_up args\<rparr>, False) =
    parse_tokens ts (\<lparr>ep_output = out @ concat (map code es) @ [X_Function i (of_nat (length es))], ep_operator_stack = ?stk,
      ep_arg_count = counted_up args\<rparr>, True)"
    using assms
    by (subst parse_enclosed_elements [where paren = True and S = "\<lambda>_. (T_Function name i (of_nat (length es)), None) # ?stk"])
      (simp_all add: bumped_def close_call_def sint_of_nat function_item_def)
  with * show "parse_tokens (tokens (E_Call name i es) @ ts) (\<lparr>ep_output = out, ep_operator_stack = stk, ep_arg_count = args\<rparr>, False) =
      parse_tokens ts (\<lparr>ep_output = out @ code (E_Call name i es), ep_operator_stack = bumped (E_Call name i es) args stk,
        ep_arg_count = counted_up args\<rparr>, ends (E_Call name i es))"
    by (simp add: parse_call_def push_operator_def push_count_def bumped_def)
qed simp

lemma parses_array:
  assumes "\<forall>e\<in>set es. parses e" "\<forall>e\<in>set es. counted e" "length es < 2 ^ 31"
  shows "parses (E_Array es)"
proof (rule parses_primaryI)
  fix out and stk :: "('a, 'b) op_stack" and args ts
  assume *: "plain stk" "room args"
  let ?stk = "if args = [] then stk else count_array_item stk"
  let ?f = "\<lambda>n. (T_Function [97, 114, 114, 97, 121] ID_ARRAY_BUILD (of_nat n), None)"
  have ne: "ID_ARRAY_BUILD \<noteq> ID_ARRAY_ACCESS" by (simp add: ID_ARRAY_BUILD_def ID_ARRAY_ACCESS_def)
  have "parse_tokens (separated (map tokens es) T_Comma @ T_CloseBracket # ts)
      (\<lparr>ep_output = out, ep_operator_stack = (T_OpenBracket, None) # ?f 0 # ?stk, ep_arg_count = 0 # counted_up args\<rparr>, False) =
    parse_tokens ts (\<lparr>ep_output = out @ concat (map code es) @ [X_ArrayBuild (of_nat (length es))], ep_operator_stack = ?stk,
      ep_arg_count = counted_up args\<rparr>, True)"
    using assms ne
    by (subst parse_enclosed_elements [where paren = False and S = "\<lambda>n. ?f n # ?stk"])
      (simp_all add: bumped_def close_call_def sint_of_nat function_item_def add.commute)
  with * show "parse_tokens (tokens (E_Array es) @ ts) (\<lparr>ep_output = out, ep_operator_stack = stk, ep_arg_count = args\<rparr>, False) =
      parse_tokens ts (\<lparr>ep_output = out @ code (E_Array es), ep_operator_stack = bumped (E_Array es) args stk,
        ep_arg_count = counted_up args\<rparr>, ends (E_Array es))"
    by (simp add: parse_open_bracket_def push_operator_def push_count_def bumped_def)
qed simp

lemma parses_index:
  assumes "parses b" "parses i" "level b = 9" "ends b"
  shows "parses (E_Index b i)"
proof (rule parses_primaryI)
  fix out and stk :: "('a, 'b) op_stack" and args ts
  assume *: "plain stk" "room args"
  let ?f = "(T_Function [97, 114, 114, 97, 121] ID_ARRAY_ACCESS 2, None)"
  have ne: "ID_ARRAY_ACCESS \<noteq> ID_ARRAY_BUILD" by (simp add: ID_ARRAY_BUILD_def ID_ARRAY_ACCESS_def)
  have fits: "fits (level b) stk" using assms(3) *(1) by (cases "(9 :: int, stk)" rule: fits.cases) (auto simp: precedence_lt)
  have b: "parse_tokens (tokens b @ ts') (\<lparr>ep_output = out, ep_operator_stack = stk, ep_arg_count = args\<rparr>, False) =
      parse_tokens ts' (\<lparr>ep_output = out @ code b, ep_operator_stack = bumped b args stk, ep_arg_count = counted_up args\<rparr>, True)" for ts'
    by (rule parsesE [OF assms(1) *(1) fits *(2), where out = out and ts = ts']) (simp add: assms)
  have i: "parse_tokens (tokens i @ T_CloseBracket # ts)
      (\<lparr>ep_output = out @ code b, ep_operator_stack = (T_OpenBracket, None) # ?f # bumped b args stk, ep_arg_count = 1 # counted_up args\<rparr>, False) =
    parse_tokens ts (\<lparr>ep_output = out @ code b @ code i @ [X_ArrayAccess], ep_operator_stack = bumped b args stk, ep_arg_count = counted_up args\<rparr>, True)"
    using ne by (intro parse_enclosed [OF assms(2), of False]) (simp_all add: bumped_def close_call_def function_item_def)
  have "bumped (E_Index b i) args stk = bumped b args stk" by (simp add: bumped_def)
  with b [of "T_OpenBracket # tokens i @ T_CloseBracket # ts"] i
  show "parse_tokens (tokens (E_Index b i) @ ts) (\<lparr>ep_output = out, ep_operator_stack = stk, ep_arg_count = args\<rparr>, False) =
      parse_tokens ts (\<lparr>ep_output = out @ code (E_Index b i), ep_operator_stack = bumped (E_Index b i) args stk,
        ep_arg_count = counted_up args\<rparr>, ends (E_Index b i))"
    by (simp add: parse_open_bracket_def push_operator_def push_count_def)
qed simp

subsection \<open>All expressions\<close>

lemma parses_expr: "expr_ok e \<Longrightarrow> parses e"
proof (induction e)
  case (E_Call name i es)
  then show ?case by (intro parses_call) (simp_all add: list_all_iff)
next
  case (E_Array es)
  then show ?case by (intro parses_array) (simp_all add: list_all_iff)
next
  case (E_Index b i)
  then show ?case by (intro parses_index) simp_all
qed (simp_all add: parses_regex parses_setting parses_paren parses_unary parses_binary)

lemma parse_tokens_expr:
  assumes "expr_ok e"
  shows "parse (tokens e, None) = Inr (code e)"
proof -
  obtain out' pend where
    "parse_tokens (tokens e @ []) (ep_new, False) =
       parse_tokens [] (\<lparr>ep_output = out', ep_operator_stack = pend @ bumped e [] [], ep_arg_count = counted_up []\<rparr>, ends e)"
    "flush pend out' = Some ([] @ code e)" "list_all (waiting (level e)) pend"
    unfolding ep_new_def
    by (rule parsesE [OF parses_expr [OF assms], where stk = "[]" and args = "[]" and out = "[]" and ts = "[]"]) (auto intro: that)
  then show ?thesis
    using pop_rest_waiting [of "level e" pend out' "code e"] by (simp add: parse_def bumped_def)
qed

text \<open>An element that starts with an operator or a parenthesis is not counted, and its array is refused.\<close>

lemma parse_uncounted_array:
  assumes "list_all expr_ok es" "\<not> list_all counted es" "length es < 2 ^ 31"
  shows "parse (tokens (E_Array es), None) = Inl PE_FunctionArguments"
proof -
  let ?f = "\<lambda>n. (T_Function [97, 114, 114, 97, 121] ID_ARRAY_BUILD (of_nat (length (filter counted (take n es)))), None)"
  have bump: "\<forall>j<length es. bumped (es ! j) (int j # []) ((T_OpenBracket, None) # [?f j]) = (T_OpenBracket, None) # [?f (Suc j)]"
    by (simp add: bumped_def take_Suc_conv_app_nth)
  have ok: "\<forall>e\<in>set es. parses e"
    using assms(1) by (simp add: list_all_iff parses_expr)
  have "length (filter counted es) < length es"
    using assms(2) by (auto simp: list_all_iff intro: length_filter_less)
  then have "sint (of_nat (length (filter counted es)) :: u32) \<noteq> int (length es)"
    using assms(3) by (simp add: sint_of_nat)
  then have "close_call \<lparr>ep_output = concat (map code es), ep_operator_stack = [?f (length es)], ep_arg_count = [int (length es)]\<rparr> =
      Inl PE_FunctionArguments"
    by (simp add: close_call_def ID_ARRAY_BUILD_def)
  then have "parse_tokens (separated (map tokens es) T_Comma @ [T_CloseBracket])
      (\<lparr>ep_output = [], ep_operator_stack = (T_OpenBracket, None) # [?f 0], ep_arg_count = [0]\<rparr>, False) = Inl PE_FunctionArguments"
    using parse_enclosed_elements [OF ok _ _ bump assms(3), of False T_CloseBracket "[]" "[]"] by simp
  then show ?thesis
    by (simp add: parse_def ep_new_def parse_open_bracket_def push_operator_def push_count_def inc_arg_count_def)
qed

end
