(* ===== verification/ExprEval.thy ===== *)
theory ExprEval
  imports ExprParser
begin

text \<open>
  The evaluator of configuration expressions, \<open>crates/common/src/expr/eval.rs\<close>: the operations on
  values, the stack machine that runs compiled expressions, and blocks of conditions. The arithmetic of
  floats, the variables and functions of the server and the matching of regular expressions are
  parameters. A function of the server may change the world it runs in.
\<close>

section \<open>Values\<close>

datatype 'f variable =
    V_String bytes
  | V_Integer int
  | V_Float 'f
  | V_Array "'f variable list"

definition variable_default :: "'f variable" where
  "variable_default = V_String []"

datatype cmp = Less | Equal | Greater

record 'f float_ops =
  fl_of_int :: "int \<Rightarrow> 'f"
  fl_zero :: 'f
  fl_add :: "'f \<Rightarrow> 'f \<Rightarrow> 'f"
  fl_sub :: "'f \<Rightarrow> 'f \<Rightarrow> 'f"
  fl_mul :: "'f \<Rightarrow> 'f \<Rightarrow> 'f"
  fl_div :: "'f \<Rightarrow> 'f \<Rightarrow> 'f"
  fl_neg :: "'f \<Rightarrow> 'f"
  fl_eq :: "'f \<Rightarrow> 'f \<Rightarrow> bool"
  fl_cmp :: "'f \<Rightarrow> 'f \<Rightarrow> cmp option"
  fl_parse :: "bytes \<Rightarrow> 'f option"
  fl_print :: "'f \<Rightarrow> bytes"
  fl_to_usize :: "'f \<Rightarrow> nat"

subsection \<open>Integers and their text\<close>

definition i64_saturate :: "int \<Rightarrow> int" where
  "i64_saturate i = max (- (2 ^ 63)) (min (2 ^ 63 - 1) i)"

definition i64_wrap :: "int \<Rightarrow> int" where
  "i64_wrap i = (i + 2 ^ 63) mod 2 ^ 64 - 2 ^ 63"

fun print_nat :: "nat \<Rightarrow> bytes" where
  "print_nat n = (if n < 10 then [of_nat (48 + n)] else print_nat (n div 10) @ [of_nat (48 + n mod 10)])"

declare print_nat.simps [simp del]

definition print_int :: "int \<Rightarrow> bytes" where
  "print_int i = (if i < 0 then 45 # print_nat (nat (- i)) else print_nat (nat i))"

fun parse_digits :: "nat \<Rightarrow> bytes \<Rightarrow> nat option" where
  "parse_digits acc [] = Some acc"
| "parse_digits acc (c # cs) = (if 48 \<le> c \<and> c \<le> 57 then parse_digits (acc * 10 + unat (c - 48)) cs else None)"

definition parse_nat :: "bytes \<Rightarrow> nat option" where
  "parse_nat s = (if s = [] then None else parse_digits 0 s)"

definition parse_i64 :: "bytes \<Rightarrow> int option" where
  "parse_i64 s =
     (let (neg, ds) = (case s of c # cs \<Rightarrow> if c = 45 then (True, cs) else if c = 43 then (False, cs) else (False, s) | [] \<Rightarrow> (False, []))
      in case parse_nat ds of
           None \<Rightarrow> None
         | Some n \<Rightarrow> let i = (if neg then - int n else int n) in if - (2 ^ 63) \<le> i \<and> i < 2 ^ 63 then Some i else None)"

definition parse_usize :: "bytes \<Rightarrow> nat option" where
  "parse_usize s =
     (case parse_nat (case s of c # cs \<Rightarrow> if c = 43 then cs else s | [] \<Rightarrow> []) of
        None \<Rightarrow> None
      | Some n \<Rightarrow> if n < 2 ^ 64 then Some n else None)"

subsection \<open>Numbers\<close>

text \<open>The numeric values, which are what \<open>parse_number\<close> returns.\<close>

datatype 'f number = N_Integer int | N_Float 'f

fun of_number :: "'f number \<Rightarrow> 'f variable" where
  "of_number (N_Integer n) = V_Integer n"
| "of_number (N_Float x) = V_Float x"

fun parse_number :: "'f float_ops \<Rightarrow> 'f variable \<Rightarrow> 'f number" where
  "parse_number F (V_String s) =
     (if s \<noteq> []
      then case parse_i64 s of
             Some n \<Rightarrow> N_Integer n
           | None \<Rightarrow> (case fl_parse F s of Some x \<Rightarrow> N_Float x | None \<Rightarrow> N_Integer 0)
      else N_Integer 0)"
| "parse_number F (V_Integer n) = N_Integer n"
| "parse_number F (V_Float x) = N_Float x"
| "parse_number F (V_Array l) = N_Integer (of_bool (l = []))"

fun number_subtract :: "'f float_ops \<Rightarrow> 'f number \<Rightarrow> 'f number \<Rightarrow> 'f number" where
  "number_subtract F (N_Integer a) (N_Integer b) = N_Integer (i64_saturate (a - b))"
| "number_subtract F (N_Float a) (N_Float b) = N_Float (fl_sub F a b)"
| "number_subtract F (N_Integer a) (N_Float b) = N_Float (fl_sub F (fl_of_int F a) b)"
| "number_subtract F (N_Float a) (N_Integer b) = N_Float (fl_sub F a (fl_of_int F b))"

fun number_multiply :: "'f float_ops \<Rightarrow> 'f number \<Rightarrow> 'f number \<Rightarrow> 'f number" where
  "number_multiply F (N_Integer a) (N_Integer b) = N_Integer (i64_saturate (a * b))"
| "number_multiply F (N_Float a) (N_Float b) = N_Float (fl_mul F a b)"
| "number_multiply F (N_Integer i) (N_Float x) = N_Float (fl_mul F (fl_of_int F i) x)"
| "number_multiply F (N_Float x) (N_Integer i) = N_Float (fl_mul F (fl_of_int F i) x)"

definition float_divide :: "'f float_ops \<Rightarrow> 'f \<Rightarrow> 'f \<Rightarrow> 'f number" where
  "float_divide F a b = N_Float (if \<not> fl_eq F b (fl_zero F) then fl_div F a b else fl_zero F)"

fun number_divide :: "'f float_ops \<Rightarrow> 'f number \<Rightarrow> 'f number \<Rightarrow> 'f number" where
  "number_divide F (N_Integer a) (N_Integer b) =
     N_Float (if b \<noteq> 0 then fl_div F (fl_of_int F a) (fl_of_int F b) else fl_zero F)"
| "number_divide F (N_Float a) (N_Float b) = float_divide F a b"
| "number_divide F (N_Integer a) (N_Float b) = float_divide F (fl_of_int F a) b"
| "number_divide F (N_Float a) (N_Integer b) = N_Float (if b \<noteq> 0 then fl_div F a (fl_of_int F b) else fl_zero F)"

fun number_eq :: "'f float_ops \<Rightarrow> 'f number \<Rightarrow> 'f number \<Rightarrow> bool" where
  "number_eq F (N_Integer a) (N_Integer b) = (a = b)"
| "number_eq F (N_Float a) (N_Float b) = fl_eq F a b"
| "number_eq F (N_Integer a) (N_Float b) = fl_eq F (fl_of_int F a) b"
| "number_eq F (N_Float b) (N_Integer a) = fl_eq F (fl_of_int F a) b"

definition int_cmp :: "int \<Rightarrow> int \<Rightarrow> cmp" where
  "int_cmp a b = (if a < b then Less else if a = b then Equal else Greater)"

fun number_cmp :: "'f float_ops \<Rightarrow> 'f number \<Rightarrow> 'f number \<Rightarrow> cmp option" where
  "number_cmp F (N_Integer a) (N_Integer b) = Some (int_cmp a b)"
| "number_cmp F (N_Float a) (N_Float b) = fl_cmp F a b"
| "number_cmp F (N_Integer a) (N_Float b) = fl_cmp F (fl_of_int F a) b"
| "number_cmp F (N_Float a) (N_Integer b) = fl_cmp F a (fl_of_int F b)"

subsection \<open>Equality and order of values\<close>

fun variable_eq :: "'f float_ops \<Rightarrow> 'f variable \<Rightarrow> 'f variable \<Rightarrow> bool"
and variables_eq :: "'f float_ops \<Rightarrow> 'f variable list \<Rightarrow> 'f variable list \<Rightarrow> bool" where
  "variable_eq F (V_Array a) v = (case v of V_Array b \<Rightarrow> variables_eq F a b | _ \<Rightarrow> False)"
| "variable_eq F (V_String a) v =
     (case v of
        V_String b \<Rightarrow> a = b
      | V_Array b \<Rightarrow> False
      | _ \<Rightarrow> number_eq F (parse_number F (V_String a)) (parse_number F v))"
| "variable_eq F (V_Integer a) v = (case v of V_Array b \<Rightarrow> False | _ \<Rightarrow> number_eq F (N_Integer a) (parse_number F v))"
| "variable_eq F (V_Float a) v = (case v of V_Array b \<Rightarrow> False | _ \<Rightarrow> number_eq F (N_Float a) (parse_number F v))"
| "variables_eq F [] vs = (vs = [])"
| "variables_eq F (a # as) vs = (case vs of [] \<Rightarrow> False | b # bs \<Rightarrow> variable_eq F a b \<and> variables_eq F as bs)"

fun bytes_cmp :: "bytes \<Rightarrow> bytes \<Rightarrow> cmp" where
  "bytes_cmp [] [] = Equal"
| "bytes_cmp [] (b # bs) = Less"
| "bytes_cmp (a # as) [] = Greater"
| "bytes_cmp (a # as) (b # bs) = (if a < b then Less else if b < a then Greater else bytes_cmp as bs)"

fun variable_cmp :: "'f float_ops \<Rightarrow> 'f variable \<Rightarrow> 'f variable \<Rightarrow> cmp option"
and variables_cmp :: "'f float_ops \<Rightarrow> 'f variable list \<Rightarrow> 'f variable list \<Rightarrow> cmp option" where
  "variable_cmp F (V_Array a) v = (case v of V_Array b \<Rightarrow> variables_cmp F a b | _ \<Rightarrow> Some Greater)"
| "variable_cmp F (V_String a) v =
     (case v of
        V_String b \<Rightarrow> Some (bytes_cmp a b)
      | V_Array b \<Rightarrow> Some Greater
      | _ \<Rightarrow> number_cmp F (parse_number F (V_String a)) (parse_number F v))"
| "variable_cmp F (V_Integer a) v = (case v of V_Array b \<Rightarrow> Some Less | _ \<Rightarrow> number_cmp F (N_Integer a) (parse_number F v))"
| "variable_cmp F (V_Float a) v = (case v of V_Array b \<Rightarrow> Some Less | _ \<Rightarrow> number_cmp F (N_Float a) (parse_number F v))"
| "variables_cmp F [] vs = (case vs of [] \<Rightarrow> Some Equal | b # bs \<Rightarrow> Some Less)"
| "variables_cmp F (a # as) vs =
     (case vs of
        [] \<Rightarrow> Some Greater
      | b # bs \<Rightarrow> (case variable_cmp F a b of Some Equal \<Rightarrow> variables_cmp F as bs | c \<Rightarrow> c))"

subsection \<open>Conversions\<close>

fun to_bool :: "'f float_ops \<Rightarrow> 'f variable \<Rightarrow> bool" where
  "to_bool F (V_Float x) = (\<not> fl_eq F x (fl_zero F))"
| "to_bool F (V_Integer n) = (n \<noteq> 0)"
| "to_bool F (V_String s) = (s \<noteq> [])"
| "to_bool F (V_Array l) = (l \<noteq> [])"

fun display :: "'f float_ops \<Rightarrow> 'f variable \<Rightarrow> bytes"
and display_rest :: "'f float_ops \<Rightarrow> 'f variable list \<Rightarrow> bytes" where
  "display F (V_String s) = s"
| "display F (V_Integer n) = print_int n"
| "display F (V_Float x) = fl_print F x"
| "display F (V_Array l) = (case l of [] \<Rightarrow> [] | v # vs \<Rightarrow> display F v @ display_rest F vs)"
| "display_rest F [] = []"
| "display_rest F (v # vs) = 10 # display F v @ display_rest F vs"

fun item_string :: "'f float_ops \<Rightarrow> 'f variable \<Rightarrow> bytes" where
  "item_string F (V_String s) = s"
| "item_string F (V_Integer n) = print_int n"
| "item_string F (V_Float x) = fl_print F x"
| "item_string F (V_Array l) = []"

fun into_string :: "'f float_ops \<Rightarrow> 'f variable \<Rightarrow> bytes" where
  "into_string F (V_Array l) =
     foldl (\<lambda>result v. (if result \<noteq> [] then result @ [13, 10] else result) @ item_string F v) [] l"
| "into_string F v = item_string F v"

fun to_usize :: "'f float_ops \<Rightarrow> 'f variable \<Rightarrow> nat option" where
  "to_usize F (V_Integer n) = Some (nat (n mod 2 ^ 64))"
| "to_usize F (V_Float x) = Some (fl_to_usize F x)"
| "to_usize F (V_String s) = (if s \<noteq> [] then parse_usize s else None)"
| "to_usize F (V_Array l) = None"

fun into_array :: "'f variable \<Rightarrow> 'f variable list" where
  "into_array (V_Array l) = l"
| "into_array (V_String s) = (if s \<noteq> [] then [V_String s] else [])"
| "into_array v = [v]"

fun from_constant :: "'f const_value \<Rightarrow> 'f variable" where
  "from_constant (C_Integer i) = V_Integer i"
| "from_constant (C_Float x) = V_Float x"
| "from_constant (C_String s) = V_String s"

section \<open>Operators\<close>

definition op_add :: "'f float_ops \<Rightarrow> 'f variable \<Rightarrow> 'f variable \<Rightarrow> 'f variable" where
  "op_add F l r =
     (case (l, r) of
        (V_Integer a, V_Integer b) \<Rightarrow> V_Integer (i64_saturate (a + b))
      | (V_Float a, V_Float b) \<Rightarrow> V_Float (fl_add F a b)
      | (V_Integer i, V_Float x) \<Rightarrow> V_Float (fl_add F (fl_of_int F i) x)
      | (V_Float x, V_Integer i) \<Rightarrow> V_Float (fl_add F (fl_of_int F i) x)
      | (V_Array a, V_Array b) \<Rightarrow> V_Array (a @ b)
      | (V_Array a, b) \<Rightarrow> V_Array (a @ [b])
      | (a, V_Array b) \<Rightarrow> V_Array (a # b)
      | (V_String a, b) \<Rightarrow> if a \<noteq> [] then V_String (a @ display F b) else b
      | (a, V_String b) \<Rightarrow> if b \<noteq> [] then V_String (display F a @ b) else a)"

definition op_subtract :: "'f float_ops \<Rightarrow> 'f variable \<Rightarrow> 'f variable \<Rightarrow> 'f variable" where
  "op_subtract F l r =
     (case (l, r) of
        (V_Array a, b) \<Rightarrow> V_Array (filter (\<lambda>v. \<not> variable_eq F v b) a)
      | (b, V_Array a) \<Rightarrow> V_Array (filter (\<lambda>v. \<not> variable_eq F v b) a)
      | (a, b) \<Rightarrow> of_number (number_subtract F (parse_number F a) (parse_number F b)))"

definition op_multiply :: "'f float_ops \<Rightarrow> 'f variable \<Rightarrow> 'f variable \<Rightarrow> 'f variable" where
  "op_multiply F l r = of_number (number_multiply F (parse_number F l) (parse_number F r))"

definition op_divide :: "'f float_ops \<Rightarrow> 'f variable \<Rightarrow> 'f variable \<Rightarrow> 'f variable" where
  "op_divide F l r = of_number (number_divide F (parse_number F l) (parse_number F r))"

definition from_bool :: "bool \<Rightarrow> 'f variable" where
  "from_bool b = V_Integer (of_bool b)"

fun binary_op :: "'f float_ops \<Rightarrow> binary_operator \<Rightarrow> 'f variable \<Rightarrow> 'f variable \<Rightarrow> 'f variable" where
  "binary_op F BO_Add l r = op_add F l r"
| "binary_op F BO_Subtract l r = op_subtract F l r"
| "binary_op F BO_Multiply l r = op_multiply F l r"
| "binary_op F BO_Divide l r = op_divide F l r"
| "binary_op F BO_And l r = from_bool (to_bool F l \<and> to_bool F r)"
| "binary_op F BO_Or l r = from_bool (to_bool F l \<or> to_bool F r)"
| "binary_op F BO_Xor l r = from_bool (to_bool F l \<noteq> to_bool F r)"
| "binary_op F BO_Eq l r = from_bool (variable_eq F l r)"
| "binary_op F BO_Ne l r = from_bool (\<not> variable_eq F l r)"
| "binary_op F BO_Lt l r = from_bool (variable_cmp F l r = Some Less)"
| "binary_op F BO_Le l r = from_bool (variable_cmp F l r \<in> {Some Less, Some Equal})"
| "binary_op F BO_Gt l r = from_bool (variable_cmp F l r = Some Greater)"
| "binary_op F BO_Ge l r = from_bool (variable_cmp F l r \<in> {Some Greater, Some Equal})"

fun number_minus :: "'f float_ops \<Rightarrow> 'f number \<Rightarrow> 'f number" where
  "number_minus F (N_Integer n) = N_Integer (i64_wrap (- n))"
| "number_minus F (N_Float x) = N_Float (fl_neg F x)"

fun unary_op :: "'f float_ops \<Rightarrow> unary_operator \<Rightarrow> 'f variable \<Rightarrow> 'f variable" where
  "unary_op F UO_Not v = from_bool (\<not> to_bool F v)"
| "unary_op F UO_Minus v = of_number (number_minus F (parse_number F v))"

section \<open>The stack machine\<close>

type_synonym 'w eval_state = "bytes list \<times> 'w"

record ('f, 'r, 'e, 'w) eval_env =
  ev_float :: "'f float_ops"
  ev_resolve_variable :: "u32 \<Rightarrow> 'f variable"
  ev_resolve_global :: "bytes \<Rightarrow> 'f variable"
  ev_server_name :: bytes
  ev_report_domain :: bytes
  ev_node_id :: u64
  ev_config_get :: "bytes \<Rightarrow> 'w \<Rightarrow> 'e + bytes option"
  ev_functions :: "('f variable list \<Rightarrow> 'f variable) list"
  ev_eval_fnc :: "u32 \<Rightarrow> 'f variable list \<Rightarrow> 'w \<Rightarrow> ('e + 'f variable) \<times> 'w"
  ev_regex_captures :: "'r \<Rightarrow> bytes \<Rightarrow> bytes option list option"

text \<open>The top of the stack is in front; an empty stack yields the default value.\<close>

fun pop_value :: "'f variable list \<Rightarrow> 'f variable \<times> 'f variable list" where
  "pop_value [] = (variable_default, [])"
| "pop_value (v # stack) = (v, stack)"

definition pop_values :: "nat \<Rightarrow> 'f variable list \<Rightarrow> 'f variable list \<times> 'f variable list" where
  "pop_values n stack = (rev (take n stack @ replicate (n - length stack) variable_default), drop n stack)"

definition eval_setting :: "('f, 'r, 'e, 'w) eval_env \<Rightarrow> setting \<Rightarrow> 'w \<Rightarrow> 'e + 'f variable" where
  "eval_setting env setting w =
     (case setting of
        Set_Hostname \<Rightarrow> Inr (V_String (ev_server_name env))
      | Set_ReportDomain \<Rightarrow> Inr (V_String (ev_report_domain env))
      | Set_NodeId \<Rightarrow> Inr (V_Integer (sint (ev_node_id env)))
      | Set_Other key \<Rightarrow>
          (case ev_config_get env key w of
             Inl e \<Rightarrow> Inl e
           | Inr v \<Rightarrow> Inr (V_String (case v of Some s \<Rightarrow> s | None \<Rightarrow> []))))"

definition call_function :: "('f, 'r, 'e, 'w) eval_env \<Rightarrow> u32 \<Rightarrow> 'f variable list \<Rightarrow> 'w \<Rightarrow> ('e + 'f variable) \<times> 'w" where
  "call_function env i arguments w =
     (if unat i < length (ev_functions env) then (Inr ((ev_functions env ! unat i) arguments), w)
      else ev_eval_fnc env (i - of_nat (length (ev_functions env))) arguments w)"

definition array_access :: "'f float_ops \<Rightarrow> 'f variable \<Rightarrow> 'f variable \<Rightarrow> 'f variable" where
  "array_access F v index =
     (let i = (case to_usize F index of Some i \<Rightarrow> i | None \<Rightarrow> 0); array = into_array v
      in if i < length array then array ! i else variable_default)"

definition regex_match :: "('f, 'r, 'e, 'w) eval_env \<Rightarrow> 'r \<Rightarrow> 'f variable \<Rightarrow> 'f variable \<times> bytes list" where
  "regex_match env regex v =
     (let captures = (case ev_regex_captures env regex (into_string (ev_float env) v) of
            Some cs \<Rightarrow> map (\<lambda>c. case c of Some m \<Rightarrow> m | None \<Rightarrow> []) cs
          | None \<Rightarrow> [])
      in (from_bool (captures \<noteq> []), captures))"

definition capture :: "bytes list \<Rightarrow> u32 \<Rightarrow> 'f variable" where
  "capture captures v = V_String (if unat v < length captures then captures ! unat v else [])"

text \<open>One item other than a jump.\<close>

fun exec_item :: "('f, 'r, 'e, 'w) eval_env \<Rightarrow> ('f, 'r) expression_item \<Rightarrow> 'f variable list \<Rightarrow> 'w eval_state
    \<Rightarrow> ('e + 'f variable list) \<times> 'w eval_state" where
  "exec_item env (X_Variable v) stack s = (Inr (ev_resolve_variable env v # stack), s)"
| "exec_item env (X_Global v) stack s = (Inr (ev_resolve_global env v # stack), s)"
| "exec_item env (X_Constant c) stack s = (Inr (from_constant c # stack), s)"
| "exec_item env (X_Capture v) stack s = (Inr (capture (fst s) v # stack), s)"
| "exec_item env (X_Setting setting) stack s =
     (case eval_setting env setting (snd s) of Inl e \<Rightarrow> (Inl e, s) | Inr v \<Rightarrow> (Inr (v # stack), s))"
| "exec_item env (X_UnaryOperator op) stack s =
     (let (v, stack) = pop_value stack in (Inr (unary_op (ev_float env) op v # stack), s))"
| "exec_item env (X_BinaryOperator op) stack s =
     (let (right, stack) = pop_value stack; (left, stack) = pop_value stack
      in (Inr (binary_op (ev_float env) op left right # stack), s))"
| "exec_item env (X_Function i num_args) stack s =
     (let (arguments, stack) = pop_values (unat num_args) stack
      in case call_function env i arguments (snd s) of
           (Inl e, w) \<Rightarrow> (Inl e, (fst s, w))
         | (Inr v, w) \<Rightarrow> (Inr (v # stack), (fst s, w)))"
| "exec_item env (X_JmpIf val pos) stack s = (Inr stack, s)"
| "exec_item env X_ArrayAccess stack s =
     (let (index, stack) = pop_value stack; (array, stack) = pop_value stack
      in (Inr (array_access (ev_float env) array index # stack), s))"
| "exec_item env (X_ArrayBuild num_items) stack s =
     (let (items, stack) = pop_values (unat num_items) stack in (Inr (V_Array items # stack), s))"
| "exec_item env (X_Regex regex) stack s =
     (let (v, stack) = pop_value stack; (matched, captures) = regex_match env regex v
      in (Inr (matched # stack), (captures, snd s)))"

text \<open>The items behind a jump, which are skipped when the top of the stack has the truth value of the jump.\<close>

fun after_item :: "'f float_ops \<Rightarrow> ('f, 'r) expression_item \<Rightarrow> ('f, 'r) expression_item list \<Rightarrow> 'f variable list
    \<Rightarrow> ('f, 'r) expression_item list" where
  "after_item F (X_JmpIf val pos) items stack =
     (if (case stack of [] \<Rightarrow> False | v # _ \<Rightarrow> to_bool F v) = val then drop (unat pos) items else items)"
| "after_item F _ items stack = items"

lemma length_after_item: "length (after_item F item items stack) \<le> length items"
  by (cases item) simp_all

function exec :: "('f, 'r, 'e, 'w) eval_env \<Rightarrow> ('f, 'r) expression_item list \<Rightarrow> 'f variable list \<Rightarrow> 'w eval_state
    \<Rightarrow> ('e + 'f variable list) \<times> 'w eval_state" where
  "exec env [] stack s = (Inr stack, s)"
| "exec env (item # items) stack s =
     (case exec_item env item stack s of
        (Inl e, s') \<Rightarrow> (Inl e, s')
      | (Inr stack', s') \<Rightarrow> exec env (after_item (ev_float env) item items stack) stack' s')"
  by pat_completeness auto
termination
  by (relation "measure (\<lambda>(env, items, stack, s). length items)") (auto simp: less_Suc_eq_le length_after_item)

definition eval_expression :: "('f, 'r, 'e, 'w) eval_env \<Rightarrow> ('f, 'r) expression_item list \<Rightarrow> 'w eval_state
    \<Rightarrow> ('e + 'f variable) \<times> 'w eval_state" where
  "eval_expression env items s =
     (case exec env items [] s of
        (Inl e, s') \<Rightarrow> (Inl e, s')
      | (Inr stack, s') \<Rightarrow> (Inr (fst (pop_value stack)), s'))"

section \<open>Blocks of conditions\<close>

record ('f, 'r) if_block =
  ib_if_then :: "(('f, 'r) expression_item list \<times> ('f, 'r) expression_item list) list"
  ib_default :: "('f, 'r) expression_item list"

fun eval_if_thens :: "('f, 'r, 'e, 'w) eval_env \<Rightarrow> (('f, 'r) expression_item list \<times> ('f, 'r) expression_item list) list
    \<Rightarrow> ('f, 'r) expression_item list \<Rightarrow> 'w eval_state \<Rightarrow> ('e + 'f variable) \<times> 'w eval_state" where
  "eval_if_thens env [] default_expr s = eval_expression env default_expr s"
| "eval_if_thens env ((expr, then_expr) # if_thens) default_expr s =
     (case eval_expression env expr s of
        (Inl e, s') \<Rightarrow> (Inl e, s')
      | (Inr v, s') \<Rightarrow>
          if to_bool (ev_float env) v then eval_expression env then_expr s'
          else eval_if_thens env if_thens default_expr s')"

definition eval_if_block :: "('f, 'r, 'e, 'w) eval_env \<Rightarrow> ('f, 'r) if_block \<Rightarrow> 'w eval_state
    \<Rightarrow> ('e + 'f variable) \<times> 'w eval_state" where
  "eval_if_block env block s = eval_if_thens env (ib_if_then block) (ib_default block) s"

end
