(* ===== verification/ExprCorrect.thy ===== *)
theory ExprCorrect
  imports ExprCompile ExprEval
begin

text \<open>
  The meaning of configuration expressions, given directly on their syntax trees, and the proof that
  parsing the text and running the code computes it; and the discipline of the stack that the code keeps.
\<close>

section \<open>The meaning of an expression\<close>

definition seq :: "('e + 'x) \<times> 's \<Rightarrow> ('x \<Rightarrow> 's \<Rightarrow> ('e + 'y) \<times> 's) \<Rightarrow> ('e + 'y) \<times> 's" where
  "seq r f = (case r of (Inl e, s) \<Rightarrow> (Inl e, s) | (Inr x, s) \<Rightarrow> f x s)"

lemma seq_simps [simp]: "seq (Inl e, s) f = (Inl e, s)" "seq (Inr x, s) f = f x s"
  by (simp_all add: seq_def)

lemma seq_cong: "(\<And>x s. r = (Inr x, s) \<Longrightarrow> f x s = g x s) \<Longrightarrow> seq r f = seq r g"
  by (auto simp: seq_def split: prod.splits sum.splits)

lemma seq_assoc: "seq (seq r f) g = seq r (\<lambda>x s. seq (f x s) g)"
  by (auto simp: seq_def split: prod.splits sum.splits)

text \<open>The right operand of a logical operator is not evaluated when the left one decides.\<close>

fun decides :: "binary_operator \<Rightarrow> bool \<Rightarrow> bool" where
  "decides BO_And b = (\<not> b)"
| "decides BO_Or b = b"
| "decides _ b = False"

fun sem :: "('f, 'r, 'e, 'w) eval_env \<Rightarrow> ('f, 'r) expr \<Rightarrow> 'w eval_state \<Rightarrow> ('e + 'f variable) \<times> 'w eval_state"
and sems :: "('f, 'r, 'e, 'w) eval_env \<Rightarrow> ('f, 'r) expr list \<Rightarrow> 'w eval_state \<Rightarrow> ('e + 'f variable list) \<times> 'w eval_state" where
  "sem env (E_Variable v) s = (Inr (ev_resolve_variable env v), s)"
| "sem env (E_Constant c) s = (Inr (from_constant c), s)"
| "sem env (E_Global g) s = (Inr (ev_resolve_global env g), s)"
| "sem env (E_Capture c) s = (Inr (capture (fst s) c), s)"
| "sem env (E_Setting x) s = (eval_setting env x (snd s), s)"
| "sem env (E_Regex r e) s = seq (sem env e s) (\<lambda>v s. (Inr (fst (regex_match env r v)), (snd (regex_match env r v), snd s)))"
| "sem env (E_Call name i es) s =
     seq (sems env es s) (\<lambda>vs s. (fst (call_function env i vs (snd s)), (fst s, snd (call_function env i vs (snd s)))))"
| "sem env (E_Paren e) s = sem env e s"
| "sem env (E_Index b i) s =
     seq (sem env b s) (\<lambda>v s. seq (sem env i s) (\<lambda>n s. (Inr (array_access (ev_float env) v n), s)))"
| "sem env (E_Array es) s = seq (sems env es s) (\<lambda>vs s. (Inr (V_Array vs), s))"
| "sem env (E_Unary u e) s = seq (sem env e s) (\<lambda>v s. (Inr (unary_op (ev_float env) u v), s))"
| "sem env (E_Binary op l r) s =
     seq (sem env l s) (\<lambda>v s.
       if decides op (to_bool (ev_float env) v) then (Inr v, s)
       else seq (sem env r s) (\<lambda>v' s. (Inr (binary_op (ev_float env) op v v'), s)))"
| "sems env [] s = (Inr [], s)"
| "sems env (e # es) s = seq (sem env e s) (\<lambda>v s. seq (sems env es s) (\<lambda>vs s. (Inr (v # vs), s)))"

fun sem_if :: "('f, 'r, 'e, 'w) eval_env \<Rightarrow> (('f, 'r) expr \<times> ('f, 'r) expr) list \<Rightarrow> ('f, 'r) expr \<Rightarrow> 'w eval_state
    \<Rightarrow> ('e + 'f variable) \<times> 'w eval_state" where
  "sem_if env [] d s = sem env d s"
| "sem_if env ((c, t) # rules) d s =
     seq (sem env c s) (\<lambda>v s. if to_bool (ev_float env) v then sem env t s else sem_if env rules d s)"

section \<open>The code computes the meaning\<close>

lemma exec_Cons: "exec env (item # items) stack s =
    seq (exec_item env item stack s) (exec env (after_item (ev_float env) item items stack))"
  by (simp add: seq_def)

lemma length_sems: "sems env es s = (Inr vs, s') \<Longrightarrow> length vs = length es"
  by (induction es arbitrary: s vs) (auto simp: seq_def split: prod.splits sum.splits)

lemma pop_values_rev: "length vs = n \<Longrightarrow> pop_values n (rev vs @ stack) = (vs, stack)"
  by (simp add: pop_values_def)

lemma exec_setting: "exec_item env (X_Setting x) stack s = seq (eval_setting env x (snd s), s) (\<lambda>v s. (Inr (v # stack), s))"
  by (simp add: seq_def split: sum.splits)

lemma exec_function:
  "length vs = unat n \<Longrightarrow> exec_item env (X_Function i n) (rev vs @ stack) s =
     seq (fst (call_function env i vs (snd s)), (fst s, snd (call_function env i vs (snd s)))) (\<lambda>v s. (Inr (v # stack), s))"
  by (simp add: pop_values_rev seq_def split: prod.splits sum.splits)

lemma exec_jump:
  assumes "Suc (length c) < 2 ^ 32"
  shows "exec env (jump op (Suc (length c)) @ c @ item # items) (v # stack) s =
    (if decides op (to_bool (ev_float env) v) then exec env items (v # stack) s
     else exec env (c @ item # items) (v # stack) s)"
proof -
  have n: "unat (of_nat (Suc (length c)) :: u32) = Suc (length c)"
    using assms by (intro unat_of_nat_small) simp
  show ?thesis by (cases op) (simp_all add: n del: of_nat_Suc)
qed

lemma exec_code:
  "expr_ok e \<Longrightarrow> length (code e) < 2 ^ 32 \<Longrightarrow>
     exec env (code e @ items) stack s = seq (sem env e s) (\<lambda>v. exec env items (v # stack))"
  "list_all expr_ok es \<Longrightarrow> length (concat (map code es)) < 2 ^ 32 \<Longrightarrow>
     exec env (concat (map code es) @ items) stack s = seq (sems env es s) (\<lambda>vs. exec env items (rev vs @ stack))"
proof (induction env e s and env es s arbitrary: items stack and items stack rule: sem_sems.induct)
  case (5 env x s)
  then show ?case by (simp add: exec_Cons exec_setting seq_assoc del: exec.simps exec_item.simps)
next
  case (7 env name i es s)
  have "unat (of_nat (length es) :: u32) = length es"
    using 7(2) by (intro unat_of_nat_small) simp
  with 7 show ?case
    by (auto simp: exec_Cons exec_function length_sems seq_assoc simp del: exec.simps exec_item.simps intro!: seq_cong)
next
  case (10 env es s)
  have "unat (of_nat (length es) :: u32) = length es"
    using 10(2) by (intro unat_of_nat_small) simp
  with 10 show ?case
    by (auto simp: exec_Cons pop_values_rev length_sems seq_assoc simp del: exec.simps intro!: seq_cong)
next
  case (12 env op l r s)
  have "Suc (length (code r)) < 2 ^ 32" using 12(4) by simp
  with 12 show ?case
    by (auto simp: exec_jump exec_Cons seq_assoc simp del: exec.simps intro!: seq_cong)
qed (auto simp: exec_Cons seq_assoc case_prod_beta simp del: exec.simps(2) intro!: seq_cong)

definition compilable :: "('f, 'r) expr \<Rightarrow> bool" where
  "compilable e \<longleftrightarrow> expr_ok e \<and> length (code e) < 2 ^ 32"

lemma eval_code: "compilable e \<Longrightarrow> eval_expression env (code e) s = sem env e s"
  using exec_code(1) [of e env "[]" "[]" s]
  by (auto simp: compilable_def eval_expression_def seq_def split: prod.splits sum.splits)

lemma eval_if_thens_code:
  assumes "list_all (\<lambda>(c, t). compilable c \<and> compilable t) rules" "compilable d"
  shows "eval_if_thens env (map (map_prod code code) rules) (code d) s = sem_if env rules d s"
  using assms by (induction rules arbitrary: s) (auto simp: eval_code seq_def split: prod.splits sum.splits)

section \<open>The discipline of the stack\<close>

text \<open>The number of values that an item takes; each leaves one.\<close>

fun takes :: "('f, 'r) expression_item \<Rightarrow> nat" where
  "takes (X_UnaryOperator u) = 1"
| "takes (X_BinaryOperator op) = 2"
| "takes (X_Regex r) = 1"
| "takes (X_JmpIf val pos) = 1"
| "takes (X_Function i num_args) = unat num_args"
| "takes X_ArrayAccess = 2"
| "takes (X_ArrayBuild num_items) = unat num_items"
| "takes _ = 0"

text \<open>Items that, from a given height of the stack and over both ways out of each jump, end with one value.\<close>

fun targets :: "('f, 'r) expression_item \<Rightarrow> ('f, 'r) expression_item list \<Rightarrow> ('f, 'r) expression_item list list" where
  "targets (X_JmpIf val pos) items = [items, drop (unat pos) items]"
| "targets _ items = [items]"

fun in_range :: "('f, 'r) expression_item \<Rightarrow> ('f, 'r) expression_item list \<Rightarrow> bool" where
  "in_range (X_JmpIf val pos) items = (unat pos \<le> length items)"
| "in_range _ items = True"

lemma length_targets: "rest \<in> set (targets item items) \<Longrightarrow> length rest \<le> length items"
  by (cases item) auto

function stack_typed :: "('f, 'r) expression_item list \<Rightarrow> nat \<Rightarrow> bool" where
  "stack_typed [] d = (d = 1)"
| "stack_typed (item # items) d =
     (takes item \<le> d \<and> in_range item items \<and> list_all (\<lambda>rest. stack_typed rest (Suc (d - takes item))) (targets item items))"
  by pat_completeness auto
termination
  by (relation "measure (\<lambda>(items, d). length items)") (auto simp: less_Suc_eq_le length_targets)

inductive step :: "('f, 'r, 'e, 'w) eval_env
    \<Rightarrow> ('f, 'r) expression_item list \<times> 'f variable list \<times> 'w eval_state
    \<Rightarrow> ('f, 'r) expression_item list \<times> 'f variable list \<times> 'w eval_state \<Rightarrow> bool" for env where
  item: "exec_item env item stack s = (Inr stack', s') \<Longrightarrow>
    step env (item # items, stack, s) (after_item (ev_float env) item items stack, stack', s')"

inductive_cases stepE: "step env (items, stack, s) c"

lemma after_item_target: "after_item F item items stack \<in> set (targets item items)"
  by (cases item) auto

lemma length_pop_value: "pop_value stack = (v, rest) \<Longrightarrow> length rest = length stack - 1"
  by (cases stack) auto

lemma exec_item_height:
  "exec_item env item stack s = (Inr stack', s') \<Longrightarrow> takes item \<le> length stack \<Longrightarrow> length stack' = Suc (length stack - takes item)"
  by (cases item; cases stack)
    (auto simp: pop_values_def Let_def dest!: length_pop_value split: sum.splits prod.splits)

lemma step_typed:
  assumes "step env (items, stack, s) (items', stack', s')" "stack_typed items (length stack)"
  shows "stack_typed items' (length stack')"
  using assms
  by (elim stepE) (auto simp: exec_item_height list_all_iff after_item_target)

lemma steps_typed:
  assumes "(step env)\<^sup>*\<^sup>* (items, stack, s) (items', stack', s')" "stack_typed items (length stack)"
  shows "stack_typed items' (length stack') \<and> exec env items stack s = exec env items' stack' s'"
  using assms
proof (induction "(items', stack', s')" arbitrary: items' stack' s' rule: rtranclp_induct)
  case (step c)
  obtain items1 stack1 s1 where c: "c = (items1, stack1, s1)" by (cases c)
  with step have "stack_typed items1 (length stack1)" "exec env items stack s = exec env items1 stack1 s1" by auto
  with step(2) show ?case
    unfolding c by (auto elim: stepE dest: step_typed)
qed simp

lemma exec_typed:
  "stack_typed items (length stack) \<Longrightarrow> exec env items stack s = (Inr stack', s') \<Longrightarrow> length stack' = 1"
proof (induction env items stack s rule: exec.induct)
  case (2 env item items stack s)
  then obtain stack1 s1 where *: "exec_item env item stack s = (Inr stack1, s1)"
      "exec env (after_item (ev_float env) item items stack) stack1 s1 = (Inr stack', s')"
    by (auto split: prod.splits sum.splits)
  then have "step env (item # items, stack, s) (after_item (ev_float env) item items stack, stack1, s1)"
    by (intro step.intros)
  from step_typed [OF this 2(2)] 2(1) [OF *(1) [symmetric] refl] *(2) show ?case by auto
qed simp

lemma stack_typed_jump:
  assumes "Suc (length c) < 2 ^ 32"
  shows "stack_typed (jump op (Suc (length c)) @ c @ item # items) (Suc d) \<longleftrightarrow>
    (stack_typed (c @ item # items) (Suc d) \<and> (op \<in> {BO_And, BO_Or} \<longrightarrow> stack_typed items (Suc d)))"
proof -
  have n: "unat (of_nat (Suc (length c)) :: u32) = Suc (length c)"
    using assms by (intro unat_of_nat_small) simp
  show ?thesis by (cases op) (simp_all add: n del: of_nat_Suc)
qed

lemma stack_typed_codes:
  "\<forall>e\<in>set es. \<forall>items d. stack_typed (code e @ items) d = stack_typed items (Suc d) \<Longrightarrow>
     stack_typed (concat (map code es) @ items) d = stack_typed items (d + length es)"
  by (induction es arbitrary: d) auto

lemma length_code_element: "e \<in> set es \<Longrightarrow> length (code e) \<le> length (concat (map code es))"
  by (induction es) auto

lemma stack_typed_code:
  "expr_ok e \<Longrightarrow> length (code e) < 2 ^ 32 \<Longrightarrow> stack_typed (code e @ items) d = stack_typed items (Suc d)"
proof (induction e arbitrary: items d)
  case (E_Call name i es)
  have "unat (of_nat (length es) :: u32) = length es"
    using E_Call(2) by (intro unat_of_nat_small) simp
  moreover have "\<forall>e\<in>set es. \<forall>items d. stack_typed (code e @ items) d = stack_typed items (Suc d)"
    using E_Call length_code_element [of _ es] by (fastforce simp: list_all_iff)
  ultimately show ?case by (simp add: stack_typed_codes)
next
  case (E_Array es)
  have "unat (of_nat (length es) :: u32) = length es"
    using E_Array(2) by (intro unat_of_nat_small) simp
  moreover have "\<forall>e\<in>set es. \<forall>items d. stack_typed (code e @ items) d = stack_typed items (Suc d)"
    using E_Array length_code_element [of _ es] by (fastforce simp: list_all_iff)
  ultimately show ?case by (simp add: stack_typed_codes)
next
  case (E_Binary op l r)
  then have "Suc (length (code r)) < 2 ^ 32" by simp
  with E_Binary show ?case by (auto simp: stack_typed_jump)
qed simp_all

section \<open>Properties\<close>

text \<open>
  C5: A block of conditions whose texts are those of well-formed expressions is parsed without an error,
  and evaluating the parsed block gives the meaning of the expressions: the value of the first rule
  whose condition holds, or of the default, where an operand that a logical operator does not need is
  not evaluated, and errors, captures and effects are those of the parts that are evaluated.
\<close>

theorem if_block_evaluates_expressions:
  fixes rules :: "(('f, 'r) expr \<times> ('f, 'r) expr) list"
  assumes "list_all (\<lambda>(c, t). compilable c \<and> compilable t) rules" "compilable d"
  shows "\<exists>if_then default_expr.
    list_all2 (\<lambda>(c, t) (i, j). parse (tokens c, None) = Inr i \<and> parse (tokens t, None) = Inr j) rules if_then
    \<and> parse (tokens d, None) = Inr default_expr
    \<and> (\<forall>(env :: ('f, 'r, 'e, 'w) eval_env) s.
         eval_if_block env \<lparr>ib_if_then = if_then, ib_default = default_expr\<rparr> s = sem_if env rules d s)"
proof (intro exI conjI allI)
  show "list_all2 (\<lambda>(c, t) (i, j). parse (tokens c, None) = Inr i \<and> parse (tokens t, None) = Inr j) rules (map (map_prod code code) rules)"
    using assms(1) by (induction rules) (auto simp: compilable_def parse_tokens_expr)
  show "parse (tokens d, None) = Inr (code d)"
    using assms(2) by (simp add: compilable_def parse_tokens_expr)
  show "eval_if_block env \<lparr>ib_if_then = map (map_prod code code) rules, ib_default = code d\<rparr> s = sem_if env rules d s"
    for env :: "('f, 'r, 'e, 'w) eval_env" and s
    using eval_if_thens_code [OF assms] by (simp add: eval_if_block_def)
qed

text \<open>The rule \<open>if x || f('a'), then ['a'][0], else -1 + 2 * $1\<close>.\<close>

theorem if_block_evaluates_expressions_witness:
  "\<exists>if_then default_expr.
    list_all2 (\<lambda>(c, t) (i, j). parse (tokens c, None) = Inr i \<and> parse (tokens t, None) = Inr j)
      [(E_Binary BO_Or (E_Variable 3) (E_Call [102] 7 [E_Constant (C_String [97])]),
        E_Index (E_Array [E_Constant (C_String [97])]) (E_Constant (C_Integer 0)))] if_then
    \<and> parse (tokens (E_Binary BO_Add (E_Unary UO_Minus (E_Constant (C_Integer 1))) (E_Binary BO_Multiply (E_Constant (C_Integer 2)) (E_Capture 1))), None)
        = Inr default_expr
    \<and> (\<forall>(env :: (int, unit, unit, nat) eval_env) s.
         eval_if_block env \<lparr>ib_if_then = if_then, ib_default = default_expr\<rparr> s =
         sem_if env
           [(E_Binary BO_Or (E_Variable 3) (E_Call [102] 7 [E_Constant (C_String [97])]),
             E_Index (E_Array [E_Constant (C_String [97])]) (E_Constant (C_Integer 0)))]
           (E_Binary BO_Add (E_Unary UO_Minus (E_Constant (C_Integer 1))) (E_Binary BO_Multiply (E_Constant (C_Integer 2)) (E_Capture 1))) s)"
  by (rule if_block_evaluates_expressions) (simp_all add: compilable_def ID_ARRAY_ACCESS_def ID_ARRAY_BUILD_def)

text \<open>
  C9: Running the code that the parser makes of a well-formed expression never takes a value from an
  empty stack: at every step that the machine reaches the next item finds the values it takes, and
  when the code ends, there is exactly one value on the stack, which is the result.
\<close>

theorem parsed_code_keeps_stack:
  assumes "compilable e" "parse (tokens e, None) = Inr items"
    and "(step env)\<^sup>*\<^sup>* (items, [], s) (items', stack, s')"
  shows "(case items' of [] \<Rightarrow> length stack = 1 | item # _ \<Rightarrow> takes item \<le> length stack)
    \<and> exec env items [] s = exec env items' stack s'
    \<and> (case fst (exec env items [] s) of Inl e \<Rightarrow> True | Inr r \<Rightarrow> length r = 1)"
proof -
  have "items = code e"
    using assms(1,2) by (simp add: compilable_def parse_tokens_expr)
  then have "stack_typed items (length [])"
    using assms(1) stack_typed_code [of e "[]" 0] by (simp add: compilable_def)
  then have "stack_typed items' (length stack) \<and> exec env items [] s = exec env items' stack s'"
      "case fst (exec env items [] s) of Inl e \<Rightarrow> True | Inr r \<Rightarrow> length r = 1"
    using steps_typed [OF assms(3)] exec_typed [of items "[]" env s]
    by (auto split: sum.splits simp del: exec.simps dest: prod_eqI simp: prod_eq_iff)
  then show ?thesis
    by (cases items') (simp_all del: exec.simps)
qed

definition sample_float :: "int float_ops" where
  "sample_float = \<lparr>fl_of_int = (\<lambda>i. i), fl_zero = 0, fl_add = (+), fl_sub = (-), fl_mul = (*), fl_div = (div), fl_neg = uminus,
     fl_eq = (=), fl_cmp = (\<lambda>a b. Some (int_cmp a b)), fl_parse = (\<lambda>_. None), fl_print = print_int, fl_to_usize = nat\<rparr>"

definition sample_env :: "(int, unit, unit, nat) eval_env" where
  "sample_env = \<lparr>ev_float = sample_float, ev_resolve_variable = (\<lambda>v. V_Integer (uint v)), ev_resolve_global = V_String,
     ev_server_name = [109], ev_report_domain = [100], ev_node_id = 1, ev_config_get = (\<lambda>_ _. Inl ()),
     ev_functions = [], ev_eval_fnc = (\<lambda>_ vs n. (Inr (V_Array vs), n + 1)), ev_regex_captures = (\<lambda>_ _. None)\<rparr>"

theorem parsed_code_keeps_stack_witness:
  "takes (X_JmpIf True 3 :: (int, unit) expression_item) \<le> length [V_Integer 0 :: int variable]
    \<and> (case fst (exec sample_env [X_Variable 0, X_JmpIf True 3, X_Constant (C_Integer 5), X_UnaryOperator UO_Not, X_BinaryOperator BO_Or] [] ([], 0)) of
         Inl e \<Rightarrow> True | Inr r \<Rightarrow> length r = 1)"
proof -
  let ?e = "E_Binary BO_Or (E_Variable 0) (E_Unary UO_Not (E_Constant (C_Integer 5))) :: (int, unit) expr"
  let ?rest = "[X_JmpIf True 3, X_Constant (C_Integer 5), X_UnaryOperator UO_Not, X_BinaryOperator BO_Or]"
  have e: "compilable ?e" by (simp add: compilable_def)
  have p: "parse (tokens ?e, None) = Inr (X_Variable 0 # ?rest)"
    using parse_tokens_expr [of ?e] by simp
  have "step sample_env (X_Variable 0 # ?rest, [], ([], 0)) (?rest, [V_Integer 0], ([], 0))"
    using step.intros [of sample_env "X_Variable 0" "[]" "([], 0)" "[V_Integer 0]" "([], 0)" ?rest] by (simp add: sample_env_def)
  from parsed_code_keeps_stack [OF e p r_into_rtranclp [where r = "step sample_env", OF this]] show ?thesis
    by (elim conjE, intro conjI) (simp, assumption)
qed

text \<open>
  C34: An array literal with an element that starts with an operator or a parenthesis is refused with an
  error about the number of arguments, although all its elements are well-formed expressions.
\<close>

theorem array_of_uncounted_refused:
  assumes "list_all expr_ok es" "\<not> list_all counted es" "length es < 2 ^ 31"
  shows "parse (tokens (E_Array es), None) = Inl PE_FunctionArguments"
  using assms by (rule parse_uncounted_array)

text \<open>The arrays \<open>[(a)]\<close> and \<open>[1, -2]\<close>.\<close>

theorem array_of_uncounted_refused_witness:
  "parse ([T_OpenBracket, T_OpenParen, T_Variable 1, T_CloseParen, T_CloseBracket :: (int, unit) token], None) = Inl PE_FunctionArguments
    \<and> parse ([T_OpenBracket, T_Constant (C_Integer 1), T_Comma, T_UnaryOperator UO_Minus, T_Constant (C_Integer 2), T_CloseBracket :: (int, unit) token], None)
        = Inl PE_FunctionArguments"
  using array_of_uncounted_refused [of "[E_Paren (E_Variable 1) :: (int, unit) expr]"]
    array_of_uncounted_refused [of "[E_Constant (C_Integer 1), E_Unary UO_Minus (E_Constant (C_Integer 2)) :: (int, unit) expr]"]
  by simp

end
