(* ===== verification/Spec2Isabelle.thy ===== *)
theory Spec2Isabelle
  imports MailId BlobId Sharing Snowflake Topological Glob ObjectCommit ExprCorrect
begin

text \<open>
  A verification library for RMail, a mail and collaboration server in Rust (sources under
  \<open>src/crates\<close>).

  \<^bold>\<open>The program.\<close> Protocol front ends (JMAP, IMAP, POP3, SMTP, WebDAV) turn requests into operations on
  stored objects. A request runs under an access token, built from a principal and its roles
  (\<open>directory\<close>, \<open>common/src/auth\<close>), which decides with the grants of shared objects
  (\<open>common/src/sharing\<close>) what it may touch. A change of an object goes through
  \<open>ObjectIndexBuilder\<close> (\<open>common/src/storage/index.rs\<close>), which adds the differences of its index
  rows to a \<open>BatchBuilder\<close> (\<open>store/src/write/batch.rs\<close>), together with the entries for the change
  log (\<open>write/log.rs\<close>). The store serialises keys (\<open>write/key.rs\<close>) and values
  (\<open>write/serialize.rs\<close>) and commits the batch in a transaction
  (\<open>backend/rocksdb/write.rs\<close>) that is retried on conflicts. Clients later read the log
  (\<open>query/log.rs\<close>) to learn what changed. Settings of the server are expressions that are parsed once
  and evaluated for each request (\<open>common/src/expr\<close>). Below lie codecs, identifiers and
  containers (\<open>utils\<close>, \<open>types\<close>). The development models this path from the object to the log, the
  authorisation beside it, the expression language, and the library beneath.

  \<^bold>\<open>Conventions.\<close> Rust integers are words of their width where they wrap or are serialised, and
  \<open>int\<close> or \<open>nat\<close> with the bound written out elsewhere. Strings are their UTF-8 bytes. A
  \<open>Result\<close> is an option or a sum with the error on the left; a panic is an error of its own. Hash maps
  are maps, and the order in which they are iterated is an argument that lists every key once. The
  clock, random numbers, hashes, compression, the object serialiser, the database engine, regular
  expressions and floating point numbers are code of others: they are arguments, and what the program
  relies on is a named hypothesis that a concrete instance is shown to meet. Constants of the
  code and the bodies of its inner loops are definitions of their own next to the operation they
  belong to.

  \<^bold>\<open>Theories.\<close>

  \<^item> \<open>Prelude\<close>: types, facts on words, bits, lists and enumerations.

  \<^item> \<open>Leb128\<close> (\<open>codec/leb128.rs\<close>), \<open>Base32\<close> (\<open>codec/base32_custom.rs\<close>),
    \<open>BigEndian\<close> (\<open>KeySerializer\<close>, \<open>DeserializeBigEndian\<close>), \<open>CheekyHash\<close>
    (\<open>cheeky_hash.rs\<close>): codecs. The locales \<open>byte_writer\<close> and \<open>byte_iter\<close> are what an integer codec
    needs of its sink and source; vectors, slices and the base-32 streams provide them. Shown: decoding
    inverts encoding, also in front of further bytes, and the one instance (\<open>u8\<close>) for which it does
    not.

  \<^item> \<open>MailId\<close> (\<open>types/src/id.rs\<close>), \<open>BlobId\<close> (\<open>blob.rs\<close>, \<open>blob_hash.rs\<close>),
    \<open>Snowflake\<close> (\<open>snowflake.rs\<close>): identifiers. Shown: printing and parsing are inverse on well-formed
    identifiers; identifiers of one generator are ordered by time and distinct up to 4096 calls in a
    millisecond.

  \<^item> \<open>Bitmap\<close>, \<open>VecMap\<close>, \<open>Bitset\<close>, \<open>Glob\<close>, \<open>Topological\<close>: containers and
    algorithms of \<open>utils\<close> and \<open>trc\<close>. \<open>bitmap_item\<close> is the contract of the trait \<open>BitmapItem\<close>,
    met by the enumerations of \<open>MailTypes\<close> (\<open>acl.rs\<close>, \<open>collection.rs\<close>, \<open>type_state.rs\<close>);
    \<open>keyed_map\<close> is the contract of a map, met by \<open>VecMap\<close>. Shown: refinement of maps, the glob
    loop returns and agrees with the declarative meaning of a pattern, the topological iterator ends,
    lists each node behind its predecessors and detects cycles.

  \<^item> \<open>Roles\<close> (\<open>auth/roles.rs\<close>, \<open>principal.rs\<close>), \<open>Access\<close> (\<open>auth/access_token.rs\<close>,
    \<open>query/acl.rs\<close>), \<open>Sharing\<close> (\<open>common/src/sharing\<close>, the invalidation of caches): who may do
    what. Shown: role resolution ends on cyclic roles with the permissions of the whole ancestry; a token
    reaches exactly the accounts that are its own or granted to it; which rights are effective,
    which containers are listed, what the container check guarantees, which tokens are dropped
    when grants or principals change.

  \<^item> \<open>Keys\<close> (\<open>write/key.rs\<close>, the value classes of \<open>write/mod.rs\<close>): shown that keys of a
    subspace are injective on well-formed classes, and that a byte-ordered scan of the log visits
    exactly a range of change ids.

  \<^item> \<open>Archive\<close> (\<open>write/serialize.rs\<close>, \<open>assert.rs\<close>): the frame of stored objects, with its
    checksum, version and compression.

  \<^item> \<open>ChangeLog\<close> (\<open>write/log.rs\<close>), \<open>ChangeQuery\<close> (\<open>query/log.rs\<close>): recording and reading
    changes. The locales \<open>change_merge\<close> and \<open>object_changes\<close> hold the merging of changes of one
    object, for items and for containers. Shown: what is reported since a change id is the net effect
    of the batches behind it.

  \<^item> \<open>Batch\<close> (\<open>write/batch.rs\<close>), \<open>StoreCommit\<close> (\<open>backend/rocksdb/write.rs\<close>), \<open>StoreLog\<close>:
    building, committing, and the history of commits. The locale \<open>rocks_txn\<close> is the contract of an
    optimistic transaction: reads come from the snapshot and the transaction's own writes, and a
    commit succeeds only when nothing it locked has changed. Shown: a commit that
    succeeds has the effect of the batch run alone, its assertions held, the retry loop ends within its
    budget and succeeds when an attempt within the budget meets no conflict; the log of an account only
    grows; a client that asks for changes gets the net effect of all builders committed since.

  \<^item> \<open>ObjectIndex\<close> (\<open>storage/index.rs\<close>, \<open>sharing/notification.rs\<close>, the index values of
    messages, mailboxes, calendars and files), \<open>ObjectRows\<close>, \<open>ObjectCommit\<close>: from the change of an
    object to the store. Shown: after the commit the rows of the document are those of the new object,
    and the quota of the account moved by the difference of their sizes.

  \<^item> \<open>ExprParser\<close> (\<open>expr/parser.rs\<close>), \<open>ExprEval\<close> (\<open>expr/eval.rs\<close>), \<open>ExprCompile\<close>,
    \<open>ExprCorrect\<close>: the expression language. Shown: the text of a well-formed expression is parsed, its
    code computes the meaning of the expression with short-circuit operators, and the code is
    typed by the height of the stack.

  \<^bold>\<open>Bounds and fuel.\<close> The LEB128 and base-32 loops recurse on the word or the input, the walk over roles
  on the roles not yet visited, the stack machine on the items left. The topological iterator is run with
  as many steps as there are nodes, and it is shown that this exhausts it. The glob loop is a partial
  function that is shown to return. The retry loop of \<open>write\<close> is run with the budget of ten
  retries that the code has; its deadline is an argument. The expressions of \<open>ExprCorrect\<close> have less than
  2 to the 32 items, since a jump is a 32-bit number. Snowflake identifiers are considered until the
  milliseconds exceed 43 bits.

  \<^bold>\<open>Not modelled.\<close> The protocol servers and their parsers and printers (IMAP, JMAP, POP3, ManageSieve,
  SMTP, WebDAV, HTTP), the delivery queue, background services, telemetry, configuration, TLS and
  boot, whose behaviour is network input and output and timers; directory backends and authentication,
  which are network protocols and cryptography; message, calendar and contact parsing and the Sieve
  interpreter, which are external libraries, with the ingestion built on them; the spam filter and the
  language tools, which are statistics over floats and tables; store backends other than RocksDB; full-text search;
  blob purging; migration from earlier formats; the command line client. In the expression language the
  tokenizer and the table of functions are left out: the parser starts from tokens, and
  the evaluator takes the functions as a parameter.
\<close>

end
